(* ===== verification/Prelude.thy ===== *)
theory Prelude
  imports Main "HOL-Library.Word"
begin

unbundle bit_operations_syntax

text \<open>
  Shared vocabulary of the development: the byte and machine-word types the C++ code
  uses, the little-endian reading and writing of integers (\<open>crypto/common.h\<close>), and the
  generic lemmas about lists, bytes and words that the component theories rely on.

  A byte vector (\<open>std::vector<unsigned char>\<close>, \<open>CScript\<close>, the contents of a
  \<open>CDataStream\<close>) is a list of 8-bit words. A read position into such a vector is the list
  of the bytes that are still unread, so that advancing the position drops a prefix.
\<close>

section \<open>Types and fact collections\<close>

type_synonym byte = "8 word"
type_synonym bytes = "byte list"
type_synonym u16 = "16 word"
type_synonym u32 = "32 word"
type_synonym u64 = "64 word"

named_theorems wire_simps \<open>evaluation rules of the wire formats\<close>
named_theorems len_simps \<open>lengths of encodings\<close>

section \<open>Little-endian integers\<close>

text \<open>
  The \<open>k\<close> low-order bytes of \<open>x\<close>, least significant first. This is what
  \<open>WriteLE16/32/64\<close> and \<open>ser_writedata16/32/64\<close> store.
\<close>

fun le_bytes :: "nat \<Rightarrow> nat \<Rightarrow> bytes" where
  "le_bytes 0 x = []"
| "le_bytes (Suc k) x = of_nat (x mod 256) # le_bytes k (x div 256)"

fun le_val :: "bytes \<Rightarrow> nat" where
  "le_val [] = 0"
| "le_val (b # bs) = unat b + 256 * le_val bs"

lemma length_le_bytes [simp, len_simps]: "length (le_bytes k x) = k"
  by (induction k arbitrary: x) auto

lemma unat_byte_lt [simp]: "unat (b :: byte) < 256"
  using unsigned_less [of b, where ?'a = nat] by simp

lemma unat_byte_le [simp]: "unat (b :: byte) \<le> 255"
  using unat_byte_lt [of b] by linarith

lemma unat_of_nat_byte [simp]: "unat (of_nat x :: byte) = x mod 256"
  by (simp add: unat_of_nat)

lemma of_nat_unat_mod_byte [simp]: "of_nat (unat (b :: byte) mod 256) = b"
  by simp

lemma le_val_bound: "le_val bs < 256 ^ length bs"
proof (induction bs)
  case Nil
  then show ?case by simp
next
  case (Cons b bs)
  have "unat b + 256 * le_val bs < 256 + 256 * le_val bs"
    by simp
  also have "\<dots> = 256 * Suc (le_val bs)"
    by simp
  also have "\<dots> \<le> 256 * 256 ^ length bs"
    using Cons by (intro mult_le_mono2) linarith
  finally show ?case by simp
qed

lemma le_val_le_bytes [simp]: "le_val (le_bytes k x) = x mod 256 ^ k"
proof (induction k arbitrary: x)
  case 0
  then show ?case by simp
next
  case (Suc k)
  have "le_val (le_bytes (Suc k) x) = x mod 256 + 256 * (x div 256 mod 256 ^ k)"
    by (simp add: Suc)
  also have "\<dots> = x mod 256 ^ Suc k"
    by (simp add: mod_mult2_eq)
  finally show ?case .
qed

lemma le_bytes_le_val [simp]: "le_bytes (length bs) (le_val bs) = bs"
  by (induction bs) auto

lemma le_bytes_inj:
  assumes "le_bytes k x = le_bytes k y" and "x < 256 ^ k" and "y < 256 ^ k"
  shows "x = y"
proof -
  from assms(1) have "le_val (le_bytes k x) = le_val (le_bytes k y)"
    by simp
  with assms(2,3) show ?thesis by simp
qed

lemma le_val_zeros [simp]: "le_val (replicate n 0) = 0"
  by (induction n) simp_all

lemma le_val_append: "le_val (xs @ ys) = le_val xs + 256 ^ length xs * le_val ys"
  by (induction xs) (auto simp: algebra_simps)

section \<open>Bit masks on bytes\<close>

text \<open>
  The masks \<open>0x7f\<close> and \<open>0x80\<close> occur throughout the code: the continuation bit of a
  VarInt digit, the sign bit of a script number, the high bit of a DER integer.
\<close>

lemma byte_and_7F: "unat (b AND 0x7F :: byte) = unat b mod 128"
proof -
  have "(0x7F :: byte) = mask 7"
    by (simp add: mask_eq_exp_minus_1)
  then have "b AND 0x7F = take_bit 7 b"
    by (simp add: take_bit_eq_mask)
  then show ?thesis
    by (simp add: take_bit_eq_mod unat_mod)
qed

lemma byte_split_80: "(b AND 0x7F) OR (b AND 0x80 :: byte) = b"
proof -
  have "(b AND 0x7F) OR (b AND 0x80) = b AND (0x7F OR 0x80)"
    by (rule bit.conj_disj_distrib [symmetric])
  also have "(0x7F OR 0x80 :: byte) = - 1"
    by simp
  finally show ?thesis by simp
qed

lemma bit_byte_7: "bit (b :: byte) 7 \<longleftrightarrow> 128 \<le> unat b"
proof -
  have "bit b 7 \<longleftrightarrow> bit (unat b) 7"
    by (simp add: bit_unsigned_iff)
  also have "\<dots> \<longleftrightarrow> odd (unat b div 128)"
    by (simp add: bit_iff_odd)
  also have "unat b div 128 = 0 \<or> unat b div 128 = 1"
    using unat_byte_lt [of b] by linarith
  then have "odd (unat b div 128) \<longleftrightarrow> 128 \<le> unat b" by auto
  finally show ?thesis .
qed

lemma bit_0x80: "bit (0x80 :: byte) n \<longleftrightarrow> n = 7"
proof -
  have "(0x80 :: byte) = 2 ^ 7" by simp
  then show ?thesis by (simp only: bit_exp_iff possible_bit_word) auto
qed

lemma byte_and_80: "b AND 0x80 = (if unat b < 128 then 0 else (0x80 :: byte))"
proof -
  have "b AND 0x80 = (if bit b 7 then 0x80 else 0)"
    by (rule bit_word_eqI) (auto simp: bit_and_iff bit_0x80 simp del: bit_numeral_word_iff)
  then show ?thesis by (simp add: bit_byte_7)
qed

lemma byte_and_80_eq_0: "(b AND 0x80 = (0 :: byte)) = (unat b < 128)"
  by (simp add: byte_and_80)

lemma byte_or_80: "unat b < 128 \<Longrightarrow> unat (b OR 0x80 :: byte) = unat b + 128"
proof -
  assume b: "unat b < 128"
  then have "b AND 0x80 = 0" by (simp add: byte_and_80)
  then have "b OR 0x80 = b + 0x80"
    by (rule disjunctive_add_eq_or [symmetric])
  then show ?thesis
    using b by (simp add: unat_word_ariths)
qed

section \<open>Lists\<close>

lemma take_append_len [simp]: "length xs = n \<Longrightarrow> take n (xs @ ys) = xs"
  by simp

lemma drop_append_len [simp]: "length xs = n \<Longrightarrow> drop n (xs @ ys) = ys"
  by simp

lemma split_at_len: "n \<le> length xs \<Longrightarrow> \<exists>ys zs. xs = ys @ zs \<and> length ys = n"
  by (metis append_take_drop_id length_take min.absorb2)

section \<open>Errors as values\<close>

text \<open>Sequencing of computations that may fail: the rest runs on the result of the first.\<close>

primrec bindE :: "'e + 'a \<Rightarrow> ('a \<Rightarrow> 'e + 'b) \<Rightarrow> 'e + 'b" where
  "bindE (Inl e) f = Inl e"
| "bindE (Inr x) f = f x"

lemma bindE_Inr: "bindE m f = Inr y \<longleftrightarrow> (\<exists>x. m = Inr x \<and> f x = Inr y)"
  by (cases m) auto

lemma bindE_InrE [elim!]:
  assumes "bindE m f = Inr y"
  obtains x where "m = Inr x" "f x = Inr y"
  using assms by (cases m) auto

lemma bindE_assoc: "bindE (bindE m f) g = bindE m (\<lambda>x. bindE (f x) g)"
  by (cases m) auto

end
