(* ===== verification/Serialize.thy ===== *)
theory Serialize
  imports Prelude
begin

unbundle bit_operations_syntax

text \<open>
  The wire formats of \<open>serialize.h\<close>: fixed-width little-endian integers,
  \<open>CompactSize\<close>, \<open>VarInt\<close> and vectors. Writers return the bytes they append to the stream;
  readers take the unread bytes and return the value with the rest, or the
  \<open>std::ios_base::failure\<close> they throw. The locale \<open>codec\<close> is the contract between a writer
  and a reader that every user of a format relies on; \<open>canonical_codec\<close> adds that a value
  has one encoding only.
\<close>

section \<open>Streams\<close>

datatype ser_error = EndOfData | NonCanonicalCompactSize | SizeTooLarge | VarIntTooLarge | SerAssertFailed

type_synonym 'a reader = "bytes \<Rightarrow> ser_error + ('a \<times> bytes)"

text \<open>\<open>CDataStream::read\<close>: the next \<open>n\<close> bytes, or the end-of-data failure.\<close>

definition stream_read :: "nat \<Rightarrow> bytes reader" where
  "stream_read n s = (if length s < n then Inl EndOfData else Inr (take n s, drop n s))"

definition ser_writedata8 :: "nat \<Rightarrow> bytes" where
  "ser_writedata8 obj = le_bytes 1 obj"

definition ser_writedata16 :: "nat \<Rightarrow> bytes" where
  "ser_writedata16 obj = le_bytes 2 obj"

definition ser_writedata32 :: "nat \<Rightarrow> bytes" where
  "ser_writedata32 obj = le_bytes 4 obj"

definition ser_writedata64 :: "nat \<Rightarrow> bytes" where
  "ser_writedata64 obj = le_bytes 8 obj"

definition ser_readdata8 :: "nat reader" where
  "ser_readdata8 s = map_sum id (map_prod le_val id) (stream_read 1 s)"

definition ser_readdata16 :: "nat reader" where
  "ser_readdata16 s = map_sum id (map_prod le_val id) (stream_read 2 s)"

definition ser_readdata32 :: "nat reader" where
  "ser_readdata32 s = map_sum id (map_prod le_val id) (stream_read 4 s)"

definition ser_readdata64 :: "nat reader" where
  "ser_readdata64 s = map_sum id (map_prod le_val id) (stream_read 8 s)"

lemmas ser_writedata_defs =
  ser_writedata8_def ser_writedata16_def ser_writedata32_def ser_writedata64_def

lemmas ser_readdata_defs =
  ser_readdata8_def ser_readdata16_def ser_readdata32_def ser_readdata64_def

section \<open>The codec contract\<close>

text \<open>
  \<open>read_n\<close> is the inner loop of \<open>VectorFormatter::Unser\<close>: it reads \<open>k\<close> elements one after the
  other. (The batching of \<open>reserve\<close> in that loop bounds memory and does not change the
  elements that are read.)
\<close>

fun read_n :: "'a reader \<Rightarrow> nat \<Rightarrow> 'a list reader" where
  "read_n unser 0 s = Inr ([], s)"
| "read_n unser (Suc k) s =
     (case unser s of
        Inl e \<Rightarrow> Inl e
      | Inr (x, s1) \<Rightarrow>
          (case read_n unser k s1 of
             Inl e \<Rightarrow> Inl e
           | Inr (xs, s2) \<Rightarrow> Inr (x # xs, s2)))"

locale codec =
  fixes ser :: "'a \<Rightarrow> bytes"
    and unser :: "'a reader"
    and wf :: "'a \<Rightarrow> bool"
  assumes unser_ser: "wf x \<Longrightarrow> unser (ser x @ r) = Inr (x, r)"
begin

lemma prefix_free:
  assumes "wf x" and "wf y" and "ser x @ r = ser y @ r'"
  shows "x = y \<and> r = r'"
proof -
  have "unser (ser x @ r) = Inr (y, r')"
    unfolding assms(3) by (rule unser_ser [OF assms(2)])
  moreover have "unser (ser x @ r) = Inr (x, r)"
    by (rule unser_ser [OF assms(1)])
  ultimately show ?thesis by simp
qed

lemma ser_inj:
  assumes "wf x" and "wf y" and "ser x = ser y"
  shows "x = y"
  using prefix_free [of x y "[]" "[]"] assms by simp

lemma read_n_concat:
  "list_all wf xs \<Longrightarrow> read_n unser (length xs) (concat (map ser xs) @ r) = Inr (xs, r)"
  by (induction xs) (auto simp: unser_ser)

end

locale canonical_codec = codec +
  assumes ser_unser: "unser s = Inr (x, r) \<Longrightarrow> s = ser x @ r \<and> wf x"
begin

lemma unser_iff: "unser s = Inr (x, r) \<longleftrightarrow> wf x \<and> s = ser x @ r"
  using ser_unser unser_ser by blast

lemma read_n_inv:
  "read_n unser k s = Inr (xs, r) \<Longrightarrow>
     length xs = k \<and> list_all wf xs \<and> s = concat (map ser xs) @ r"
proof (induction k arbitrary: s xs)
  case 0
  then show ?case by simp
next
  case (Suc k)
  from Suc.prems obtain x s1 xs' where
      x: "unser s = Inr (x, s1)" and xs': "read_n unser k s1 = Inr (xs', r)"
      and xs: "xs = x # xs'"
    by (auto split: sum.splits prod.splits)
  from Suc.IH [OF xs'] ser_unser [OF x] xs show ?case by auto
qed

end

section \<open>Fixed-width integers\<close>

lemma stream_read_append:
  "length xs = n \<Longrightarrow> stream_read n (xs @ r) = Inr (xs, r)"
  by (simp add: stream_read_def)

lemma stream_read_Inr:
  "stream_read n s = Inr (xs, r) \<longleftrightarrow> s = xs @ r \<and> length xs = n"
  by (auto simp: stream_read_def)

lemma le_codec:
  "canonical_codec (le_bytes k) (\<lambda>s. map_sum id (map_prod le_val id) (stream_read k s)) (\<lambda>x. x < 256 ^ k)"
proof
  fix x r
  assume "x < (256 :: nat) ^ k"
  then show "map_sum id (map_prod le_val id) (stream_read k (le_bytes k x @ r)) = Inr (x, r)"
    by (simp add: stream_read_append)
next
  fix s x r
  assume "map_sum id (map_prod le_val id) (stream_read k s) = Inr (x, r)"
  then obtain xs where xs: "stream_read k s = Inr (xs, r)" and x: "x = le_val xs"
    by (cases "stream_read k s") auto
  from xs have s: "s = xs @ r" and k: "length xs = k" by (simp_all add: stream_read_Inr)
  show "s = le_bytes k x @ r \<and> x < 256 ^ k"
    unfolding x s k [symmetric] using le_val_bound [of xs] by simp
qed

lemma ser_data_fun_eqs:
  "ser_writedata8 = le_bytes 1"
  "ser_writedata16 = le_bytes 2"
  "ser_writedata32 = le_bytes 4"
  "ser_writedata64 = le_bytes 8"
  "ser_readdata8 = (\<lambda>s. map_sum id (map_prod le_val id) (stream_read 1 s))"
  "ser_readdata16 = (\<lambda>s. map_sum id (map_prod le_val id) (stream_read 2 s))"
  "ser_readdata32 = (\<lambda>s. map_sum id (map_prod le_val id) (stream_read 4 s))"
  "ser_readdata64 = (\<lambda>s. map_sum id (map_prod le_val id) (stream_read 8 s))"
  by (rule ext, simp only: ser_writedata_defs ser_readdata_defs)+

interpretation data8: canonical_codec ser_writedata8 ser_readdata8 "\<lambda>x. x < 256 ^ 1"
  unfolding ser_data_fun_eqs by (rule le_codec)

interpretation data16: canonical_codec ser_writedata16 ser_readdata16 "\<lambda>x. x < 256 ^ 2"
  unfolding ser_data_fun_eqs by (rule le_codec)

interpretation data32: canonical_codec ser_writedata32 ser_readdata32 "\<lambda>x. x < 256 ^ 4"
  unfolding ser_data_fun_eqs by (rule le_codec)

interpretation data64: canonical_codec ser_writedata64 ser_readdata64 "\<lambda>x. x < 256 ^ 8"
  unfolding ser_data_fun_eqs by (rule le_codec)

lemma length_ser_writedata [simp, len_simps]:
  "length (ser_writedata8 x) = 1"
  "length (ser_writedata16 x) = 2"
  "length (ser_writedata32 x) = 4"
  "length (ser_writedata64 x) = 8"
  by (simp_all add: ser_writedata_defs)

section \<open>CompactSize\<close>

definition MAX_SIZE :: nat where
  "MAX_SIZE = 0x02000000"

definition GetSizeOfCompactSize :: "nat \<Rightarrow> nat" where
  "GetSizeOfCompactSize nSize =
     (if nSize < 253 then 1
      else if nSize \<le> 0xFFFF then 1 + 2
      else if nSize \<le> 0xFFFFFFFF then 1 + 4
      else 1 + 8)"

definition WriteCompactSize :: "nat \<Rightarrow> bytes" where
  "WriteCompactSize nSize =
     (if nSize < 253 then ser_writedata8 nSize
      else if nSize \<le> 0xFFFF then ser_writedata8 253 @ ser_writedata16 nSize
      else if nSize \<le> 0xFFFFFFFF then ser_writedata8 254 @ ser_writedata32 nSize
      else ser_writedata8 255 @ ser_writedata64 nSize)"

text \<open>
  The three multi-byte forms differ in the reader of the payload and in the smallest value
  the form may carry; a smaller value throws the non-canonical failure.
\<close>

definition read_payload :: "nat reader \<Rightarrow> nat \<Rightarrow> nat reader" where
  "read_payload rd lo s =
     (case rd s of
        Inl e \<Rightarrow> Inl e
      | Inr (n, s1) \<Rightarrow> if n < lo then Inl NonCanonicalCompactSize else Inr (n, s1))"

definition ReadCompactSize :: "bool \<Rightarrow> nat reader" where
  "ReadCompactSize range_check s =
     (case ser_readdata8 s of
        Inl e \<Rightarrow> Inl e
      | Inr (chSize, s1) \<Rightarrow>
          (case (if chSize < 253 then Inr (chSize, s1)
                 else if chSize = 253 then read_payload ser_readdata16 253 s1
                 else if chSize = 254 then read_payload ser_readdata32 0x10000 s1
                 else read_payload ser_readdata64 0x100000000 s1) of
             Inl e \<Rightarrow> Inl e
           | Inr (nSizeRet, s2) \<Rightarrow>
               if range_check \<and> nSizeRet > MAX_SIZE then Inl SizeTooLarge
               else Inr (nSizeRet, s2)))"

lemma length_WriteCompactSize [len_simps]:
  "length (WriteCompactSize n) = GetSizeOfCompactSize n"
  by (simp add: WriteCompactSize_def GetSizeOfCompactSize_def)

definition compact_ok :: "bool \<Rightarrow> nat \<Rightarrow> bool" where
  "compact_ok range_check n \<longleftrightarrow> n < 2 ^ 64 \<and> (range_check \<longrightarrow> n \<le> MAX_SIZE)"

lemma ReadCompactSize_Write:
  assumes "compact_ok rc n"
  shows "ReadCompactSize rc (WriteCompactSize n @ r) = Inr (n, r)"
proof -
  from assms have n: "n < 2 ^ 64" and rc: "\<not> (rc \<and> n > MAX_SIZE)"
    by (auto simp: compact_ok_def)
  consider "n < 253" | "253 \<le> n" "n \<le> 0xFFFF" | "0xFFFF < n" "n \<le> 0xFFFFFFFF" | "0xFFFFFFFF < n"
    by linarith
  then show ?thesis
  proof cases
    case 1
    then show ?thesis using rc
      by (auto simp: ReadCompactSize_def WriteCompactSize_def data8.unser_ser)
  next
    case 2
    then show ?thesis using rc
      by (auto simp: ReadCompactSize_def WriteCompactSize_def read_payload_def
          data8.unser_ser data16.unser_ser)
  next
    case 3
    then show ?thesis using rc
      by (auto simp: ReadCompactSize_def WriteCompactSize_def read_payload_def
          data8.unser_ser data32.unser_ser)
  next
    case 4
    then show ?thesis using rc n
      by (auto simp: ReadCompactSize_def WriteCompactSize_def read_payload_def
          data8.unser_ser data64.unser_ser)
  qed
qed

lemma read_payload_Inr:
  "read_payload rd lo s = Inr (n, r) \<longleftrightarrow> rd s = Inr (n, r) \<and> lo \<le> n"
  by (auto simp: read_payload_def split: sum.splits prod.splits if_splits)

lemma ReadCompactSize_inv:
  assumes "ReadCompactSize rc s = Inr (n, r)"
  shows "s = WriteCompactSize n @ r \<and> compact_ok rc n"
proof -
  from assms obtain ch s1 where ch: "ser_readdata8 s = Inr (ch, s1)"
    and pay: "(if ch < 253 then Inr (ch, s1)
                 else if ch = 253 then read_payload ser_readdata16 253 s1
                 else if ch = 254 then read_payload ser_readdata32 0x10000 s1
                 else read_payload ser_readdata64 0x100000000 s1) = Inr (n, r)"
    and rc: "rc \<longrightarrow> n \<le> MAX_SIZE"
    by (auto simp: ReadCompactSize_def split: sum.splits prod.splits if_split_asm)
  from data8.ser_unser [OF ch] have s: "s = ser_writedata8 ch @ s1" and "ch < 256" by auto
  then consider "ch < 253" | "ch = 253" | "ch = 254" | "ch = 255" by linarith
  then show ?thesis
  proof cases
    case 1
    with pay s rc show ?thesis by (simp add: WriteCompactSize_def compact_ok_def)
  next
    case 2
    with pay s rc data16.ser_unser [of s1 n r] show ?thesis
      by (simp add: WriteCompactSize_def compact_ok_def read_payload_Inr)
  next
    case 3
    with pay s rc data32.ser_unser [of s1 n r] show ?thesis
      by (simp add: WriteCompactSize_def compact_ok_def read_payload_Inr)
  next
    case 4
    with pay s rc data64.ser_unser [of s1 n r] show ?thesis
      by (simp add: WriteCompactSize_def compact_ok_def read_payload_Inr)
  qed
qed

interpretation compact_size: canonical_codec WriteCompactSize "ReadCompactSize rc" "compact_ok rc" for rc
  using ReadCompactSize_Write ReadCompactSize_inv by unfold_locales

section \<open>VarInt\<close>

text \<open>
  \<open>WriteVarInt\<close> fills the array \<open>tmp\<close> with the base-128 digits, least significant first,
  and then writes it backwards. \<open>varint_tmp len n\<close> is the part of \<open>tmp\<close> from index \<open>len\<close> on.
\<close>

function varint_tmp :: "nat \<Rightarrow> nat \<Rightarrow> bytes" where
  "varint_tmp len n =
     (let d = (of_nat n AND 0x7F) OR (if len \<noteq> 0 then 0x80 else 0x00)
      in if n \<le> 0x7F then [d] else d # varint_tmp (len + 1) (n div 128 - 1))"
  by pat_completeness auto
termination by (relation "measure snd") auto

declare varint_tmp.simps [simp del]

definition WriteVarInt :: "nat \<Rightarrow> bytes" where
  "WriteVarInt n = rev (varint_tmp 0 n)"

text \<open>
  \<open>ReadVarInt\<close> on an unsigned type with largest value \<open>mx\<close>. Both overflow checks come before
  the operation that could overflow, so the arithmetic below never wraps.
\<close>

fun read_varint_from :: "nat \<Rightarrow> nat \<Rightarrow> nat reader" where
  "read_varint_from mx n [] = Inl EndOfData"
| "read_varint_from mx n (chData # s) =
     (if n > mx div 128 then Inl VarIntTooLarge
      else let n1 = n * 128 + unat (chData AND 0x7F)
           in if chData AND 0x80 \<noteq> 0
              then (if n1 = mx then Inl VarIntTooLarge else read_varint_from mx (n1 + 1) s)
              else Inr (n1, s))"

definition ReadVarInt :: "nat \<Rightarrow> nat reader" where
  "ReadVarInt mx s = read_varint_from mx 0 s"

lemma varint_tmp_Suc: "varint_tmp (Suc k) n = varint_tmp 1 n"
proof (induction n arbitrary: k rule: less_induct)
  case (less n)
  show ?case
  proof (cases "n \<le> 0x7F")
    case True
    then show ?thesis by (simp add: varint_tmp.simps [of _ n])
  next
    case False
    then have "n div 128 - 1 < n" by linarith
    from less.IH [OF this, of "Suc k"] less.IH [OF this, of 1] False show ?thesis
      by (simp add: varint_tmp.simps [of _ n] numeral_2_eq_2)
  qed
qed

text \<open>The digit stored for \<open>n\<close>: seven value bits, and the continuation bit except for the last one.\<close>

definition varint_digit :: "bool \<Rightarrow> nat \<Rightarrow> byte" where
  "varint_digit more n = (of_nat n AND 0x7F) OR (if more then 0x80 else 0x00)"

lemma unat_varint_digit: "unat (varint_digit more n) = n mod 128 + (if more then 128 else 0)"
proof -
  have "n mod 256 mod 128 = n mod 128" by (rule mod_mod_cancel) simp
  then show ?thesis
    by (simp add: varint_digit_def byte_or_80 byte_and_7F)
qed

lemma varint_digit_bits:
  "unat (varint_digit more n AND 0x7F) = n mod 128"
  "(varint_digit more n AND 0x80 = 0) = (\<not> more)"
  by (simp_all add: byte_and_7F byte_and_80_eq_0 unat_varint_digit)

lemma varint_digit_exhaust: "b = varint_digit (b AND 0x80 \<noteq> 0) (m * 128 + unat (b AND 0x7F))"
proof (rule word_unat_eq_iff [THEN iffD2])
  have split: "u = u mod 128 + (if u < 128 then 0 else 128)" if "u < 256" for u :: nat
    using that by (simp add: mod_if [of u])
  have "unat b = unat b mod 128 + (if unat b < 128 then 0 else 128)"
    by (rule split) simp
  also have "\<dots> = unat (varint_digit (b AND 0x80 \<noteq> 0) (m * 128 + unat (b AND 0x7F)))"
    by (simp add: unat_varint_digit byte_and_80_eq_0 byte_and_7F)
  finally show "unat b = unat (varint_digit (b AND 0x80 \<noteq> 0) (m * 128 + unat (b AND 0x7F)))" .
qed

definition varint_more :: "nat \<Rightarrow> bytes" where
  "varint_more n = varint_tmp 1 n"

lemma varint_more_unfold:
  "varint_more n =
     (if n \<le> 0x7F then [varint_digit True n]
      else varint_digit True n # varint_more (n div 128 - 1))"
  using varint_tmp_Suc [of 1] by (simp add: varint_tmp.simps [of _ n] varint_digit_def varint_more_def)

lemma WriteVarInt_unfold:
  "WriteVarInt n =
     (if n \<le> 0x7F then [varint_digit False n]
      else rev (varint_more (n div 128 - 1)) @ [varint_digit False n])"
  by (simp add: varint_tmp.simps [of _ n] varint_digit_def varint_more_def WriteVarInt_def)

text \<open>Reading back the digits that all carry the continuation bit.\<close>

lemma read_varint_more:
  "n < mx \<Longrightarrow> read_varint_from mx 0 (rev (varint_more n) @ r) = read_varint_from mx (n + 1) r"
proof (induction n arbitrary: r rule: less_induct)
  case (less n)
  show ?case
  proof (cases "n \<le> 0x7F")
    case True
    with less.prems show ?thesis
      by (simp add: varint_more_unfold [of n] varint_digit_bits)
  next
    case False
    define m where "m = n div 128 - 1"
    from False have m: "m < n" "m + 1 = n div 128" by (auto simp: m_def)
    have "read_varint_from mx 0 (rev (varint_more n) @ r)
            = read_varint_from mx (n div 128) (varint_digit True n # r)"
      using less.IH [OF m(1), of "varint_digit True n # r"] less.prems False m
      by (simp add: varint_more_unfold [of n] m_def [symmetric] del: One_nat_def)
    also have "\<dots> = read_varint_from mx (n + 1) r"
    proof -
      have "n div 128 \<le> mx div 128" using less.prems by (intro div_le_mono) simp
      moreover have "n div 128 * 128 + n mod 128 = n" by simp
      ultimately show ?thesis using less.prems
        by (simp add: varint_digit_bits)
    qed
    finally show ?thesis .
  qed
qed

lemma ReadVarInt_Write:
  assumes "n \<le> mx"
  shows "ReadVarInt mx (WriteVarInt n @ r) = Inr (n, r)"
proof (cases "n \<le> 0x7F")
  case True
  then show ?thesis
    by (simp add: ReadVarInt_def WriteVarInt_unfold [of n] varint_digit_bits)
next
  case False
  define m where "m = n div 128 - 1"
  from False assms have m: "m < mx" "m + 1 = n div 128" by (auto simp: m_def)
  have "n div 128 \<le> mx div 128" using assms by (rule div_le_mono)
  then show ?thesis
    using False read_varint_more [OF m(1), of "varint_digit False n # r"] m(2)
    by (simp add: ReadVarInt_def WriteVarInt_unfold [of n]
        varint_digit_bits m_def [symmetric] del: One_nat_def)
qed

text \<open>
  The other direction: the bytes read so far, when the accumulator is \<open>n\<close>, are the digits of
  \<open>n - 1\<close>, all with the continuation bit.
\<close>

definition varint_prefix :: "nat \<Rightarrow> bytes" where
  "varint_prefix n = (if n = 0 then [] else rev (varint_more (n - 1)))"

lemma varint_prefix_step:
  assumes "b AND 0x80 \<noteq> 0"
  shows "varint_prefix (n * 128 + unat (b AND 0x7F) + 1) = varint_prefix n @ [b]"
proof -
  define k where "k = n * 128 + unat (b AND 0x7F)"
  have k: "k div 128 = n" "k \<le> 0x7F \<longleftrightarrow> n = 0" by (auto simp: k_def byte_and_7F)
  have "b = varint_digit True k" using varint_digit_exhaust [of b n] assms by (simp add: k_def)
  with k show ?thesis
    unfolding k_def [symmetric] by (simp add: varint_prefix_def varint_more_unfold [of k])
qed

lemma varint_last_step:
  assumes "b AND 0x80 = 0"
  shows "WriteVarInt (n * 128 + unat (b AND 0x7F)) = varint_prefix n @ [b]"
proof -
  define k where "k = n * 128 + unat (b AND 0x7F)"
  have k: "k div 128 = n" "k \<le> 0x7F \<longleftrightarrow> n = 0" by (auto simp: k_def byte_and_7F)
  have "b = varint_digit False k" using varint_digit_exhaust [of b n] assms by (simp add: k_def)
  with k show ?thesis
    unfolding k_def [symmetric] by (simp add: varint_prefix_def WriteVarInt_unfold [of k])
qed

lemma read_varint_inv:
  "read_varint_from mx n s = Inr (v, r) \<Longrightarrow> varint_prefix n @ s = WriteVarInt v @ r"
proof (induction mx n s rule: read_varint_from.induct)
  case (1 mx n)
  then show ?case by simp
next
  case (2 mx n b s)
  show ?case
  proof (cases "b AND 0x80 = 0")
    case True
    with "2.prems" varint_last_step [OF True, of n] show ?thesis
      by (simp add: Let_def split: if_splits)
  next
    case False
    from "2.prems" False
    have "varint_prefix (n * 128 + unat (b AND 0x7F) + 1) @ s = WriteVarInt v @ r"
      by (intro "2.IH" [OF _ refl]) (auto simp: Let_def split: if_splits)
    with varint_prefix_step [OF False, of n] show ?thesis by simp
  qed
qed

lemma read_varint_bound:
  "read_varint_from mx n s = Inr (v, r) \<Longrightarrow> 127 \<le> mx mod 128 \<Longrightarrow> v \<le> mx"
proof (induction mx n s rule: read_varint_from.induct)
  case (1 mx n)
  then show ?case by simp
next
  case (2 mx n b s)
  have b: "unat (b AND 0x7F) \<le> 127" by (simp add: byte_and_7F)
  have bd: "n \<le> mx div 128 \<Longrightarrow> n * 128 + unat (b AND 0x7F) \<le> mx"
    using b "2.prems"(2) by (smt (verit, ccfv_threshold) add_mono div_mult_mod_eq mult_le_mono1 order_trans)
  show ?case
  proof (cases "b AND 0x80 = 0")
    case True
    with "2.prems" bd show ?thesis by (auto simp: Let_def split: if_splits)
  next
    case False
    with "2.prems" show ?thesis
      by (intro "2.IH" [OF _ refl]) (auto simp: Let_def split: if_splits)
  qed
qed

definition UINT32_MAX :: nat where
  "UINT32_MAX = 0xFFFFFFFF"

definition UINT64_MAX :: nat where
  "UINT64_MAX = 0xFFFFFFFFFFFFFFFF"

lemma varint_codec:
  "127 \<le> mx mod 128 \<Longrightarrow> canonical_codec WriteVarInt (ReadVarInt mx) (\<lambda>n. n \<le> mx)"
  using ReadVarInt_Write read_varint_inv [of mx 0] read_varint_bound [of mx 0]
  by unfold_locales (auto simp: ReadVarInt_def varint_prefix_def)

interpretation var_int32: canonical_codec WriteVarInt "ReadVarInt UINT32_MAX" "\<lambda>n. n \<le> UINT32_MAX"
  by (rule varint_codec) (simp add: UINT32_MAX_def)

interpretation var_int64: canonical_codec WriteVarInt "ReadVarInt UINT64_MAX" "\<lambda>n. n \<le> UINT64_MAX"
  by (rule varint_codec) (simp add: UINT64_MAX_def)

section \<open>Byte blobs and vectors\<close>

text \<open>
  \<open>prevector<N, unsigned char>\<close> and \<open>std::vector<unsigned char>\<close> are written as their length and
  the raw bytes.
\<close>

definition ser_blob :: "bytes \<Rightarrow> bytes" where
  "ser_blob v = WriteCompactSize (length v) @ v"

definition unser_blob :: "bytes reader" where
  "unser_blob s =
     (case ReadCompactSize True s of
        Inl e \<Rightarrow> Inl e
      | Inr (n, s1) \<Rightarrow> stream_read n s1)"

lemma compact_ok_MAX_SIZE [simp]: "compact_ok True n \<longleftrightarrow> n \<le> MAX_SIZE"
  by (auto simp: compact_ok_def MAX_SIZE_def)

interpretation blob: canonical_codec ser_blob unser_blob "\<lambda>v. length v \<le> MAX_SIZE"
proof
  fix v r :: bytes
  assume "length v \<le> MAX_SIZE"
  then show "unser_blob (ser_blob v @ r) = Inr (v, r)"
    by (simp add: unser_blob_def ser_blob_def compact_size.unser_ser stream_read_append)
next
  fix s v r
  assume "unser_blob s = Inr (v, r)"
  then obtain n s1 where "ReadCompactSize True s = Inr (n, s1)" and "stream_read n s1 = Inr (v, r)"
    by (auto simp: unser_blob_def split: sum.splits)
  with compact_size.ser_unser [of True s n s1] show "s = ser_blob v @ r \<and> length v \<le> MAX_SIZE"
    by (auto simp: ser_blob_def stream_read_Inr)
qed

text \<open>\<open>VectorFormatter\<close>: the number of elements, then the elements with the element formatter.\<close>

definition ser_vector :: "('a \<Rightarrow> bytes) \<Rightarrow> 'a list \<Rightarrow> bytes" where
  "ser_vector ser v = WriteCompactSize (length v) @ concat (map ser v)"

definition unser_vector :: "'a reader \<Rightarrow> 'a list reader" where
  "unser_vector unser s =
     (case ReadCompactSize True s of
        Inl e \<Rightarrow> Inl e
      | Inr (n, s1) \<Rightarrow> read_n unser n s1)"

context codec
begin

lemma vector_codec:
  "codec (ser_vector ser) (unser_vector unser) (\<lambda>v. length v \<le> MAX_SIZE \<and> list_all wf v)"
  by unfold_locales
    (auto simp: ser_vector_def unser_vector_def compact_size.unser_ser read_n_concat)

end

context canonical_codec
begin

lemma vector_canonical_codec:
  "canonical_codec (ser_vector ser) (unser_vector unser) (\<lambda>v. length v \<le> MAX_SIZE \<and> list_all wf v)"
proof (intro canonical_codec.intro [OF vector_codec] canonical_codec_axioms.intro)
  fix s v r
  assume "unser_vector unser s = Inr (v, r)"
  then obtain n s1 where n: "ReadCompactSize True s = Inr (n, s1)" and v: "read_n unser n s1 = Inr (v, r)"
    by (auto simp: unser_vector_def split: sum.splits)
  from compact_size.ser_unser [OF n] read_n_inv [OF v]
  show "s = ser_vector ser v @ r \<and> length v \<le> MAX_SIZE \<and> list_all wf v"
    by (auto simp: ser_vector_def)
qed

end

section \<open>Properties\<close>

text \<open>
  \<open>CompactSize\<close> is a canonical encoding. The reader accepts a byte string and returns \<open>n\<close> exactly
when the string starts with the bytes the writer produces for \<open>n\<close> (so no number has a second
encoding), \<open>n\<close> fits in 64 bits and, with the range check, does not exceed \<open>MAX_SIZE\<close>; the writer
produces as many bytes as \<open>GetSizeOfCompactSize\<close> predicts.
\<close>

lemma ReadCompactSize_canonical:
  "(ReadCompactSize rc s = Inr (n, r) \<longleftrightarrow> compact_ok rc n \<and> s = WriteCompactSize n @ r)
   \<and> length (WriteCompactSize n) = GetSizeOfCompactSize n"
  by (intro conjI compact_size.unser_iff length_WriteCompactSize)

text \<open>
  \<open>VarInt\<close> is a bijective encoding. For 32-bit and for 64-bit targets the reader returns \<open>n\<close> exactly
when \<open>n\<close> fits the target and the string starts with the digits that the writer produces for \<open>n\<close>.
\<close>

lemma ReadVarInt_canonical:
  "(ReadVarInt UINT32_MAX s = Inr (n, r) \<longleftrightarrow> n \<le> UINT32_MAX \<and> s = WriteVarInt n @ r)
   \<and> (ReadVarInt UINT64_MAX s = Inr (n, r) \<longleftrightarrow> n \<le> UINT64_MAX \<and> s = WriteVarInt n @ r)"
  by (intro conjI var_int32.unser_iff var_int64.unser_iff)

end
