(* ===== verification/ScriptNum.thy ===== *)
theory ScriptNum
  imports Prelude
begin

unbundle bit_operations_syntax

text \<open>
  \<open>CScriptNum\<close> (\<open>script/script.h\<close>, \<open>script/script.cpp\<close>): the little-endian sign-magnitude numbers of
  the script language. A number is modelled as an \<open>int\<close>. Operands are at most four bytes
  long (five for the two lock-time operators), so no operation on decoded operands leaves the
  range of the \<open>int64_t\<close> that the class stores; \<open>set_vch_bound\<close> is the bound this rests on.
\<close>

section \<open>Model\<close>

datatype scriptnum_error = ScriptNumOverflow | NonMinimalScriptNum

definition nDefaultMaxNumSize :: nat where
  "nDefaultMaxNumSize = 4"

text \<open>The loop of \<open>serialize\<close> that splits the absolute value into bytes.\<close>

function abs_bytes :: "nat \<Rightarrow> bytes" where
  "abs_bytes absvalue =
     (if absvalue = 0 then [] else of_nat (absvalue mod 256) # abs_bytes (absvalue div 256))"
  by pat_completeness auto
termination by (relation "measure id") auto

declare abs_bytes.simps [simp del]

definition serialize_num :: "int \<Rightarrow> bytes" where
  "serialize_num value =
     (if value = 0 then []
      else let neg = (value < 0); result = abs_bytes (nat \<bar>value\<bar>)
           in if last result AND 0x80 \<noteq> 0 then result @ [if neg then 0x80 else 0]
              else if neg then butlast result @ [last result OR 0x80]
              else result)"

definition set_vch :: "bytes \<Rightarrow> int" where
  "set_vch vch =
     (if vch = [] then 0
      else let result = int (le_val vch)
           in if last vch AND 0x80 \<noteq> 0
              then - (result AND NOT (push_bit (8 * (length vch - 1)) 0x80))
              else result)"

definition IsMinimallyEncoded :: "bytes \<Rightarrow> nat \<Rightarrow> bool" where
  "IsMinimallyEncoded vch nMaxNumSize =
     (if length vch > nMaxNumSize then False
      else if length vch > 0 \<and> last vch AND 0x7F = 0
              \<and> (length vch \<le> 1 \<or> vch ! (length vch - 2) AND 0x80 = 0) then False
      else True)"

text \<open>
  The trimming loop of \<open>MinimallyEncode\<close>, with \<open>i\<close> running down from \<open>data.size() - 1\<close> to 1.
\<close>

fun minimally_encode_loop :: "bytes \<Rightarrow> byte \<Rightarrow> nat \<Rightarrow> bytes" where
  "minimally_encode_loop data lst 0 = []"
| "minimally_encode_loop data lst (Suc j) =
     (if data ! j \<noteq> 0 then
        if data ! j AND 0x80 \<noteq> 0 then take (Suc j + 1) (data[Suc j := lst])
        else take (Suc j) (data[j := data ! j OR lst])
      else minimally_encode_loop data lst j)"

definition MinimallyEncode :: "bytes \<Rightarrow> bytes \<times> bool" where
  "MinimallyEncode data =
     (if length data = 0 then (data, False)
      else let lst = last data
           in if lst AND 0x7F \<noteq> 0 then (data, False)
              else if length data = 1 then ([], True)
              else if data ! (length data - 2) AND 0x80 \<noteq> 0 then (data, False)
              else (minimally_encode_loop data lst (length data - 1), True))"

text \<open>The constructor from a stack element; \<open>Inl\<close> is the \<open>scriptnum_error\<close> it throws.\<close>

definition CScriptNum :: "bytes \<Rightarrow> bool \<Rightarrow> nat \<Rightarrow> scriptnum_error + int" where
  "CScriptNum vch fRequireMinimal nMaxNumSize =
     (if length vch > nMaxNumSize then Inl ScriptNumOverflow
      else if fRequireMinimal \<and> \<not> IsMinimallyEncoded vch nMaxNumSize then Inl NonMinimalScriptNum
      else Inr (set_vch vch))"

definition getint :: "int \<Rightarrow> int" where
  "getint m_value =
     (if m_value > 2 ^ 31 - 1 then 2 ^ 31 - 1
      else if m_value < - (2 ^ 31) then - (2 ^ 31)
      else m_value)"

section \<open>The bytes of the absolute value\<close>

lemma abs_bytes_0 [simp]: "abs_bytes 0 = []"
  by (simp add: abs_bytes.simps)

lemma abs_bytes_pos: "0 < n \<Longrightarrow> abs_bytes n = of_nat (n mod 256) # abs_bytes (n div 256)"
  by (subst abs_bytes.simps) simp

lemma abs_bytes_eq_Nil [simp]: "abs_bytes n = [] \<longleftrightarrow> n = 0"
  by (cases "n = 0") (auto simp: abs_bytes_pos)

lemma le_val_abs_bytes [simp]: "le_val (abs_bytes n) = n"
proof (induction n rule: abs_bytes.induct)
  case (1 n)
  then show ?case by (cases "n = 0") (auto simp: abs_bytes_pos)
qed

lemma last_abs_bytes: "0 < n \<Longrightarrow> last (abs_bytes n) \<noteq> 0"
proof (induction n rule: abs_bytes.induct)
  case (1 n)
  show ?case
  proof (cases "n div 256 = 0")
    case True
    then have "n < 256" by (simp add: div_eq_0_iff)
    with "1.prems" have "unat (of_nat n :: byte) \<noteq> 0" by simp
    then have "(of_nat n :: byte) \<noteq> 0" by force
    with True "1.prems" \<open>n < 256\<close> show ?thesis by (simp add: abs_bytes_pos)
  next
    case False
    with 1 show ?thesis by (simp add: abs_bytes_pos)
  qed
qed

lemma le_val_eq_0: "le_val xs = 0 \<longleftrightarrow> (\<forall>x \<in> set xs. x = 0)"
  by (induction xs) (auto simp: unat_eq_0)

lemma abs_bytes_le_val:
  "xs = [] \<or> last xs \<noteq> 0 \<Longrightarrow> abs_bytes (le_val xs) = xs"
proof (induction xs)
  case Nil
  then show ?case by simp
next
  case (Cons x xs)
  then have IH: "abs_bytes (le_val xs) = xs" by (auto split: if_splits)
  have "0 < le_val (x # xs)"
    using Cons.prems last_in_set [of "x # xs"] le_val_eq_0 [of "x # xs"] by auto
  then show ?case using IH by (simp add: abs_bytes_pos)
qed

section \<open>Decoding in terms of magnitude and sign\<close>

lemma int_clear_bit:
  assumes "bit (a :: int) n"
  shows "a AND NOT (push_bit n 1) = a - 2 ^ n"
proof -
  have m: "a AND push_bit n 1 = push_bit n 1"
    using assms by (intro bit_eqI) (auto simp: bit_simps)
  have "(a AND NOT (push_bit n 1)) + (a AND push_bit n 1)
      = (a AND NOT (push_bit n 1)) OR (a AND push_bit n 1)"
    by (rule disjunctive_add_eq_or) (auto simp: bit_eq_iff bit_simps)
  also have "\<dots> = a"
    by (auto simp: bit_eq_iff bit_simps)
  finally have "(a AND NOT (push_bit n 1)) + push_bit n 1 = a" by (simp only: m)
  then show ?thesis by (simp add: push_bit_eq_mult algebra_simps)
qed

lemma le_val_snoc: "le_val (xs @ [l]) = le_val xs + 256 ^ length xs * unat l"
  by (simp add: le_val_append)

lemma set_vch_snoc:
  "set_vch (xs @ [l]) =
     (if unat l < 128 then int (le_val xs + 256 ^ length xs * unat l)
      else - int (le_val xs + 256 ^ length xs * (unat l - 128)))"
proof (cases "unat l < 128")
  case True
  then show ?thesis by (simp add: set_vch_def byte_and_80 le_val_snoc)
next
  case False
  define n where "n = 8 * length xs + 7"
  define a where "a = int (le_val (xs @ [l]))"
  have sh: "push_bit (8 * length xs) (0x80 :: int) = push_bit n 1"
    by (simp add: n_def push_bit_eq_mult power_add power_mult)
  have pw: "(256 :: nat) ^ length xs = 2 ^ (8 * length xs)" by (simp add: power_mult)
  have "le_val (xs @ [l]) div 2 ^ n = 1"
  proof -
    have "le_val (xs @ [l]) div 256 ^ length xs = unat l"
      using le_val_bound [of xs] by (simp add: le_val_snoc)
    then have "le_val (xs @ [l]) div 2 ^ n = unat l div 2 ^ 7"
      by (simp add: n_def power_add pw div_mult2_eq)
    moreover have "unat l div 2 ^ 7 = 1"
      using False unat_byte_lt [of l] by (intro div_nat_eqI) simp_all
    ultimately show ?thesis by simp
  qed
  then have "bit (le_val (xs @ [l])) n" by (simp only: bit_iff_odd) simp
  then have "bit a n" by (simp add: a_def bit_of_nat_iff_bit)
  then have "a AND NOT (push_bit n 1) = a - 2 ^ n" by (rule int_clear_bit)
  moreover have "a - 2 ^ n = int (le_val xs + 256 ^ length xs * (unat l - 128))"
  proof -
    obtain k where k: "unat l = 128 + k" using False by (metis le_Suc_ex not_less)
    have "le_val (xs @ [l]) = (le_val xs + 256 ^ length xs * (unat l - 128)) + 2 ^ n"
      by (simp add: k le_val_snoc n_def power_add pw algebra_simps)
    then show ?thesis by (simp add: a_def)
  qed
  ultimately show ?thesis
    using False by (simp add: set_vch_def byte_and_80 sh a_def [symmetric])
qed

lemma set_vch_Nil [simp]: "set_vch [] = 0"
  by (simp add: set_vch_def)

section \<open>Round trips and minimality\<close>

lemma serialize_num_0 [simp]: "serialize_num 0 = []"
  by (simp add: serialize_num_def)

lemma serialize_num_nonzero:
  assumes "abs_bytes n = xs @ [l]" "0 < n"
  shows "serialize_num (int n) = (if 128 \<le> unat l then xs @ [l, 0] else xs @ [l])"
    and "serialize_num (- int n) = (if 128 \<le> unat l then xs @ [l, 0x80] else xs @ [l OR 0x80])"
  using assms by (simp_all add: serialize_num_def byte_and_80 not_less)

lemma set_vch_serialize_num: "set_vch (serialize_num v) = v"
proof (cases "v = 0")
  case False
  define n where "n = nat \<bar>v\<bar>"
  have n: "0 < n" using False by (simp add: n_def)
  then obtain xs l where xl: "abs_bytes n = xs @ [l]" by (metis abs_bytes_eq_Nil less_not_refl rev_exhaust)
  have val: "le_val xs + 256 ^ length xs * unat l = n"
    using le_val_abs_bytes [of n] by (simp add: xl le_val_snoc)
  note sn = serialize_num_nonzero [OF xl n]
  have pos: "set_vch (serialize_num (int n)) = int n"
    using set_vch_snoc [of "xs @ [l]" 0] val
    by (auto simp: sn set_vch_snoc le_val_snoc)
  have neg: "set_vch (serialize_num (- int n)) = - int n"
    using set_vch_snoc [of "xs @ [l]" "0x80"] val
    by (auto simp: sn set_vch_snoc le_val_snoc byte_or_80)
  show ?thesis
  proof (cases "v < 0")
    case True
    then have "v = - int n" by (simp add: n_def)
    with neg show ?thesis by simp
  next
    case False
    then have "v = int n" by (simp add: n_def)
    with pos show ?thesis by simp
  qed
qed simp

lemma byte_and_7F_eq_0: "(b AND 0x7F = (0 :: byte)) \<longleftrightarrow> unat b mod 128 = 0"
  using byte_and_7F [of b] unat_eq_0 [of "b AND 0x7F"] by simp

lemma byte_mod_128_eq_0: "unat (b :: byte) mod 128 = 0 \<longleftrightarrow> b = 0 \<or> b = 0x80"
proof
  assume "unat b mod 128 = 0"
  then obtain q where "unat b = 128 * q" by (auto simp: mod_eq_0_iff_dvd dvd_def)
  moreover from this have "q = 0 \<or> q = 1" using unat_byte_lt [of b] by auto
  ultimately have "unat b = unat (0 :: byte) \<or> unat b = unat (0x80 :: byte)" by auto
  then show "b = 0 \<or> b = 0x80" by (simp only: word_unat_eq_iff)
qed auto

definition minimal_snoc :: "bytes \<Rightarrow> byte \<Rightarrow> bool" where
  "minimal_snoc xs l \<longleftrightarrow> unat l mod 128 \<noteq> 0 \<or> (xs \<noteq> [] \<and> 128 \<le> unat (last xs))"

lemma IsMinimallyEncoded_snoc:
  "IsMinimallyEncoded (xs @ [l]) n \<longleftrightarrow> length xs < n \<and> minimal_snoc xs l"
  by (cases xs rule: rev_cases)
    (auto simp: IsMinimallyEncoded_def minimal_snoc_def byte_and_7F_eq_0 byte_and_80_eq_0 nth_append)

lemma byte_or_80_mod: "unat b < 128 \<Longrightarrow> unat b \<noteq> 0 \<Longrightarrow> unat (b OR 0x80 :: byte) mod 128 \<noteq> 0"
  by (simp add: byte_or_80)

lemma le_val_pos: "xs \<noteq> [] \<Longrightarrow> last xs \<noteq> 0 \<Longrightarrow> 0 < le_val xs"
  using last_in_set [of xs] le_val_eq_0 [of xs] by auto

lemma serialize_num_le_val:
  assumes "last (xs @ [l]) \<noteq> 0"
  shows "serialize_num (int (le_val (xs @ [l]))) =
      (if 128 \<le> unat l then xs @ [l, 0] else xs @ [l])"
    and "serialize_num (- int (le_val (xs @ [l]))) =
      (if 128 \<le> unat l then xs @ [l, 0x80] else xs @ [l OR 0x80])"
  using serialize_num_nonzero [of "le_val (xs @ [l])" xs l] assms
    abs_bytes_le_val [of "xs @ [l]"] le_val_pos [of "xs @ [l]"] by simp_all

lemma serialize_num_minimal:
  assumes "minimal_snoc xs l"
  shows "serialize_num (set_vch (xs @ [l])) = xs @ [l]"
proof (cases "unat l mod 128 = 0")
  case True
  with assms obtain ws m where xs: "xs = ws @ [m]" and m: "128 \<le> unat m"
    by (cases xs rule: rev_cases) (auto simp: minimal_snoc_def)
  from m have "m \<noteq> 0" by auto
  moreover have "l = 0 \<or> l = 0x80" using True by (simp add: byte_mod_128_eq_0)
  ultimately show ?thesis
    using serialize_num_le_val [of ws m] set_vch_snoc [of "ws @ [m]" l] m by (auto simp: xs)
next
  case nz: False
  show ?thesis
  proof (cases "unat l < 128")
    case True
    have "l \<noteq> 0" using nz by auto
    with True show ?thesis
      using serialize_num_le_val(1) [of xs l] set_vch_snoc [of xs l] by (simp add: le_val_snoc)
  next
    case False
    define k :: byte where "k = of_nat (unat l - 128)"
    have "unat l - 128 < 256" using unat_byte_lt [of l] by linarith
    then have uk: "unat k = unat l - 128" by (simp add: k_def)
    have "unat l \<noteq> 128" using nz by auto
    with uk False have "unat k \<noteq> 0" by simp
    then have "k \<noteq> 0" by auto
    have k: "unat k < 128" using uk unat_byte_lt [of l] by linarith
    have "k OR 0x80 = l"
      using byte_or_80 [OF k] uk False by (simp add: word_unat_eq_iff)
    then show ?thesis
      using serialize_num_le_val(2) [of xs k] set_vch_snoc [of xs l] \<open>k \<noteq> 0\<close> k uk False
      by (simp add: le_val_snoc)
  qed
qed

lemma IsMinimallyEncoded_Nil [simp]: "IsMinimallyEncoded [] n"
  by (simp add: IsMinimallyEncoded_def)

lemma serialize_num_snoc_minimal:
  assumes "serialize_num v = xs @ [l]"
  shows "minimal_snoc xs l"
proof -
  define n where "n = nat \<bar>v\<bar>"
  have n: "0 < n" using assms by (auto simp: n_def)
  then obtain ws m where wm: "abs_bytes n = ws @ [m]"
    by (metis abs_bytes_eq_Nil less_not_refl rev_exhaust)
  have m: "unat m \<noteq> 0" using last_abs_bytes [OF n] by (simp add: wm unat_eq_0)
  have "v = int n \<or> v = - int n" by (auto simp: n_def)
  then show ?thesis
    using assms m serialize_num_nonzero [OF wm n] byte_or_80_mod [of m]
    by (auto simp: minimal_snoc_def mod_eq_0_iff_dvd split: if_splits dest: dvd_imp_le)
qed

lemma minimal_iff:
  "IsMinimallyEncoded vch n \<longleftrightarrow> length vch \<le> n \<and> serialize_num (set_vch vch) = vch"
proof (cases vch rule: rev_cases)
  case (snoc xs l)
  show ?thesis
    using serialize_num_minimal [of xs l] serialize_num_snoc_minimal [of "set_vch vch" xs l]
    by (auto simp: snoc IsMinimallyEncoded_snoc)
qed simp

section \<open>\<open>MinimallyEncode\<close>\<close>

lemma minimally_encode_loop_eq:
  assumes "j \<le> length xs" "l = 0 \<or> l = 0x80"
  shows "minimally_encode_loop (xs @ [l]) l j = serialize_num (set_vch (take j xs @ [l]))"
  using assms(1)
proof (induction j)
  case 0
  have "set_vch [l] = 0" using assms(2) set_vch_snoc [of "[]" l] by auto
  then show ?case by simp
next
  case (Suc j)
  then have j: "j < length xs" by simp
  define x where "x = xs ! j"
  have tk: "take (Suc j) xs = take j xs @ [x]" by (simp add: take_Suc_conv_app_nth j x_def)
  have nth: "(xs @ [l]) ! j = x" by (simp add: nth_append j x_def)
  consider "x = 0" | "128 \<le> unat x" | "x \<noteq> 0" "unat x < 128" by linarith
  then show ?case
  proof cases
    case 1
    have "set_vch (take j xs @ [x] @ [l]) = set_vch (take j xs @ [l])"
      using set_vch_snoc [of "take j xs @ [x]" l] set_vch_snoc [of "take j xs" l] assms(2) 1
      by (auto simp: le_val_snoc)
    with Suc j 1 show ?thesis by (simp add: tk nth)
  next
    case 2
    then have "x \<noteq> 0" by auto
    have "take (Suc (Suc j)) ((xs @ [l])[Suc j := l]) = take j xs @ [x, l]"
      using j by (simp add: take_Suc_conv_app_nth take_update_cancel nth_append x_def)
    moreover have "minimal_snoc (take j xs @ [x]) l" using 2 by (simp add: minimal_snoc_def)
    ultimately show ?thesis
      using 2 \<open>x \<noteq> 0\<close> serialize_num_minimal [of "take j xs @ [x]" l]
      by (simp add: tk nth byte_and_80)
  next
    case 3
    then have x0: "unat x \<noteq> 0" by (simp add: unat_eq_0)
    have "take (Suc j) ((xs @ [l])[j := x OR l]) = take j xs @ [x OR l]"
      using j by (simp add: take_Suc_conv_app_nth)
    moreover have "minimal_snoc (take j xs) (x OR l)"
      using 3 x0 assms(2) byte_or_80_mod [of x] by (auto simp: minimal_snoc_def)
    moreover have "set_vch (take j xs @ [x OR l]) = set_vch (take j xs @ [x, l])"
      using set_vch_snoc [of "take j xs @ [x]" l] set_vch_snoc [of "take j xs" "x OR l"]
        byte_or_80 [of x] 3 assms(2)
      by (auto simp: le_val_snoc simp del: of_nat_add of_nat_mult of_nat_diff)
    ultimately show ?thesis
      using 3 serialize_num_minimal [of "take j xs" "x OR l"]
      by (simp add: tk nth byte_and_80)
  qed
qed

lemma MinimallyEncode_snoc:
  "MinimallyEncode (xs @ [l]) =
     (if minimal_snoc xs l then (xs @ [l], False)
      else (minimally_encode_loop (xs @ [l]) l (length xs), True))"
  by (cases xs rule: rev_cases)
    (auto simp: MinimallyEncode_def minimal_snoc_def byte_and_7F_eq_0 byte_and_80_eq_0 nth_append)

lemma MinimallyEncode_eq: "fst (MinimallyEncode data) = serialize_num (set_vch data)"
proof (cases data rule: rev_cases)
  case (snoc xs l)
  show ?thesis
    using serialize_num_minimal [of xs l] minimally_encode_loop_eq [of "length xs" xs l]
    by (auto simp: snoc MinimallyEncode_snoc minimal_snoc_def byte_mod_128_eq_0)
qed (simp add: MinimallyEncode_def)

lemma MinimallyEncode_changed:
  "snd (MinimallyEncode data) \<longleftrightarrow> fst (MinimallyEncode data) \<noteq> data"
proof (cases data rule: rev_cases)
  case (snoc xs l)
  have "\<not> minimal_snoc xs l \<Longrightarrow> serialize_num (set_vch data) \<noteq> data"
    using serialize_num_snoc_minimal [of "set_vch data" xs l] snoc by auto
  then show ?thesis
    using MinimallyEncode_eq [of data] by (auto simp: snoc MinimallyEncode_snoc)
qed (simp add: MinimallyEncode_def)

section \<open>Bounds\<close>

lemma set_vch_bound:
  assumes "length vch \<le> Suc n"
  shows "\<bar>set_vch vch\<bar> < 128 * 256 ^ n"
proof (cases vch rule: rev_cases)
  case (snoc xs l)
  define c where "c = (if unat l < 128 then unat l else unat l - 128)"
  have c: "c + 1 \<le> 128" using unat_byte_lt [of l] unfolding c_def by (split if_split) linarith
  have "le_val xs + 256 ^ length xs * c < 256 ^ length xs * (c + 1)"
    using le_val_bound [of xs] by simp
  also have "\<dots> \<le> 256 ^ length xs * 128"
    using c by (intro mult_le_mono2)
  also have "\<dots> \<le> 256 ^ n * 128"
    using assms by (simp add: snoc power_increasing)
  finally have "int (le_val xs + 256 ^ length xs * c) < int (128 * 256 ^ n)"
    by (simp only: of_nat_less_iff mult.commute)
  moreover have "\<bar>set_vch vch\<bar> = int (le_val xs + 256 ^ length xs * c)"
    by (simp add: snoc set_vch_snoc c_def del: of_nat_add of_nat_mult of_nat_diff)
  ultimately show ?thesis by simp
qed simp

lemma length_abs_bytes: "n < 256 ^ k \<Longrightarrow> length (abs_bytes n) \<le> k"
proof (induction k arbitrary: n)
  case (Suc k)
  then have "n div 256 < 256 ^ k" by (simp add: less_mult_imp_div_less mult.commute)
  with Suc.IH show ?case by (cases "n = 0") (simp_all add: abs_bytes_pos)
qed simp

lemma length_serialize_num:
  assumes "\<bar>v\<bar> < 128 * 256 ^ n"
  shows "length (serialize_num v) \<le> Suc n"
proof (cases "v = 0")
  case False
  define m where "m = nat \<bar>v\<bar>"
  have m: "0 < m" "m < 128 * 256 ^ n"
    using False assms by (auto simp: m_def nat_less_iff)
  then obtain xs l where xl: "abs_bytes m = xs @ [l]"
    by (metis abs_bytes_eq_Nil less_not_refl rev_exhaust)
  have "m < 256 ^ Suc n" using m by simp
  then have len: "length xs \<le> n" using length_abs_bytes [of m "Suc n"] xl by simp
  have "unat l < 128" if "length xs = n"
  proof (rule ccontr)
    assume "\<not> unat l < 128"
    then have "256 ^ n * 128 \<le> 256 ^ length xs * unat l" using that by simp
    also have "\<dots> \<le> m" using le_val_abs_bytes [of m] by (simp add: xl le_val_snoc)
    finally show False using m by simp
  qed
  then have "length xs = n \<Longrightarrow> \<not> 128 \<le> unat l" by simp
  moreover have "v = int m \<or> v = - int m" by (auto simp: m_def)
  ultimately show ?thesis
    using serialize_num_nonzero [OF xl m(1)] len by (auto simp: Suc_le_eq le_less)
qed simp

section \<open>Properties\<close>

text \<open>
  Script numbers are canonical. Serializing any number and reading it back gives the number, and
a byte string passes \<open>IsMinimallyEncoded\<close> for a size limit exactly when it fits the limit and is
the serialization of the number it decodes to.
\<close>

lemma scriptnum_canonical:
  "set_vch (serialize_num v) = v
   \<and> (IsMinimallyEncoded vch n \<longleftrightarrow> length vch \<le> n \<and> serialize_num (set_vch vch) = vch)"
  by (intro conjI set_vch_serialize_num minimal_iff)

text \<open>
  The in-place trimming of \<open>MinimallyEncode\<close> computes the same bytes as decoding the number and
serializing it again, and its return value says exactly whether the bytes changed.
\<close>

lemma MinimallyEncode_correct:
  "fst (MinimallyEncode data) = serialize_num (set_vch data)
   \<and> (snd (MinimallyEncode data) \<longleftrightarrow> fst (MinimallyEncode data) \<noteq> data)"
  by (intro conjI MinimallyEncode_eq MinimallyEncode_changed)

end
