(* ===== verification/Script.thy ===== *)
theory Script
  imports Serialize ScriptNum
begin

unbundle bit_operations_syntax

text \<open>
  \<open>CScript\<close> (\<open>script/script.h\<close>, \<open>script/script.cpp\<close>): the opcodes, the instruction decoder
  \<open>GetScriptOp\<close>, the push operators that build scripts, signature-operation counting and the
  script templates. A script is its byte string; an iterator into it is the suffix it points to.
\<close>

section \<open>Opcodes and limits\<close>

type_synonym opcodetype = nat

abbreviation (input) OP_0 :: opcodetype where "OP_0 \<equiv> 0x00"
abbreviation (input) OP_FALSE :: opcodetype where "OP_FALSE \<equiv> OP_0"
abbreviation (input) OP_PUSHDATA1 :: opcodetype where "OP_PUSHDATA1 \<equiv> 0x4c"
abbreviation (input) OP_PUSHDATA2 :: opcodetype where "OP_PUSHDATA2 \<equiv> 0x4d"
abbreviation (input) OP_PUSHDATA4 :: opcodetype where "OP_PUSHDATA4 \<equiv> 0x4e"
abbreviation (input) OP_1NEGATE :: opcodetype where "OP_1NEGATE \<equiv> 0x4f"
abbreviation (input) OP_RESERVED :: opcodetype where "OP_RESERVED \<equiv> 0x50"
abbreviation (input) OP_1 :: opcodetype where "OP_1 \<equiv> 0x51"
abbreviation (input) OP_TRUE :: opcodetype where "OP_TRUE \<equiv> OP_1"
abbreviation (input) OP_2 :: opcodetype where "OP_2 \<equiv> 0x52"
abbreviation (input) OP_3 :: opcodetype where "OP_3 \<equiv> 0x53"
abbreviation (input) OP_4 :: opcodetype where "OP_4 \<equiv> 0x54"
abbreviation (input) OP_5 :: opcodetype where "OP_5 \<equiv> 0x55"
abbreviation (input) OP_6 :: opcodetype where "OP_6 \<equiv> 0x56"
abbreviation (input) OP_7 :: opcodetype where "OP_7 \<equiv> 0x57"
abbreviation (input) OP_8 :: opcodetype where "OP_8 \<equiv> 0x58"
abbreviation (input) OP_9 :: opcodetype where "OP_9 \<equiv> 0x59"
abbreviation (input) OP_10 :: opcodetype where "OP_10 \<equiv> 0x5a"
abbreviation (input) OP_11 :: opcodetype where "OP_11 \<equiv> 0x5b"
abbreviation (input) OP_12 :: opcodetype where "OP_12 \<equiv> 0x5c"
abbreviation (input) OP_13 :: opcodetype where "OP_13 \<equiv> 0x5d"
abbreviation (input) OP_14 :: opcodetype where "OP_14 \<equiv> 0x5e"
abbreviation (input) OP_15 :: opcodetype where "OP_15 \<equiv> 0x5f"
abbreviation (input) OP_16 :: opcodetype where "OP_16 \<equiv> 0x60"
abbreviation (input) OP_NOP :: opcodetype where "OP_NOP \<equiv> 0x61"
abbreviation (input) OP_VER :: opcodetype where "OP_VER \<equiv> 0x62"
abbreviation (input) OP_IF :: opcodetype where "OP_IF \<equiv> 0x63"
abbreviation (input) OP_NOTIF :: opcodetype where "OP_NOTIF \<equiv> 0x64"
abbreviation (input) OP_VERIF :: opcodetype where "OP_VERIF \<equiv> 0x65"
abbreviation (input) OP_VERNOTIF :: opcodetype where "OP_VERNOTIF \<equiv> 0x66"
abbreviation (input) OP_ELSE :: opcodetype where "OP_ELSE \<equiv> 0x67"
abbreviation (input) OP_ENDIF :: opcodetype where "OP_ENDIF \<equiv> 0x68"
abbreviation (input) OP_VERIFY :: opcodetype where "OP_VERIFY \<equiv> 0x69"
abbreviation (input) OP_RETURN :: opcodetype where "OP_RETURN \<equiv> 0x6a"
abbreviation (input) OP_TOALTSTACK :: opcodetype where "OP_TOALTSTACK \<equiv> 0x6b"
abbreviation (input) OP_FROMALTSTACK :: opcodetype where "OP_FROMALTSTACK \<equiv> 0x6c"
abbreviation (input) OP_2DROP :: opcodetype where "OP_2DROP \<equiv> 0x6d"
abbreviation (input) OP_2DUP :: opcodetype where "OP_2DUP \<equiv> 0x6e"
abbreviation (input) OP_3DUP :: opcodetype where "OP_3DUP \<equiv> 0x6f"
abbreviation (input) OP_2OVER :: opcodetype where "OP_2OVER \<equiv> 0x70"
abbreviation (input) OP_2ROT :: opcodetype where "OP_2ROT \<equiv> 0x71"
abbreviation (input) OP_2SWAP :: opcodetype where "OP_2SWAP \<equiv> 0x72"
abbreviation (input) OP_IFDUP :: opcodetype where "OP_IFDUP \<equiv> 0x73"
abbreviation (input) OP_DEPTH :: opcodetype where "OP_DEPTH \<equiv> 0x74"
abbreviation (input) OP_DROP :: opcodetype where "OP_DROP \<equiv> 0x75"
abbreviation (input) OP_DUP :: opcodetype where "OP_DUP \<equiv> 0x76"
abbreviation (input) OP_NIP :: opcodetype where "OP_NIP \<equiv> 0x77"
abbreviation (input) OP_OVER :: opcodetype where "OP_OVER \<equiv> 0x78"
abbreviation (input) OP_PICK :: opcodetype where "OP_PICK \<equiv> 0x79"
abbreviation (input) OP_ROLL :: opcodetype where "OP_ROLL \<equiv> 0x7a"
abbreviation (input) OP_ROT :: opcodetype where "OP_ROT \<equiv> 0x7b"
abbreviation (input) OP_SWAP :: opcodetype where "OP_SWAP \<equiv> 0x7c"
abbreviation (input) OP_TUCK :: opcodetype where "OP_TUCK \<equiv> 0x7d"
abbreviation (input) OP_CAT :: opcodetype where "OP_CAT \<equiv> 0x7e"
abbreviation (input) OP_SPLIT :: opcodetype where "OP_SPLIT \<equiv> 0x7f"
abbreviation (input) OP_SIZE :: opcodetype where "OP_SIZE \<equiv> 0x82"
abbreviation (input) OP_NUM2BIN :: opcodetype where "OP_NUM2BIN \<equiv> 0x80"
abbreviation (input) OP_BIN2NUM :: opcodetype where "OP_BIN2NUM \<equiv> 0x81"
abbreviation (input) OP_INVERT :: opcodetype where "OP_INVERT \<equiv> 0x83"
abbreviation (input) OP_AND :: opcodetype where "OP_AND \<equiv> 0x84"
abbreviation (input) OP_OR :: opcodetype where "OP_OR \<equiv> 0x85"
abbreviation (input) OP_XOR :: opcodetype where "OP_XOR \<equiv> 0x86"
abbreviation (input) OP_EQUAL :: opcodetype where "OP_EQUAL \<equiv> 0x87"
abbreviation (input) OP_EQUALVERIFY :: opcodetype where "OP_EQUALVERIFY \<equiv> 0x88"
abbreviation (input) OP_RESERVED1 :: opcodetype where "OP_RESERVED1 \<equiv> 0x89"
abbreviation (input) OP_RESERVED2 :: opcodetype where "OP_RESERVED2 \<equiv> 0x8a"
abbreviation (input) OP_1ADD :: opcodetype where "OP_1ADD \<equiv> 0x8b"
abbreviation (input) OP_1SUB :: opcodetype where "OP_1SUB \<equiv> 0x8c"
abbreviation (input) OP_2MUL :: opcodetype where "OP_2MUL \<equiv> 0x8d"
abbreviation (input) OP_2DIV :: opcodetype where "OP_2DIV \<equiv> 0x8e"
abbreviation (input) OP_NEGATE :: opcodetype where "OP_NEGATE \<equiv> 0x8f"
abbreviation (input) OP_ABS :: opcodetype where "OP_ABS \<equiv> 0x90"
abbreviation (input) OP_NOT :: opcodetype where "OP_NOT \<equiv> 0x91"
abbreviation (input) OP_0NOTEQUAL :: opcodetype where "OP_0NOTEQUAL \<equiv> 0x92"
abbreviation (input) OP_ADD :: opcodetype where "OP_ADD \<equiv> 0x93"
abbreviation (input) OP_SUB :: opcodetype where "OP_SUB \<equiv> 0x94"
abbreviation (input) OP_MUL :: opcodetype where "OP_MUL \<equiv> 0x95"
abbreviation (input) OP_DIV :: opcodetype where "OP_DIV \<equiv> 0x96"
abbreviation (input) OP_MOD :: opcodetype where "OP_MOD \<equiv> 0x97"
abbreviation (input) OP_LSHIFT :: opcodetype where "OP_LSHIFT \<equiv> 0x98"
abbreviation (input) OP_RSHIFT :: opcodetype where "OP_RSHIFT \<equiv> 0x99"
abbreviation (input) OP_BOOLAND :: opcodetype where "OP_BOOLAND \<equiv> 0x9a"
abbreviation (input) OP_BOOLOR :: opcodetype where "OP_BOOLOR \<equiv> 0x9b"
abbreviation (input) OP_NUMEQUAL :: opcodetype where "OP_NUMEQUAL \<equiv> 0x9c"
abbreviation (input) OP_NUMEQUALVERIFY :: opcodetype where "OP_NUMEQUALVERIFY \<equiv> 0x9d"
abbreviation (input) OP_NUMNOTEQUAL :: opcodetype where "OP_NUMNOTEQUAL \<equiv> 0x9e"
abbreviation (input) OP_LESSTHAN :: opcodetype where "OP_LESSTHAN \<equiv> 0x9f"
abbreviation (input) OP_GREATERTHAN :: opcodetype where "OP_GREATERTHAN \<equiv> 0xa0"
abbreviation (input) OP_LESSTHANOREQUAL :: opcodetype where "OP_LESSTHANOREQUAL \<equiv> 0xa1"
abbreviation (input) OP_GREATERTHANOREQUAL :: opcodetype where "OP_GREATERTHANOREQUAL \<equiv> 0xa2"
abbreviation (input) OP_MIN :: opcodetype where "OP_MIN \<equiv> 0xa3"
abbreviation (input) OP_MAX :: opcodetype where "OP_MAX \<equiv> 0xa4"
abbreviation (input) OP_WITHIN :: opcodetype where "OP_WITHIN \<equiv> 0xa5"
abbreviation (input) OP_RIPEMD160 :: opcodetype where "OP_RIPEMD160 \<equiv> 0xa6"
abbreviation (input) OP_SHA1 :: opcodetype where "OP_SHA1 \<equiv> 0xa7"
abbreviation (input) OP_SHA256 :: opcodetype where "OP_SHA256 \<equiv> 0xa8"
abbreviation (input) OP_HASH160 :: opcodetype where "OP_HASH160 \<equiv> 0xa9"
abbreviation (input) OP_HASH256 :: opcodetype where "OP_HASH256 \<equiv> 0xaa"
abbreviation (input) OP_CODESEPARATOR :: opcodetype where "OP_CODESEPARATOR \<equiv> 0xab"
abbreviation (input) OP_CHECKSIG :: opcodetype where "OP_CHECKSIG \<equiv> 0xac"
abbreviation (input) OP_CHECKSIGVERIFY :: opcodetype where "OP_CHECKSIGVERIFY \<equiv> 0xad"
abbreviation (input) OP_CHECKMULTISIG :: opcodetype where "OP_CHECKMULTISIG \<equiv> 0xae"
abbreviation (input) OP_CHECKMULTISIGVERIFY :: opcodetype where "OP_CHECKMULTISIGVERIFY \<equiv> 0xaf"
abbreviation (input) OP_NOP1 :: opcodetype where "OP_NOP1 \<equiv> 0xb0"
abbreviation (input) OP_CHECKLOCKTIMEVERIFY :: opcodetype where "OP_CHECKLOCKTIMEVERIFY \<equiv> 0xb1"
abbreviation (input) OP_NOP2 :: opcodetype where "OP_NOP2 \<equiv> OP_CHECKLOCKTIMEVERIFY"
abbreviation (input) OP_CHECKSEQUENCEVERIFY :: opcodetype where "OP_CHECKSEQUENCEVERIFY \<equiv> 0xb2"
abbreviation (input) OP_NOP3 :: opcodetype where "OP_NOP3 \<equiv> OP_CHECKSEQUENCEVERIFY"
abbreviation (input) OP_NOP4 :: opcodetype where "OP_NOP4 \<equiv> 0xb3"
abbreviation (input) OP_NOP5 :: opcodetype where "OP_NOP5 \<equiv> 0xb4"
abbreviation (input) OP_NOP6 :: opcodetype where "OP_NOP6 \<equiv> 0xb5"
abbreviation (input) OP_NOP7 :: opcodetype where "OP_NOP7 \<equiv> 0xb6"
abbreviation (input) OP_NOP8 :: opcodetype where "OP_NOP8 \<equiv> 0xb7"
abbreviation (input) OP_NOP9 :: opcodetype where "OP_NOP9 \<equiv> 0xb8"
abbreviation (input) OP_NOP10 :: opcodetype where "OP_NOP10 \<equiv> 0xb9"
abbreviation (input) OP_CHECKDATASIG :: opcodetype where "OP_CHECKDATASIG \<equiv> 0xba"
abbreviation (input) OP_CHECKDATASIGVERIFY :: opcodetype where "OP_CHECKDATASIGVERIFY \<equiv> 0xbb"
abbreviation (input) OP_INVALIDOPCODE :: opcodetype where "OP_INVALIDOPCODE \<equiv> 0xff"

definition MAX_SCRIPT_ELEMENT_SIZE :: nat where
  "MAX_SCRIPT_ELEMENT_SIZE = 520"

definition MAX_OPS_PER_SCRIPT :: nat where
  "MAX_OPS_PER_SCRIPT = 201"

definition MAX_PUBKEYS_PER_MULTISIG :: nat where
  "MAX_PUBKEYS_PER_MULTISIG = 20"

definition MAX_SCRIPT_SIZE :: nat where
  "MAX_SCRIPT_SIZE = 10000"

definition MAX_STACK_SIZE :: nat where
  "MAX_STACK_SIZE = 1000"

definition LOCKTIME_THRESHOLD :: nat where
  "LOCKTIME_THRESHOLD = 500000000"

lemmas script_limits =
  MAX_SCRIPT_ELEMENT_SIZE_def MAX_OPS_PER_SCRIPT_def MAX_PUBKEYS_PER_MULTISIG_def
  MAX_SCRIPT_SIZE_def MAX_STACK_SIZE_def

section \<open>Model\<close>

text \<open>
  The decoder returns the opcode, the immediate operand and the rest of the script. The length
  field of the three \<open>PUSHDATA\<close> forms is read by \<open>push_operand k\<close>, \<open>k\<close> its width in bytes.
\<close>

definition push_operand :: "nat \<Rightarrow> bytes \<Rightarrow> (bytes \<times> bytes) option" where
  "push_operand k pc =
     (if length pc < k then None
      else let nSize = le_val (take k pc); pc1 = drop k pc
           in if length pc1 < nSize then None else Some (take nSize pc1, drop nSize pc1))"

fun GetScriptOp :: "bytes \<Rightarrow> (opcodetype \<times> bytes \<times> bytes) option" where
  "GetScriptOp [] = None"
| "GetScriptOp (b # pc) =
     (let opcode = unat b
      in if opcode \<le> OP_PUSHDATA4 then
           map_option (Pair opcode)
             (if opcode < OP_PUSHDATA1 then
                if length pc < opcode then None else Some (take opcode pc, drop opcode pc)
              else if opcode = OP_PUSHDATA1 then push_operand 1 pc
              else if opcode = OP_PUSHDATA2 then push_operand 2 pc
              else push_operand 4 pc)
         else Some (opcode, [], pc))"

text \<open>The \<open>operator<<\<close> family: each returns the bytes it appends.\<close>

definition push_opcode :: "opcodetype \<Rightarrow> bytes" where
  "push_opcode opcode = [of_nat opcode]"

definition push_vector :: "bytes \<Rightarrow> bytes" where
  "push_vector b =
     (if length b < OP_PUSHDATA1 then [of_nat (length b)]
      else if length b \<le> 0xff then [of_nat OP_PUSHDATA1, of_nat (length b)]
      else if length b \<le> 0xffff then of_nat OP_PUSHDATA2 # le_bytes 2 (length b)
      else of_nat OP_PUSHDATA4 # le_bytes 4 (length b)) @ b"

definition push_int64 :: "int \<Rightarrow> bytes" where
  "push_int64 n =
     (if n = -1 \<or> (n \<ge> 1 \<and> n \<le> 16) then [of_int (n + (int OP_1 - 1))]
      else if n = 0 then [of_nat OP_0]
      else push_vector (serialize_num n))"

definition DecodeOP_N :: "opcodetype \<Rightarrow> nat" where
  "DecodeOP_N opcode = (if opcode = OP_0 then 0 else opcode - (OP_1 - 1))"

definition EncodeOP_N :: "nat \<Rightarrow> opcodetype" where
  "EncodeOP_N n = (if n = 0 then OP_0 else OP_1 + n - 1)"

lemma push_operand_shape:
  "push_operand k pc = Some (v, r) \<longleftrightarrow>
     (\<exists>h. pc = h @ v @ r \<and> length h = k \<and> le_val h = length v)"
  (is "?L = ?R")
proof
  assume L: ?L
  then have "k \<le> length pc" "le_val (take k pc) \<le> length (drop k pc)"
    by (auto simp: push_operand_def Let_def split: if_splits)
  moreover from this L have "drop k pc = v @ r" "length v = le_val (take k pc)"
    by (auto simp: push_operand_def Let_def simp del: drop_drop)
  ultimately show ?R
    using append_take_drop_id [of k pc] by (intro exI [of _ "take k pc"]) simp
qed (auto simp: push_operand_def)

lemma GetScriptOp_rest:
  "GetScriptOp s = Some (opcode, v, r) \<Longrightarrow> \<exists>b h. s = b # h @ v @ r \<and> unat b = opcode"
  by (cases s) (auto simp: Let_def push_operand_shape split: if_splits)

lemma GetScriptOp_length:
  "GetScriptOp s = Some (opcode, v, r) \<Longrightarrow> length v + length r < length s"
  by (auto dest: GetScriptOp_rest)

lemma GetScriptOp_opcode: "GetScriptOp s = Some (opcode, v, r) \<Longrightarrow> opcode < 256"
  using unat_byte_lt by (auto dest: GetScriptOp_rest)

lemma GetScriptOp_rest_less [simp]:
  "GetScriptOp s = Some (opcode, v, r) \<Longrightarrow> length r < length s"
  by (drule GetScriptOp_length) simp

function sigop_loop :: "bool \<Rightarrow> opcodetype \<Rightarrow> bytes \<Rightarrow> nat" where
  "sigop_loop fAccurate lastOpcode pc =
     (case GetScriptOp pc of
        None \<Rightarrow> 0
      | Some (opcode, _, pc1) \<Rightarrow>
          (if opcode = OP_CHECKSIG \<or> opcode = OP_CHECKSIGVERIFY then 1
           else if opcode = OP_CHECKMULTISIG \<or> opcode = OP_CHECKMULTISIGVERIFY then
             if fAccurate \<and> lastOpcode \<ge> OP_1 \<and> lastOpcode \<le> OP_16 then DecodeOP_N lastOpcode
             else MAX_PUBKEYS_PER_MULTISIG
           else 0) + sigop_loop fAccurate opcode pc1)"
  by pat_completeness auto
termination by (relation "measure (\<lambda>(_, _, pc). length pc)") auto

definition GetSigOpCount :: "bool \<Rightarrow> bytes \<Rightarrow> nat" where
  "GetSigOpCount fAccurate s = sigop_loop fAccurate OP_INVALIDOPCODE s"

definition IsPayToPublicKeyHash :: "bytes \<Rightarrow> bool" where
  "IsPayToPublicKeyHash s \<longleftrightarrow>
     length s = 25 \<and> unat (s ! 0) = OP_DUP \<and> unat (s ! 1) = OP_HASH160 \<and> s ! 2 = 0x14
     \<and> unat (s ! 23) = OP_EQUALVERIFY \<and> unat (s ! 24) = OP_CHECKSIG"

definition IsPayToScriptHash :: "bytes \<Rightarrow> bool" where
  "IsPayToScriptHash s \<longleftrightarrow>
     length s = 23 \<and> unat (s ! 0) = OP_HASH160 \<and> s ! 1 = 0x14 \<and> unat (s ! 22) = OP_EQUAL"

definition IsPayToPublicKey :: "bytes \<Rightarrow> bool" where
  "IsPayToPublicKey s \<longleftrightarrow>
     (if length s = 35 then (s ! 1 = 0x02 \<or> s ! 1 = 0x03) \<and> unat (s ! 34) = OP_CHECKSIG
      else if length s = 67 then s ! 1 = 0x04 \<and> unat (s ! 66) = OP_CHECKSIG
      else False)"

function IsPushOnly :: "bytes \<Rightarrow> bool" where
  "IsPushOnly pc =
     (if pc = [] then True
      else case GetScriptOp pc of
        None \<Rightarrow> False
      | Some (opcode, _, pc1) \<Rightarrow> if opcode > OP_16 then False else IsPushOnly pc1)"
  by pat_completeness auto
termination by (relation "measure length") auto

text \<open>
  \<open>GetSigOpCount(scriptSig)\<close> walks a script signature for the operand of its last instruction;
  \<open>None\<close> is the early \<open>return 0\<close>.
\<close>

function last_push :: "bytes \<Rightarrow> bytes \<Rightarrow> bytes option" where
  "last_push vData pc =
     (if pc = [] then Some vData
      else case GetScriptOp pc of
        None \<Rightarrow> None
      | Some (opcode, vData1, pc1) \<Rightarrow> if opcode > OP_16 then None else last_push vData1 pc1)"
  by pat_completeness auto
termination by (relation "measure (\<lambda>(_, pc). length pc)") auto

definition GetSigOpCount_P2SH :: "bytes \<Rightarrow> bytes \<Rightarrow> nat" where
  "GetSigOpCount_P2SH scriptPubKey scriptSig =
     (if \<not> IsPayToScriptHash scriptPubKey then GetSigOpCount True scriptPubKey
      else case last_push [] scriptSig of
        None \<Rightarrow> 0
      | Some vData \<Rightarrow> GetSigOpCount True vData)"

definition IsUnspendable :: "bytes \<Rightarrow> bool" where
  "IsUnspendable s \<longleftrightarrow>
     (length s > 0 \<and> unat (s ! 0) = OP_RETURN) \<or> length s > MAX_SCRIPT_SIZE"

declare sigop_loop.simps [simp del] IsPushOnly.simps [simp del] last_push.simps [simp del]

section \<open>Decoding what the push operators write\<close>

lemma push_operand_le_bytes:
  "length v < 256 ^ k \<Longrightarrow> push_operand k (le_bytes k (length v) @ v @ r) = Some (v, r)"
  by (auto simp: push_operand_shape le_val_le_bytes)

lemma GetScriptOp_append:
  "GetScriptOp s = Some (opcode, v, r) \<Longrightarrow> GetScriptOp (s @ t) = Some (opcode, v, r @ t)"
  by (cases s) (auto simp: Let_def push_operand_shape split: if_splits)

definition push_vector_opcode :: "bytes \<Rightarrow> opcodetype" where
  "push_vector_opcode b =
     (if length b < OP_PUSHDATA1 then length b
      else if length b \<le> 0xff then OP_PUSHDATA1
      else if length b \<le> 0xffff then OP_PUSHDATA2
      else OP_PUSHDATA4)"

lemma push_vector_opcode_le: "push_vector_opcode b \<le> OP_PUSHDATA4"
  by (simp add: push_vector_opcode_def)

lemma GetScriptOp_push_vector:
  assumes "length b < 2 ^ 32"
  shows "GetScriptOp (push_vector b @ r) = Some (push_vector_opcode b, b, r)"
proof -
  have "length b \<le> 0xff \<Longrightarrow> of_nat (length b) # b @ r = le_bytes 1 (length b) @ b @ r"
    by simp
  then show ?thesis
    using assms push_operand_le_bytes [of b 1 r] push_operand_le_bytes [of b 2 r]
      push_operand_le_bytes [of b 4 r]
    by (auto simp: push_vector_def push_vector_opcode_def)
qed

lemma push_vector_neq_Nil [simp]: "push_vector b \<noteq> []"
  by (simp add: push_vector_def)

lemma GetScriptOp_small_int:
  assumes "1 \<le> n" "n \<le> 16"
  shows "GetScriptOp (push_int64 n @ r) = Some (EncodeOP_N (nat n), [], r)"
proof -
  obtain k where k: "n = int k" using assms by (metis nonneg_int_cases order.trans zero_le_one)
  have "(of_int (int k + 80) :: byte) = of_nat (k + 80)" by simp
  then have "unat (of_int (int k + 80) :: byte) = k + 80"
    using assms by (simp only: unat_of_nat_byte) (simp add: k)
  then show ?thesis using assms by (simp add: push_int64_def EncodeOP_N_def k del: of_int_add)
qed

section \<open>Push-only scripts\<close>

lemma IsPushOnly_Nil [simp]: "IsPushOnly []"
  by (simp add: IsPushOnly.simps)

lemma last_push_Nil [simp]: "last_push v [] = Some v"
  by (simp add: last_push.simps)

lemma IsPushOnly_append: "IsPushOnly s \<Longrightarrow> IsPushOnly (s @ t) = IsPushOnly t"
proof (induction s rule: IsPushOnly.induct)
  case (1 s)
  show ?case
  proof (cases "s = []")
    case False
    with "1.prems" obtain opcode v r where op: "GetScriptOp s = Some (opcode, v, r)"
      "\<not> opcode > OP_16" "IsPushOnly r"
      by (subst (asm) IsPushOnly.simps) (auto split: option.splits if_splits)
    then have "IsPushOnly (r @ t) = IsPushOnly t" using 1 False by blast
    then show ?thesis
      using op False GetScriptOp_append [OF op(1), of t] by (subst IsPushOnly.simps) simp
  qed simp
qed

lemma last_push_append: "IsPushOnly s \<Longrightarrow> last_push v (s @ t) = last_push (the (last_push v s)) t"
proof (induction v s rule: last_push.induct)
  case (1 v s)
  show ?case
  proof (cases "s = []")
    case False
    with "1.prems" obtain opcode w r where op: "GetScriptOp s = Some (opcode, w, r)"
      "\<not> opcode > OP_16" "IsPushOnly r"
      by (subst (asm) IsPushOnly.simps) (auto split: option.splits if_splits)
    then have "last_push w (r @ t) = last_push (the (last_push w r)) t" using 1 False by blast
    moreover have "last_push v s = last_push w r"
      using op False by (subst last_push.simps) simp
    moreover have "last_push v (s @ t) = last_push w (r @ t)"
      using op False GetScriptOp_append [OF op(1), of t] by (subst last_push.simps) simp
    ultimately show ?thesis by simp
  qed simp
qed

lemma IsPushOnly_push_vector [simp]: "length b < 2 ^ 32 \<Longrightarrow> IsPushOnly (push_vector b)"
  using GetScriptOp_push_vector [of b "[]"] push_vector_opcode_le [of b]
  by (subst IsPushOnly.simps) simp

lemma last_push_push_vector [simp]: "length b < 2 ^ 32 \<Longrightarrow> last_push v (push_vector b) = Some b"
  using GetScriptOp_push_vector [of b "[]"] push_vector_opcode_le [of b]
  by (subst last_push.simps) simp

lemma last_push_IsPushOnly: "last_push v s \<noteq> None \<longleftrightarrow> IsPushOnly s"
proof (induction v s rule: last_push.induct)
  case (1 v s)
  then show ?case
    by (subst last_push.simps, subst IsPushOnly.simps) (auto split: option.splits)
qed

section \<open>Signature-operation counts\<close>

lemma sigop_loop_bound: "sigop_loop acc l s \<le> MAX_PUBKEYS_PER_MULTISIG * length s"
proof (induction acc l s rule: sigop_loop.induct)
  case (1 acc l s)
  show ?case
  proof (cases "GetScriptOp s")
    case None
    then show ?thesis by (subst sigop_loop.simps) simp
  next
    case (Some x)
    then obtain opcode v r where op: "GetScriptOp s = Some (opcode, v, r)" by (cases x) auto
    have "sigop_loop acc opcode r + MAX_PUBKEYS_PER_MULTISIG
        \<le> MAX_PUBKEYS_PER_MULTISIG * (length r + 1)"
      using "1.IH" [OF op refl] by simp
    also have "\<dots> \<le> MAX_PUBKEYS_PER_MULTISIG * length s"
      using GetScriptOp_rest_less [OF op] by (intro mult_le_mono2) simp
    finally show ?thesis
      by (subst sigop_loop.simps) (auto simp: op DecodeOP_N_def MAX_PUBKEYS_PER_MULTISIG_def)
  qed
qed

lemma sigop_loop_accurate_le: "sigop_loop True l s \<le> sigop_loop False l s"
proof (induction True l s rule: sigop_loop.induct)
  case (1 l s)
  show ?case
    by (subst (1 2) sigop_loop.simps)
      (auto simp: DecodeOP_N_def MAX_PUBKEYS_PER_MULTISIG_def dest!: 1 split: option.splits)
qed

section \<open>Templates\<close>

lemma slice_decomp: "drop i s = take k (drop i s) @ drop (i + k) s"
  by (metis add.commute append_take_drop_id drop_drop)

lemma drop_two: "length s = n + 2 \<Longrightarrow> drop n s = [s ! n, s ! (n + 1)]"
  using Cons_nth_drop_Suc [of n s] Cons_nth_drop_Suc [of "Suc n" s] by simp

lemma front_two: "2 \<le> length s \<Longrightarrow> s = [s ! 0, s ! 1] @ drop 2 s"
  by (cases s; cases "tl s") auto

lemma front_three: "3 \<le> length s \<Longrightarrow> s = [s ! 0, s ! 1, s ! 2] @ drop 3 s"
  by (cases s; cases "tl s"; cases "tl (tl s)") auto

lemma IsPayToPublicKeyHash_iff:
  "IsPayToPublicKeyHash s \<longleftrightarrow>
     (\<exists>h. length h = 20 \<and> s = push_opcode OP_DUP @ push_opcode OP_HASH160 @ push_vector h
                            @ push_opcode OP_EQUALVERIFY @ push_opcode OP_CHECKSIG)"
  (is "?L = ?R")
proof
  assume L: ?L
  then have len: "length s = 25" by (simp add: IsPayToPublicKeyHash_def)
  define h where "h = take 20 (drop 3 s)"
  have dr: "drop 3 s = h @ [s ! 23, s ! 24]"
    using slice_decomp [of 3 s 20] drop_two [of s 23] len by (simp add: h_def)
  have eq: "s = [s ! 0, s ! 1, s ! 2] @ h @ [s ! 23, s ! 24]"
    unfolding dr [symmetric] by (rule front_three) (simp add: len)
  have "s ! 0 = 0x76" "s ! 1 = 0xa9" "s ! 2 = 0x14" "s ! 23 = 0x88" "s ! 24 = 0xac"
    using L by (simp_all add: IsPayToPublicKeyHash_def word_unat_eq_iff)
  moreover have "length h = 20" using len by (simp add: h_def)
  ultimately show ?R
    by (intro exI [of _ h] conjI trans [OF eq]) (simp_all add: push_opcode_def push_vector_def)
qed (auto simp: IsPayToPublicKeyHash_def push_opcode_def push_vector_def nth_append)

lemma IsPayToScriptHash_iff:
  "IsPayToScriptHash s \<longleftrightarrow>
     (\<exists>h. length h = 20 \<and> s = push_opcode OP_HASH160 @ push_vector h @ push_opcode OP_EQUAL)"
  (is "?L = ?R")
proof
  assume L: ?L
  then have len: "length s = 23" by (simp add: IsPayToScriptHash_def)
  define h where "h = take 20 (drop 2 s)"
  have dr: "drop 2 s = h @ [s ! 22]"
    using slice_decomp [of 2 s 20] Cons_nth_drop_Suc [of 22 s] len by (simp add: h_def)
  have eq: "s = [s ! 0, s ! 1] @ h @ [s ! 22]"
    unfolding dr [symmetric] by (rule front_two) (simp add: len)
  have "s ! 0 = 0xa9" "s ! 1 = 0x14" "s ! 22 = 0x87"
    using L by (simp_all add: IsPayToScriptHash_def word_unat_eq_iff)
  moreover have "length h = 20" using len by (simp add: h_def)
  ultimately show ?R
    by (intro exI [of _ h] conjI trans [OF eq]) (simp_all add: push_opcode_def push_vector_def)
qed (auto simp: IsPayToScriptHash_def push_opcode_def push_vector_def nth_append)

section \<open>Properties\<close>

text \<open>
  Pay-to-script-hash signature operations are counted from the redeem script. For a script that
\<open>IsPayToScriptHash\<close> accepts and a script signature made of any push-only prefix followed by the
push of a redeem script, \<open>GetSigOpCount(scriptSig)\<close> is the accurate count of the redeem script; for
a script signature that is not push-only it is 0. Either way it is at most 20 per script byte.
\<close>

lemma GetSigOpCount_P2SH_redeem:
  assumes "IsPayToScriptHash scriptPubKey" and "length redeem < 2 ^ 32"
  shows "(if IsPushOnly sig
          then GetSigOpCount_P2SH scriptPubKey (sig @ push_vector redeem) = GetSigOpCount True redeem
          else GetSigOpCount_P2SH scriptPubKey sig = 0)
     \<and> GetSigOpCount True redeem \<le> GetSigOpCount False redeem
     \<and> GetSigOpCount False redeem \<le> 20 * length redeem"
  using assms last_push_append [of sig "[]" "push_vector redeem"] last_push_IsPushOnly [of "[]" sig]
    sigop_loop_accurate_le sigop_loop_bound [of False OP_INVALIDOPCODE redeem]
  by (auto simp: GetSigOpCount_P2SH_def GetSigOpCount_def MAX_PUBKEYS_PER_MULTISIG_def)

text \<open>
  The template tests recognise exactly the scripts the wallet code builds with the push operators:
pay-to-public-key-hash scripts around a 20-byte hash and pay-to-script-hash scripts around a
20-byte hash.
\<close>

lemma script_templates:
  "(IsPayToPublicKeyHash s \<longleftrightarrow>
      (\<exists>h. length h = 20 \<and> s = push_opcode OP_DUP @ push_opcode OP_HASH160 @ push_vector h
                             @ push_opcode OP_EQUALVERIFY @ push_opcode OP_CHECKSIG))
   \<and> (IsPayToScriptHash s \<longleftrightarrow>
      (\<exists>h. length h = 20 \<and> s = push_opcode OP_HASH160 @ push_vector h @ push_opcode OP_EQUAL))"
  by (intro conjI IsPayToPublicKeyHash_iff IsPayToScriptHash_iff)

end
