(* ===== verification/Hashing.thy ===== *)
theory Hashing
  imports Prelude
begin

unbundle bit_operations_syntax

text \<open>
  The hash functions of \<open>crypto/sha256.cpp\<close>, \<open>crypto/sha1.cpp\<close> and \<open>crypto/ripemd160.cpp\<close>, with the
  double hashes of \<open>hash.h\<close>. Each compression function is the portable C++ one; the unrolled rounds
  rename the working variables from call to call, which is a rotation of the tuple of
  variables here. The three classes share the buffering code of \<open>Write\<close> and \<open>Finalize\<close>, which is
  modelled once over an arbitrary compression function. The locale \<open>hasher\<close> states what a
  streaming hash class promises: the digest depends only on the concatenation of the chunks.
\<close>

section \<open>Byte order\<close>

definition ReadBE32 :: "bytes \<Rightarrow> u32" where
  "ReadBE32 p = of_nat (le_val (rev (take 4 p)))"

definition ReadLE32 :: "bytes \<Rightarrow> u32" where
  "ReadLE32 p = of_nat (le_val (take 4 p))"

definition WriteBE32 :: "u32 \<Rightarrow> bytes" where
  "WriteBE32 x = rev (le_bytes 4 (unat x))"

definition WriteLE32 :: "u32 \<Rightarrow> bytes" where
  "WriteLE32 x = le_bytes 4 (unat x)"

definition WriteBE64 :: "nat \<Rightarrow> bytes" where
  "WriteBE64 x = rev (le_bytes 8 x)"

definition WriteLE64 :: "nat \<Rightarrow> bytes" where
  "WriteLE64 x = le_bytes 8 x"

text \<open>The sixteen words of a 64-byte chunk.\<close>

definition chunk_words :: "(bytes \<Rightarrow> u32) \<Rightarrow> bytes \<Rightarrow> u32 list" where
  "chunk_words rd chunk = map (\<lambda>i. rd (drop (4 * i) chunk)) [0..<16]"

lemma length_16_cases:
  assumes "length M = 16"
  obtains a b c d e f g h a' b' c' d' e' f' g' h' where "M = [a, b, c, d, e, f, g, h, a', b', c', d', e', f', g', h']"
  using assms by (auto simp: length_Suc_conv numeral_eq_Suc)

definition rol32 :: "u32 \<Rightarrow> nat \<Rightarrow> u32" where
  "rol32 x i = push_bit i x OR drop_bit (32 - i) x"

section \<open>SHA-256\<close>

definition sha256_Ch :: "u32 \<Rightarrow> u32 \<Rightarrow> u32 \<Rightarrow> u32" where
  "sha256_Ch x y z = z XOR (x AND (y XOR z))"

definition sha256_Maj :: "u32 \<Rightarrow> u32 \<Rightarrow> u32 \<Rightarrow> u32" where
  "sha256_Maj x y z = (x AND y) OR (z AND (x OR y))"

definition sha256_Sigma0 :: "u32 \<Rightarrow> u32" where
  "sha256_Sigma0 x = (drop_bit 2 x OR push_bit 30 x) XOR (drop_bit 13 x OR push_bit 19 x)
                     XOR (drop_bit 22 x OR push_bit 10 x)"

definition sha256_Sigma1 :: "u32 \<Rightarrow> u32" where
  "sha256_Sigma1 x = (drop_bit 6 x OR push_bit 26 x) XOR (drop_bit 11 x OR push_bit 21 x)
                     XOR (drop_bit 25 x OR push_bit 7 x)"

definition sha256_sigma0 :: "u32 \<Rightarrow> u32" where
  "sha256_sigma0 x = (drop_bit 7 x OR push_bit 25 x) XOR (drop_bit 18 x OR push_bit 14 x)
                     XOR drop_bit 3 x"

definition sha256_sigma1 :: "u32 \<Rightarrow> u32" where
  "sha256_sigma1 x = (drop_bit 17 x OR push_bit 15 x) XOR (drop_bit 19 x OR push_bit 13 x)
                     XOR drop_bit 10 x"

type_synonym sha256_vars = "u32 \<times> u32 \<times> u32 \<times> u32 \<times> u32 \<times> u32 \<times> u32 \<times> u32"

text \<open>One round, followed by the renaming of the variables for the next one.\<close>

fun sha256_Round :: "sha256_vars \<Rightarrow> u32 \<Rightarrow> sha256_vars" where
  "sha256_Round (a, b, c, d, e, f, g, h) k =
     (let t1 = h + sha256_Sigma1 e + sha256_Ch e f g + k;
          t2 = sha256_Sigma0 a + sha256_Maj a b c
      in (t1 + t2, a, b, c, d + t1, e, f, g))"

definition sha256_Initialize :: "u32 list" where
  "sha256_Initialize =
     [0x6a09e667, 0xbb67ae85, 0x3c6ef372, 0xa54ff53a, 0x510e527f, 0x9b05688c, 0x1f83d9ab, 0x5be0cd19]"

text \<open>The constant and the schedule word of each of the 64 calls of \<open>Round\<close>.\<close>

definition sha256_rounds :: "(u32 \<times> nat) list" where
  "sha256_rounds =
     [(0x428a2f98, 0), (0x71374491, 1), (0xb5c0fbcf, 2), (0xe9b5dba5, 3),
      (0x3956c25b, 4), (0x59f111f1, 5), (0x923f82a4, 6), (0xab1c5ed5, 7),
      (0xd807aa98, 8), (0x12835b01, 9), (0x243185be, 10), (0x550c7dc3, 11),
      (0x72be5d74, 12), (0x80deb1fe, 13), (0x9bdc06a7, 14), (0xc19bf174, 15),
      (0xe49b69c1, 0), (0xefbe4786, 1), (0x0fc19dc6, 2), (0x240ca1cc, 3),
      (0x2de92c6f, 4), (0x4a7484aa, 5), (0x5cb0a9dc, 6), (0x76f988da, 7),
      (0x983e5152, 8), (0xa831c66d, 9), (0xb00327c8, 10), (0xbf597fc7, 11),
      (0xc6e00bf3, 12), (0xd5a79147, 13), (0x06ca6351, 14), (0x14292967, 15),
      (0x27b70a85, 0), (0x2e1b2138, 1), (0x4d2c6dfc, 2), (0x53380d13, 3),
      (0x650a7354, 4), (0x766a0abb, 5), (0x81c2c92e, 6), (0x92722c85, 7),
      (0xa2bfe8a1, 8), (0xa81a664b, 9), (0xc24b8b70, 10), (0xc76c51a3, 11),
      (0xd192e819, 12), (0xd6990624, 13), (0xf40e3585, 14), (0x106aa070, 15),
      (0x19a4c116, 0), (0x1e376c08, 1), (0x2748774c, 2), (0x34b0bcb5, 3),
      (0x391c0cb3, 4), (0x4ed8aa4a, 5), (0x5b9cca4f, 6), (0x682e6ff3, 7),
      (0x748f82ee, 8), (0x78a5636f, 9), (0x84c87814, 10), (0x8cc70208, 11),
      (0x90befffa, 12), (0xa4506ceb, 13), (0xbef9a3f7, 14), (0xc67178f2, 15)]"

text \<open>From round 16 on, the schedule word of the round is first increased by three others.\<close>

definition sha256_schedule :: "nat \<Rightarrow> nat \<Rightarrow> u32 list \<Rightarrow> u32 list" where
  "sha256_schedule i j w =
     (if i < 16 then w
      else w[j := w ! j + (sha256_sigma1 (w ! ((j + 14) mod 16)) + w ! ((j + 9) mod 16)
                           + sha256_sigma0 (w ! ((j + 1) mod 16)))])"

definition sha256_step :: "sha256_vars \<times> u32 list \<Rightarrow> nat \<Rightarrow> sha256_vars \<times> u32 list" where
  "sha256_step st i =
     (case sha256_rounds ! i of (k, j) \<Rightarrow>
        let w = sha256_schedule i j (snd st) in (sha256_Round (fst st) (k + w ! j), w))"

definition sha256_Transform :: "u32 list \<Rightarrow> bytes \<Rightarrow> u32 list" where
  "sha256_Transform s chunk =
     (case fst (foldl sha256_step
                  ((s ! 0, s ! 1, s ! 2, s ! 3, s ! 4, s ! 5, s ! 6, s ! 7), chunk_words ReadBE32 chunk)
                  [0..<64]) of
        (a, b, c, d, e, f, g, h) \<Rightarrow>
          [s ! 0 + a, s ! 1 + b, s ! 2 + c, s ! 3 + d, s ! 4 + e, s ! 5 + f, s ! 6 + g, s ! 7 + h])"

section \<open>SHA-1\<close>

type_synonym hash5_vars = "u32 \<times> u32 \<times> u32 \<times> u32 \<times> u32"

definition sha1_f1 :: "u32 \<Rightarrow> u32 \<Rightarrow> u32 \<Rightarrow> u32" where
  "sha1_f1 b c d = d XOR (b AND (c XOR d))"

definition sha1_f2 :: "u32 \<Rightarrow> u32 \<Rightarrow> u32 \<Rightarrow> u32" where
  "sha1_f2 b c d = b XOR c XOR d"

definition sha1_f3 :: "u32 \<Rightarrow> u32 \<Rightarrow> u32 \<Rightarrow> u32" where
  "sha1_f3 b c d = (b AND c) OR (d AND (b OR c))"

definition sha1_left :: "u32 \<Rightarrow> u32" where
  "sha1_left x = push_bit 1 x OR drop_bit 31 x"

definition sha1_Initialize :: "u32 list" where
  "sha1_Initialize = [0x67452301, 0xEFCDAB89, 0x98BADCFE, 0x10325476, 0xC3D2E1F0]"

text \<open>The function and the constant of round \<open>i\<close>.\<close>

definition sha1_fk :: "nat \<Rightarrow> (u32 \<Rightarrow> u32 \<Rightarrow> u32 \<Rightarrow> u32) \<times> u32" where
  "sha1_fk i = (if i < 20 then (sha1_f1, 0x5A827999)
                else if i < 40 then (sha1_f2, 0x6ED9EBA1)
                else if i < 60 then (sha1_f3, 0x8F1BBCDC)
                else (sha1_f2, 0xCA62C1D6))"

fun sha1_Round :: "hash5_vars \<Rightarrow> (u32 \<Rightarrow> u32 \<Rightarrow> u32 \<Rightarrow> u32) \<times> u32 \<Rightarrow> u32 \<Rightarrow> hash5_vars" where
  "sha1_Round (a, b, c, d, e) (f, k) w =
     (e + ((push_bit 5 a OR drop_bit 27 a) + f b c d + k + w), a, push_bit 30 b OR drop_bit 2 b, c, d)"

definition sha1_schedule :: "nat \<Rightarrow> u32 list \<Rightarrow> u32 list" where
  "sha1_schedule i w =
     (if i < 16 then w
      else w[i mod 16 := sha1_left (w ! (i mod 16) XOR w ! ((i + 13) mod 16)
                          XOR w ! ((i + 8) mod 16) XOR w ! ((i + 2) mod 16))])"

definition sha1_step :: "hash5_vars \<times> u32 list \<Rightarrow> nat \<Rightarrow> hash5_vars \<times> u32 list" where
  "sha1_step st i =
     (let w = sha1_schedule i (snd st) in (sha1_Round (fst st) (sha1_fk i) (w ! (i mod 16)), w))"

definition sha1_Transform :: "u32 list \<Rightarrow> bytes \<Rightarrow> u32 list" where
  "sha1_Transform s chunk =
     (case fst (foldl sha1_step ((s ! 0, s ! 1, s ! 2, s ! 3, s ! 4), chunk_words ReadBE32 chunk)
                  [0..<80]) of
        (a, b, c, d, e) \<Rightarrow> [s ! 0 + a, s ! 1 + b, s ! 2 + c, s ! 3 + d, s ! 4 + e])"

section \<open>RIPEMD-160\<close>

definition ripemd160_f1 :: "u32 \<Rightarrow> u32 \<Rightarrow> u32 \<Rightarrow> u32" where
  "ripemd160_f1 x y z = x XOR y XOR z"

definition ripemd160_f2 :: "u32 \<Rightarrow> u32 \<Rightarrow> u32 \<Rightarrow> u32" where
  "ripemd160_f2 x y z = (x AND y) OR (NOT x AND z)"

definition ripemd160_f3 :: "u32 \<Rightarrow> u32 \<Rightarrow> u32 \<Rightarrow> u32" where
  "ripemd160_f3 x y z = (x OR NOT y) XOR z"

definition ripemd160_f4 :: "u32 \<Rightarrow> u32 \<Rightarrow> u32 \<Rightarrow> u32" where
  "ripemd160_f4 x y z = (x AND z) OR (y AND NOT z)"

definition ripemd160_f5 :: "u32 \<Rightarrow> u32 \<Rightarrow> u32 \<Rightarrow> u32" where
  "ripemd160_f5 x y z = x XOR (y OR NOT z)"

definition ripemd160_Initialize :: "u32 list" where
  "ripemd160_Initialize = [0x67452301, 0xEFCDAB89, 0x98BADCFE, 0x10325476, 0xC3D2E1F0]"

fun ripemd160_Round ::
  "hash5_vars \<Rightarrow> (u32 \<Rightarrow> u32 \<Rightarrow> u32 \<Rightarrow> u32) \<times> u32 \<Rightarrow> u32 \<Rightarrow> nat \<Rightarrow> hash5_vars" where
  "ripemd160_Round (a, b, c, d, e) (f, k) x r =
     (e, rol32 (a + f b c d + x + k) r + e, b, rol32 c 10, d)"

text \<open>\<open>R11\<close> to \<open>R51\<close> and \<open>R12\<close> to \<open>R52\<close>: function and constant of round \<open>i\<close> of the two lines.\<close>

definition ripemd160_R1 :: "nat \<Rightarrow> (u32 \<Rightarrow> u32 \<Rightarrow> u32 \<Rightarrow> u32) \<times> u32" where
  "ripemd160_R1 i = (if i < 16 then (ripemd160_f1, 0)
                     else if i < 32 then (ripemd160_f2, 0x5A827999)
                     else if i < 48 then (ripemd160_f3, 0x6ED9EBA1)
                     else if i < 64 then (ripemd160_f4, 0x8F1BBCDC)
                     else (ripemd160_f5, 0xA953FD4E))"

definition ripemd160_R2 :: "nat \<Rightarrow> (u32 \<Rightarrow> u32 \<Rightarrow> u32 \<Rightarrow> u32) \<times> u32" where
  "ripemd160_R2 i = (if i < 16 then (ripemd160_f5, 0x50A28BE6)
                     else if i < 32 then (ripemd160_f4, 0x5C4DD124)
                     else if i < 48 then (ripemd160_f3, 0x6D703EF3)
                     else if i < 64 then (ripemd160_f2, 0x7A6D76E9)
                     else (ripemd160_f1, 0))"

text \<open>The message word and the rotation of each round, in the order of the calls in \<open>Transform\<close>.\<close>

definition ripemd160_line1 :: "(nat \<times> nat) list" where
  "ripemd160_line1 =
     [(0, 11), (1, 14), (2, 15), (3, 12), (4, 5), (5, 8), (6, 7), (7, 9),
      (8, 11), (9, 13), (10, 14), (11, 15), (12, 6), (13, 7), (14, 9), (15, 8),
      (7, 7), (4, 6), (13, 8), (1, 13), (10, 11), (6, 9), (15, 7), (3, 15),
      (12, 7), (0, 12), (9, 15), (5, 9), (2, 11), (14, 7), (11, 13), (8, 12),
      (3, 11), (10, 13), (14, 6), (4, 7), (9, 14), (15, 9), (8, 13), (1, 15),
      (2, 14), (7, 8), (0, 13), (6, 6), (13, 5), (11, 12), (5, 7), (12, 5),
      (1, 11), (9, 12), (11, 14), (10, 15), (0, 14), (8, 15), (12, 9), (4, 8),
      (13, 9), (3, 14), (7, 5), (15, 6), (14, 8), (5, 6), (6, 5), (2, 12),
      (4, 9), (0, 15), (5, 5), (9, 11), (7, 6), (12, 8), (2, 13), (10, 12),
      (14, 5), (1, 12), (3, 13), (8, 14), (11, 11), (6, 8), (15, 5), (13, 6)]"

definition ripemd160_line2 :: "(nat \<times> nat) list" where
  "ripemd160_line2 =
     [(5, 8), (14, 9), (7, 9), (0, 11), (9, 13), (2, 15), (11, 15), (4, 5),
      (13, 7), (6, 7), (15, 8), (8, 11), (1, 14), (10, 14), (3, 12), (12, 6),
      (6, 9), (11, 13), (3, 15), (7, 7), (0, 12), (13, 8), (5, 9), (10, 11),
      (14, 7), (15, 7), (8, 12), (12, 7), (4, 6), (9, 15), (1, 13), (2, 11),
      (15, 9), (5, 7), (1, 15), (3, 11), (7, 8), (14, 6), (6, 6), (9, 14),
      (11, 12), (8, 13), (12, 5), (2, 14), (10, 13), (0, 13), (4, 7), (13, 5),
      (8, 15), (6, 5), (4, 8), (1, 11), (3, 14), (11, 14), (15, 6), (0, 14),
      (5, 6), (12, 9), (2, 12), (13, 9), (9, 12), (7, 5), (10, 15), (14, 8),
      (12, 8), (15, 5), (10, 12), (4, 9), (1, 12), (5, 5), (8, 14), (7, 6),
      (6, 8), (2, 13), (13, 6), (14, 5), (0, 15), (3, 13), (9, 11), (11, 11)]"

definition ripemd160_line ::
  "(nat \<Rightarrow> (u32 \<Rightarrow> u32 \<Rightarrow> u32 \<Rightarrow> u32) \<times> u32) \<Rightarrow> (nat \<times> nat) list \<Rightarrow> u32 list \<Rightarrow> hash5_vars \<Rightarrow> hash5_vars"
where
  "ripemd160_line fk line w vars =
     foldl (\<lambda>v i. ripemd160_Round v (fk i) (w ! fst (line ! i)) (snd (line ! i))) vars [0..<80]"

definition ripemd160_Transform :: "u32 list \<Rightarrow> bytes \<Rightarrow> u32 list" where
  "ripemd160_Transform s chunk =
     (let w = chunk_words ReadLE32 chunk;
          v = (s ! 0, s ! 1, s ! 2, s ! 3, s ! 4)
      in case (ripemd160_line ripemd160_R1 ripemd160_line1 w v,
               ripemd160_line ripemd160_R2 ripemd160_line2 w v) of
           ((a1, b1, c1, d1, e1), (a2, b2, c2, d2, e2)) \<Rightarrow>
             [s ! 1 + c1 + d2, s ! 2 + d1 + e2, s ! 3 + e1 + a2, s ! 4 + a1 + b2, s ! 0 + b1 + c2])"

section \<open>Buffered writing\<close>

text \<open>
  The fields of \<open>CSHA256\<close>, \<open>CSHA1\<close> and \<open>CRIPEMD160\<close>. The 64-byte array \<open>buf\<close> keeps stale bytes
  after its first \<open>bytes % 64\<close> ones. \<open>bytes\<close> is a \<open>uint64_t\<close>; it is used only modulo 64 and in the
  64-bit length field, so it is not reduced here.
\<close>

record hash_ctx =
  hs :: "u32 list"
  hbuf :: bytes
  hbytes :: nat

definition memcpy :: "bytes \<Rightarrow> nat \<Rightarrow> bytes \<Rightarrow> bytes" where
  "memcpy dst off src = take off dst @ src @ drop (off + length src) dst"

text \<open>The loop over the full chunks taken directly from the source; it returns the unread bytes.\<close>

function md_chunks :: "('s \<Rightarrow> bytes \<Rightarrow> 's) \<Rightarrow> 's \<Rightarrow> bytes \<Rightarrow> 's \<times> bytes" where
  "md_chunks tr s data =
     (if 64 \<le> length data then md_chunks tr (tr s (take 64 data)) (drop 64 data) else (s, data))"
  by pat_completeness auto
termination by (relation "measure (\<lambda>(_, _, data). length data)") auto

declare md_chunks.simps [simp del]

definition md_Write :: "(u32 list \<Rightarrow> bytes \<Rightarrow> u32 list) \<Rightarrow> hash_ctx \<Rightarrow> bytes \<Rightarrow> hash_ctx" where
  "md_Write tr c data =
     (let bufsize = hbytes c mod 64;
          fill = (bufsize \<noteq> 0 \<and> bufsize + length data \<ge> 64);
          buf1 = (if fill then memcpy (hbuf c) bufsize (take (64 - bufsize) data) else hbuf c);
          s1 = (if fill then tr (hs c) buf1 else hs c);
          data1 = (if fill then drop (64 - bufsize) data else data);
          bufsize1 = (if fill then 0 else bufsize);
          (s2, data2) = md_chunks tr s1 data1
      in \<lparr>hs = s2, hbuf = memcpy buf1 bufsize1 data2, hbytes = hbytes c + length data\<rparr>)"

definition md_init :: "u32 list \<Rightarrow> hash_ctx" where
  "md_init s = \<lparr>hs = s, hbuf = replicate 64 0, hbytes = 0\<rparr>"

definition md_pad :: bytes where
  "md_pad = 0x80 # replicate 63 0"

text \<open>\<open>Finalize\<close>, with the byte order of the length field; it returns the final state words.\<close>

definition md_Finalize ::
  "(u32 list \<Rightarrow> bytes \<Rightarrow> u32 list) \<Rightarrow> (nat \<Rightarrow> bytes) \<Rightarrow> hash_ctx \<Rightarrow> u32 list" where
  "md_Finalize tr wr64 c =
     (let sizedesc = wr64 (hbytes c * 8);
          c1 = md_Write tr c (take (1 + (119 - hbytes c mod 64) mod 64) md_pad)
      in hs (md_Write tr c1 sizedesc))"

definition CSHA256 :: hash_ctx where
  "CSHA256 = md_init sha256_Initialize"

definition CSHA256_Write :: "hash_ctx \<Rightarrow> bytes \<Rightarrow> hash_ctx" where
  "CSHA256_Write = md_Write sha256_Transform"

definition CSHA256_Finalize :: "hash_ctx \<Rightarrow> bytes" where
  "CSHA256_Finalize c = concat (map WriteBE32 (md_Finalize sha256_Transform WriteBE64 c))"

definition CSHA1 :: hash_ctx where
  "CSHA1 = md_init sha1_Initialize"

definition CSHA1_Write :: "hash_ctx \<Rightarrow> bytes \<Rightarrow> hash_ctx" where
  "CSHA1_Write = md_Write sha1_Transform"

definition CSHA1_Finalize :: "hash_ctx \<Rightarrow> bytes" where
  "CSHA1_Finalize c = concat (map WriteBE32 (md_Finalize sha1_Transform WriteBE64 c))"

definition CRIPEMD160 :: hash_ctx where
  "CRIPEMD160 = md_init ripemd160_Initialize"

definition CRIPEMD160_Write :: "hash_ctx \<Rightarrow> bytes \<Rightarrow> hash_ctx" where
  "CRIPEMD160_Write = md_Write ripemd160_Transform"

definition CRIPEMD160_Finalize :: "hash_ctx \<Rightarrow> bytes" where
  "CRIPEMD160_Finalize c = concat (map WriteLE32 (md_Finalize ripemd160_Transform WriteLE64 c))"

text \<open>The double hashes: \<open>CHash256\<close> and \<open>CHash160\<close> keep a \<open>CSHA256\<close> and hash its digest again.\<close>

definition CHash256_Finalize :: "hash_ctx \<Rightarrow> bytes" where
  "CHash256_Finalize sha = CSHA256_Finalize (CSHA256_Write CSHA256 (CSHA256_Finalize sha))"

definition CHash160_Finalize :: "hash_ctx \<Rightarrow> bytes" where
  "CHash160_Finalize sha = CRIPEMD160_Finalize (CRIPEMD160_Write CRIPEMD160 (CSHA256_Finalize sha))"

definition SHA256 :: "bytes \<Rightarrow> bytes" where
  "SHA256 m = CSHA256_Finalize (CSHA256_Write CSHA256 m)"

definition SHA1 :: "bytes \<Rightarrow> bytes" where
  "SHA1 m = CSHA1_Finalize (CSHA1_Write CSHA1 m)"

definition RIPEMD160 :: "bytes \<Rightarrow> bytes" where
  "RIPEMD160 m = CRIPEMD160_Finalize (CRIPEMD160_Write CRIPEMD160 m)"

definition HASH256 :: "bytes \<Rightarrow> bytes" where
  "HASH256 m = CHash256_Finalize (CSHA256_Write CSHA256 m)"

definition HASH160 :: "bytes \<Rightarrow> bytes" where
  "HASH160 m = CHash160_Finalize (CSHA256_Write CSHA256 m)"

section \<open>Streaming equals hashing the whole message\<close>

text \<open>The textbook hash: pad the message, cut it into chunks, fold the compression function.\<close>

definition blocks64 :: "bytes \<Rightarrow> bytes list" where
  "blocks64 m = map (\<lambda>i. take 64 (drop (64 * i) m)) [0..<length m div 64]"

definition md_padding :: "(nat \<Rightarrow> bytes) \<Rightarrow> nat \<Rightarrow> bytes" where
  "md_padding wr64 n = 0x80 # replicate ((119 - n mod 64) mod 64) 0 @ wr64 (n * 8)"

definition md_digest ::
  "(u32 list \<Rightarrow> bytes \<Rightarrow> u32 list) \<Rightarrow> u32 list \<Rightarrow> (nat \<Rightarrow> bytes) \<Rightarrow> bytes \<Rightarrow> u32 list" where
  "md_digest tr s0 wr64 m = foldl tr s0 (blocks64 (m @ md_padding wr64 (length m)))"

lemma md_chunks_short: "length d < 64 \<Longrightarrow> md_chunks tr s d = (s, d)"
  by (simp add: md_chunks.simps)

lemma md_chunks_long:
  "64 \<le> length d \<Longrightarrow> md_chunks tr s d = md_chunks tr (tr s (take 64 d)) (drop 64 d)"
  by (subst md_chunks.simps) simp

lemma length_snd_md_chunks: "length (snd (md_chunks tr s d)) = length d mod 64"
proof (induction tr s d rule: md_chunks.induct)
  case (1 tr s d)
  show ?case
  proof (cases "64 \<le> length d")
    case True
    have "length (snd (md_chunks tr s d)) = (length d - 64) mod 64"
      using 1 [OF True] by (simp add: md_chunks_long [OF True])
    then show ?thesis using True by (simp only: le_mod_geq [of 64 "length d"])
  qed (simp add: md_chunks_short)
qed

lemma md_chunks_append:
  "md_chunks tr s (a @ b) = md_chunks tr (fst (md_chunks tr s a)) (snd (md_chunks tr s a) @ b)"
proof (induction tr s a rule: md_chunks.induct)
  case (1 tr s a)
  show ?case
  proof (cases "64 \<le> length a")
    case True
    then have "md_chunks tr s (a @ b) = md_chunks tr (tr s (take 64 a)) (drop 64 a @ b)"
      by (subst md_chunks_long) simp_all
    with 1 [OF True] show ?thesis by (simp add: md_chunks_long [OF True])
  qed (simp add: md_chunks_short)
qed

lemma blocks64_long:
  assumes "64 \<le> length d"
  shows "blocks64 d = take 64 d # blocks64 (drop 64 d)"
proof -
  have "length d div 64 = Suc ((length d - 64) div 64)"
    using assms by (simp add: le_div_geq)
  then show ?thesis
    by (simp add: blocks64_def upt_conv_Cons map_Suc_upt [symmetric] add.commute del: upt_Suc)
qed

lemma fst_md_chunks: "fst (md_chunks tr s d) = foldl tr s (blocks64 d)"
proof (induction tr s d rule: md_chunks.induct)
  case (1 tr s d)
  show ?case
  proof (cases "64 \<le> length d")
    case True
    with 1 [OF True] show ?thesis
      by (simp add: md_chunks_long [OF True] blocks64_long [OF True])
  next
    case False
    then show ?thesis by (simp add: md_chunks_short blocks64_def)
  qed
qed

text \<open>A context that has absorbed the message \<open>m\<close>.\<close>

definition absorbed :: "(u32 list \<Rightarrow> bytes \<Rightarrow> u32 list) \<Rightarrow> u32 list \<Rightarrow> bytes \<Rightarrow> hash_ctx \<Rightarrow> bool" where
  "absorbed tr s0 m c \<longleftrightarrow>
     hbytes c = length m \<and> length (hbuf c) = 64
     \<and> hs c = fst (md_chunks tr s0 m) \<and> take (length m mod 64) (hbuf c) = snd (md_chunks tr s0 m)"

lemma absorbed_init: "absorbed tr s0 [] (md_init s0)"
  by (simp add: absorbed_def md_init_def md_chunks_short)

lemma length_memcpy: "off + length src \<le> length dst \<Longrightarrow> length (memcpy dst off src) = length dst"
  by (simp add: memcpy_def)

lemma take_memcpy:
  "off \<le> length dst \<Longrightarrow> take (off + length src) (memcpy dst off src) = take off dst @ src"
  by (simp add: memcpy_def)

lemma md_Write_fill:
  assumes "hbytes c mod 64 = k" "k \<noteq> 0" "k + length d \<ge> 64"
    and "b = memcpy (hbuf c) k (take (64 - k) d)"
    and "md_chunks tr (tr (hs c) b) (drop (64 - k) d) = (s2, d2)"
  shows "md_Write tr c d = \<lparr>hs = s2, hbuf = memcpy b 0 d2, hbytes = hbytes c + length d\<rparr>"
  using assms by (simp add: md_Write_def)

lemma md_Write_nofill:
  assumes "hbytes c mod 64 = k" "k = 0 \<or> k + length d < 64"
    and "md_chunks tr (hs c) d = (s2, d2)"
  shows "md_Write tr c d = \<lparr>hs = s2, hbuf = memcpy (hbuf c) k d2, hbytes = hbytes c + length d\<rparr>"
proof -
  have "\<not> (k \<noteq> 0 \<and> k + length d \<ge> 64)" using assms(2) by auto
  with assms(1,3) show ?thesis by (auto simp: md_Write_def Let_def)
qed

text \<open>The chunk sizes that make the final buffer hold exactly the unprocessed bytes.\<close>

lemma absorbedI:
  assumes "hbytes c = length m" "md_chunks tr s0 m = (hs c, r)" "hbuf c = r @ z" "length (r @ z) = 64"
  shows "absorbed tr s0 m c"
  using assms length_snd_md_chunks [of tr s0 m] by (simp add: absorbed_def)

lemma absorbedE:
  assumes "absorbed tr s0 m c"
  obtains r z where "md_chunks tr s0 m = (hs c, r)" "hbuf c = r @ z" "length (r @ z) = 64"
    "hbytes c = length m" "length m mod 64 = length r" "length r < 64"
proof
  let ?r = "snd (md_chunks tr s0 m)" and ?z = "drop (length m mod 64) (hbuf c)"
  show "md_chunks tr s0 m = (hs c, ?r)" "hbytes c = length m"
    using assms by (simp_all add: absorbed_def)
  show buf: "hbuf c = ?r @ ?z"
    using assms by (simp add: absorbed_def) (metis append_take_drop_id)
  then show "length (?r @ ?z) = 64"
    using assms by (simp add: absorbed_def)
  show "length m mod 64 = length ?r" "length ?r < 64"
    by (simp_all add: length_snd_md_chunks)
qed

lemma memcpy_append:
  "length r = k \<Longrightarrow> length d \<le> length z \<Longrightarrow> memcpy (r @ z) k d = r @ d @ drop (length d) z"
  by (simp add: memcpy_def)

lemma absorbed_Write:
  assumes "absorbed tr s0 m c"
  shows "absorbed tr s0 (m @ d) (md_Write tr c d)"
proof -
  obtain r z where c: "md_chunks tr s0 m = (hs c, r)" "hbuf c = r @ z" "length (r @ z) = 64"
    "hbytes c = length m" "length m mod 64 = length r" "length r < 64"
    using assms by (rule absorbedE)
  have app: "md_chunks tr s0 (m @ d) = md_chunks tr (hs c) (r @ d)"
    by (subst md_chunks_append) (simp add: c)
  consider "r \<noteq> []" "length r + length d \<ge> 64" | "r = []" | "r \<noteq> []" "length r + length d < 64"
    by (cases "r = []"; cases "64 \<le> length r + length d") auto
  then show ?thesis
  proof cases
    case 1
    define b where "b = memcpy (hbuf c) (length r) (take (64 - length r) d)"
    obtain s2 d2 where ch: "md_chunks tr (tr (hs c) b) (drop (64 - length r) d) = (s2, d2)"
      by (metis surj_pair)
    have b: "b = r @ take (64 - length r) d" "length b = 64"
      using 1 c by (simp_all add: b_def memcpy_append)
    have "md_chunks tr (hs c) (r @ d) = (s2, d2)"
      using 1 c(6) ch by (simp add: md_chunks_long b)
    moreover have "length d2 < 64"
      using length_snd_md_chunks [of tr "tr (hs c) b" "drop (64 - length r) d"] ch by simp
    moreover have "md_Write tr c d = \<lparr>hs = s2, hbuf = memcpy b 0 d2, hbytes = hbytes c + length d\<rparr>"
      using 1 c b_def ch by (intro md_Write_fill) auto
    ultimately show ?thesis
      using b(2) by (intro absorbedI [where r = d2 and z = "drop (length d2) b"])
        (simp_all add: app c(4) memcpy_def)
  next
    case 2
    obtain s2 d2 where ch: "md_chunks tr (hs c) d = (s2, d2)" by (metis surj_pair)
    moreover have "length d2 < 64" using length_snd_md_chunks [of tr "hs c" d] ch by simp
    moreover have "md_Write tr c d = \<lparr>hs = s2, hbuf = memcpy (hbuf c) 0 d2, hbytes = hbytes c + length d\<rparr>"
      using 2 c ch by (intro md_Write_nofill) auto
    ultimately show ?thesis
      using 2 c(2-4) by (intro absorbedI [where r = d2 and z = "drop (length d2) z"])
        (simp_all add: app memcpy_def)
  next
    case 3
    have "md_Write tr c d = \<lparr>hs = hs c, hbuf = memcpy (hbuf c) (length r) d, hbytes = hbytes c + length d\<rparr>"
      using 3 c by (intro md_Write_nofill) (auto simp: md_chunks_short)
    then show ?thesis
      using 3 c(2-4) by (intro absorbedI [where r = "r @ d" and z = "drop (length d) z"])
        (simp_all add: app memcpy_append md_chunks_short)
  qed
qed

lemma absorbed_Writes: "absorbed tr s0 m c \<Longrightarrow> absorbed tr s0 (m @ concat ds) (foldl (md_Write tr) c ds)"
  by (induction ds arbitrary: m c) (use absorbed_Write in force)+

lemma md_Finalize_digest:
  assumes "absorbed tr s0 m c"
  shows "md_Finalize tr wr64 c = md_digest tr s0 wr64 m"
proof -
  let ?k = "(119 - length m mod 64) mod 64"
  have hb: "hbytes c = length m" using assms by (simp add: absorbed_def)
  have "?k \<le> 63" by (simp add: less_Suc_eq_le [symmetric])
  then have pad: "take (1 + ?k) md_pad = 0x80 # replicate ?k 0" by (simp add: md_pad_def min_def)
  have "absorbed tr s0 ((m @ take (1 + ?k) md_pad) @ wr64 (length m * 8))
          (md_Write tr (md_Write tr c (take (1 + ?k) md_pad)) (wr64 (length m * 8)))"
    by (intro absorbed_Write assms)
  then show ?thesis
    unfolding md_Finalize_def md_digest_def md_padding_def hb Let_def pad
    by (simp add: absorbed_def fst_md_chunks)
qed

section \<open>The contract of a streaming hash class\<close>

locale hasher =
  fixes init :: "'c"
    and wr :: "'c \<Rightarrow> bytes \<Rightarrow> 'c"
    and fin :: "'c \<Rightarrow> bytes"
    and digest :: "bytes \<Rightarrow> bytes"
  assumes fin_writes: "fin (foldl wr init chunks) = digest (concat chunks)"
begin

lemma fin_write: "fin (wr init m) = digest m"
  using fin_writes [of "[m]"] by simp

lemma rechunk: "fin (foldl wr init chunks) = fin (wr init (concat chunks))"
  by (simp add: fin_writes fin_write)

end

lemma md_hasher:
  "hasher (md_init s0) (md_Write tr) (\<lambda>c. concat (map out (md_Finalize tr wr64 c)))
     (\<lambda>m. concat (map out (md_digest tr s0 wr64 m)))"
proof
  fix chunks
  have "absorbed tr s0 (concat chunks) (foldl (md_Write tr) (md_init s0) chunks)"
    using absorbed_Writes [OF absorbed_init] by simp
  then show "concat (map out (md_Finalize tr wr64 (foldl (md_Write tr) (md_init s0) chunks)))
      = concat (map out (md_digest tr s0 wr64 (concat chunks)))"
    by (simp add: md_Finalize_digest)
qed

definition sha256_spec :: "bytes \<Rightarrow> bytes" where
  "sha256_spec m = concat (map WriteBE32 (md_digest sha256_Transform sha256_Initialize WriteBE64 m))"

definition sha1_spec :: "bytes \<Rightarrow> bytes" where
  "sha1_spec m = concat (map WriteBE32 (md_digest sha1_Transform sha1_Initialize WriteBE64 m))"

definition ripemd160_spec :: "bytes \<Rightarrow> bytes" where
  "ripemd160_spec m =
     concat (map WriteLE32 (md_digest ripemd160_Transform ripemd160_Initialize WriteLE64 m))"

interpretation sha256_hasher: hasher CSHA256 CSHA256_Write CSHA256_Finalize sha256_spec
  unfolding CSHA256_def CSHA256_Write_def CSHA256_Finalize_def [abs_def] sha256_spec_def [abs_def]
  by (rule md_hasher)

interpretation sha1_hasher: hasher CSHA1 CSHA1_Write CSHA1_Finalize sha1_spec
  unfolding CSHA1_def CSHA1_Write_def CSHA1_Finalize_def [abs_def] sha1_spec_def [abs_def]
  by (rule md_hasher)

interpretation ripemd160_hasher: hasher CRIPEMD160 CRIPEMD160_Write CRIPEMD160_Finalize ripemd160_spec
  unfolding CRIPEMD160_def CRIPEMD160_Write_def CRIPEMD160_Finalize_def [abs_def] ripemd160_spec_def [abs_def]
  by (rule md_hasher)

interpretation hash256_hasher: hasher CSHA256 CSHA256_Write CHash256_Finalize "\<lambda>m. sha256_spec (sha256_spec m)"
  by unfold_locales
    (simp add: CHash256_Finalize_def sha256_hasher.fin_write sha256_hasher.fin_writes)

interpretation hash160_hasher: hasher CSHA256 CSHA256_Write CHash160_Finalize "\<lambda>m. ripemd160_spec (sha256_spec m)"
  by unfold_locales
    (simp add: CHash160_Finalize_def ripemd160_hasher.fin_write sha256_hasher.fin_writes)

section \<open>Digest lengths\<close>

lemma length_concat_map_const: "(\<And>x. length (f x) = k) \<Longrightarrow> length (concat (map f xs)) = k * length xs"
  by (induction xs) auto

lemma length_WriteE32 [simp]: "length (WriteBE32 x) = 4" "length (WriteLE32 x) = 4"
  by (simp_all add: WriteBE32_def WriteLE32_def length_le_bytes)

lemma length_Transforms:
  "length (sha256_Transform s ch) = 8"
  "length (sha1_Transform s ch) = 5"
  "length (ripemd160_Transform s ch) = 5"
  by (simp_all add: sha256_Transform_def sha1_Transform_def ripemd160_Transform_def Let_def split: prod.split)

lemma length_foldl: "(\<And>s c. length (tr s c) = k) \<Longrightarrow> length s0 = k \<Longrightarrow> length (foldl tr s0 cs) = k"
  by (induction cs arbitrary: s0) auto

lemma length_md_digest:
  "(\<And>s c. length (tr s c) = k) \<Longrightarrow> length s0 = k \<Longrightarrow> length (md_digest tr s0 wr64 m) = k"
  unfolding md_digest_def by (rule length_foldl)

lemma length_specs:
  "length (sha256_spec m) = 32" "length (sha1_spec m) = 20" "length (ripemd160_spec m) = 20"
  using length_md_digest [OF length_Transforms(1), where ?s0.0 = sha256_Initialize and ?wr64.0 = WriteBE64 and m = m]
    length_md_digest [OF length_Transforms(2), where ?s0.0 = sha1_Initialize and ?wr64.0 = WriteBE64 and m = m]
    length_md_digest [OF length_Transforms(3), where ?s0.0 = ripemd160_Initialize and ?wr64.0 = WriteLE64 and m = m]
  by (simp_all add: sha256_spec_def sha1_spec_def ripemd160_spec_def length_concat_map_const [where k = 4]
      sha256_Initialize_def sha1_Initialize_def ripemd160_Initialize_def)

lemma hash_specs:
  "SHA256 m = sha256_spec m" "SHA1 m = sha1_spec m" "RIPEMD160 m = ripemd160_spec m"
  "HASH256 m = sha256_spec (sha256_spec m)" "HASH160 m = ripemd160_spec (sha256_spec m)"
  by (simp_all add: SHA256_def SHA1_def RIPEMD160_def HASH256_def HASH160_def sha256_hasher.fin_write
      sha1_hasher.fin_write ripemd160_hasher.fin_write hash256_hasher.fin_write hash160_hasher.fin_write)

lemma length_hashes [simp]:
  "length (SHA256 m) = 32" "length (SHA1 m) = 20" "length (RIPEMD160 m) = 20"
  "length (HASH256 m) = 32" "length (HASH160 m) = 20"
  by (simp_all add: hash_specs length_specs)

lemma padding_length:
  assumes "\<And>x. length (wr64 x) = 8"
  shows "64 dvd n + length (md_padding wr64 n)"
proof -
  define q x where "q = n div 64" and "x = n mod 64"
  have n: "n = 64 * q + x" by (simp add: q_def x_def)
  have x: "x < 64" by (simp add: x_def)
  have "(119 - x) mod 64 = (if x \<le> 55 then 55 - x else 119 - x)"
    using x by (auto simp: mod_if)
  then have "n + (9 + (119 - x) mod 64) = 64 * (if x \<le> 55 then q + 1 else q + 2)"
    using x n by auto
  then show ?thesis
    by (simp add: md_padding_def assms x_def [symmetric] add.commute)
qed

section \<open>Properties\<close>

text \<open>
  The buffered hash classes compute the textbook hash however the message is cut into \<open>Write\<close>
calls. For \<open>CSHA256\<close>, \<open>CSHA1\<close> and \<open>CRIPEMD160\<close> the digest after any sequence of writes is the
compression function folded over the 64-byte chunks of the padded concatenation; the double
hashes of \<open>hash.h\<close> are the compositions of those.
\<close>

lemma hash_streaming:
  "CSHA256_Finalize (foldl CSHA256_Write CSHA256 chunks)
     = concat (map WriteBE32 (md_digest sha256_Transform sha256_Initialize WriteBE64 (concat chunks)))
   \<and> CSHA1_Finalize (foldl CSHA1_Write CSHA1 chunks)
     = concat (map WriteBE32 (md_digest sha1_Transform sha1_Initialize WriteBE64 (concat chunks)))
   \<and> CRIPEMD160_Finalize (foldl CRIPEMD160_Write CRIPEMD160 chunks)
     = concat (map WriteLE32 (md_digest ripemd160_Transform ripemd160_Initialize WriteLE64 (concat chunks)))
   \<and> 64 dvd length (concat chunks @ md_padding WriteBE64 (length (concat chunks)))
   \<and> CHash256_Finalize (foldl CSHA256_Write CSHA256 chunks) = SHA256 (SHA256 (concat chunks))
   \<and> CHash160_Finalize (foldl CSHA256_Write CSHA256 chunks) = RIPEMD160 (SHA256 (concat chunks))"
  unfolding sha256_spec_def [symmetric] sha1_spec_def [symmetric] ripemd160_spec_def [symmetric]
    sha256_hasher.fin_writes sha1_hasher.fin_writes ripemd160_hasher.fin_writes
    hash256_hasher.fin_writes hash160_hasher.fin_writes hash_specs length_append
  by (intro conjI refl padding_length) (simp add: WriteBE64_def length_le_bytes)

end
