(* ===== verification/Interpreter.thy ===== *)
theory Interpreter
  imports Script Hashing "HOL-Library.Signed_Division"
begin

unbundle bit_operations_syntax

text \<open>
  The script interpreter (\<open>script/interpreter.cpp\<close>): signature and public-key encoding checks,
  \<open>FindAndDelete\<close>, \<open>EvalScript\<close> and \<open>VerifyScript\<close>. A stack is a list with the top element first,
  so \<open>stacktop(-i)\<close> is element \<open>i - 1\<close>; likewise \<open>vfExec.back()\<close> is the head. Iterators are suffixes of
  the script. Every \<open>set_error\<close> is an \<open>Inl\<close> result; a \<open>scriptnum_error\<close> is caught by \<open>EvalScript\<close> and
  becomes \<open>SCRIPT_ERR_UNKNOWN_ERROR\<close>. The virtual functions of \<open>BaseSignatureChecker\<close> and the two
  entry points of libsecp256k1 are the fields of a record that the definitions take.
\<close>

section \<open>Errors, flags and the checker interface\<close>

datatype ScriptError =
    SCRIPT_ERR_OK
  | SCRIPT_ERR_UNKNOWN_ERROR
  | SCRIPT_ERR_EVAL_FALSE
  | SCRIPT_ERR_OP_RETURN
  | SCRIPT_ERR_SCRIPT_SIZE
  | SCRIPT_ERR_PUSH_SIZE
  | SCRIPT_ERR_OP_COUNT
  | SCRIPT_ERR_STACK_SIZE
  | SCRIPT_ERR_SIG_COUNT
  | SCRIPT_ERR_PUBKEY_COUNT
  | SCRIPT_ERR_VERIFY
  | SCRIPT_ERR_EQUALVERIFY
  | SCRIPT_ERR_CHECKMULTISIGVERIFY
  | SCRIPT_ERR_CHECKSIGVERIFY
  | SCRIPT_ERR_CHECKDATASIGVERIFY
  | SCRIPT_ERR_NUMEQUALVERIFY
  | SCRIPT_ERR_BAD_OPCODE
  | SCRIPT_ERR_DISABLED_OPCODE
  | SCRIPT_ERR_INVALID_STACK_OPERATION
  | SCRIPT_ERR_INVALID_ALTSTACK_OPERATION
  | SCRIPT_ERR_UNBALANCED_CONDITIONAL
  | SCRIPT_ERR_INVALID_SPLIT_RANGE
  | SCRIPT_ERR_INVALID_OPERAND_SIZE
  | SCRIPT_ERR_INVALID_NUMBER_RANGE
  | SCRIPT_ERR_IMPOSSIBLE_ENCODING
  | SCRIPT_ERR_DIV_BY_ZERO
  | SCRIPT_ERR_MOD_BY_ZERO
  | SCRIPT_ERR_NEGATIVE_LOCKTIME
  | SCRIPT_ERR_UNSATISFIED_LOCKTIME
  | SCRIPT_ERR_SIG_HASHTYPE
  | SCRIPT_ERR_SIG_DER
  | SCRIPT_ERR_MINIMALDATA
  | SCRIPT_ERR_SIG_PUSHONLY
  | SCRIPT_ERR_SIG_HIGH_S
  | SCRIPT_ERR_SIG_NULLDUMMY
  | SCRIPT_ERR_PUBKEYTYPE
  | SCRIPT_ERR_CLEANSTACK
  | SCRIPT_ERR_SIG_NULLFAIL
  | SCRIPT_ERR_DISCOURAGE_UPGRADABLE_NOPS
  | SCRIPT_ERR_OP_CODESEPARATOR
  | SCRIPT_ERR_SIG_FINDANDDELETE
  | SCRIPT_ERR_ERROR_COUNT

definition SCRIPT_VERIFY_P2SH :: u32 where "SCRIPT_VERIFY_P2SH = push_bit 0 1"
definition SCRIPT_VERIFY_STRICTENC :: u32 where "SCRIPT_VERIFY_STRICTENC = push_bit 1 1"
definition SCRIPT_VERIFY_DERSIG :: u32 where "SCRIPT_VERIFY_DERSIG = push_bit 2 1"
definition SCRIPT_VERIFY_LOW_S :: u32 where "SCRIPT_VERIFY_LOW_S = push_bit 3 1"
definition SCRIPT_VERIFY_NULLDUMMY :: u32 where "SCRIPT_VERIFY_NULLDUMMY = push_bit 4 1"
definition SCRIPT_VERIFY_SIGPUSHONLY :: u32 where "SCRIPT_VERIFY_SIGPUSHONLY = push_bit 5 1"
definition SCRIPT_VERIFY_MINIMALDATA :: u32 where "SCRIPT_VERIFY_MINIMALDATA = push_bit 6 1"
definition SCRIPT_VERIFY_DISCOURAGE_UPGRADABLE_NOPS :: u32 where "SCRIPT_VERIFY_DISCOURAGE_UPGRADABLE_NOPS = push_bit 7 1"
definition SCRIPT_VERIFY_CLEANSTACK :: u32 where "SCRIPT_VERIFY_CLEANSTACK = push_bit 8 1"
definition SCRIPT_VERIFY_CHECKLOCKTIMEVERIFY :: u32 where "SCRIPT_VERIFY_CHECKLOCKTIMEVERIFY = push_bit 9 1"
definition SCRIPT_VERIFY_CHECKSEQUENCEVERIFY :: u32 where "SCRIPT_VERIFY_CHECKSEQUENCEVERIFY = push_bit 10 1"
definition SCRIPT_VERIFY_NULLFAIL :: u32 where "SCRIPT_VERIFY_NULLFAIL = push_bit 14 1"
definition SCRIPT_ENABLE_DIP0020_OPCODES :: u32 where "SCRIPT_ENABLE_DIP0020_OPCODES = push_bit 15 1"
definition SCRIPT_VERIFY_CONST_SCRIPTCODE :: u32 where "SCRIPT_VERIFY_CONST_SCRIPTCODE = push_bit 16 1"

definition flag :: "u32 \<Rightarrow> u32 \<Rightarrow> bool" where
  "flag flags f \<longleftrightarrow> flags AND f \<noteq> 0"

record sig_checker =
  CheckSig :: "bytes \<Rightarrow> bytes \<Rightarrow> bytes \<Rightarrow> bool"
  CheckLockTime :: "int \<Rightarrow> bool"
  CheckSequence :: "int \<Rightarrow> bool"
  CheckLowS :: "bytes \<Rightarrow> bool"
  VerifyHash :: "bytes \<Rightarrow> bytes \<Rightarrow> bytes \<Rightarrow> bool"

section \<open>Encoding checks\<close>

fun CastToBool :: "bytes \<Rightarrow> bool" where
  "CastToBool [] = False"
| "CastToBool (b # vch) =
     (if b \<noteq> 0 then (if vch = [] \<and> b = 0x80 then False else True) else CastToBool vch)"

definition IsCompressedOrUncompressedPubKey :: "bytes \<Rightarrow> bool" where
  "IsCompressedOrUncompressedPubKey vchPubKey =
     (if length vchPubKey < 33 then False
      else if vchPubKey ! 0 = 0x04 then length vchPubKey = 65
      else if vchPubKey ! 0 = 0x02 \<or> vchPubKey ! 0 = 0x03 then length vchPubKey = 33
      else False)"

definition IsValidSignatureEncoding :: "bytes \<Rightarrow> bool" where
  "IsValidSignatureEncoding sig =
     (if length sig < 9 then False
      else if length sig > 73 then False
      else if sig ! 0 \<noteq> 0x30 then False
      else if unat (sig ! 1) \<noteq> length sig - 3 then False
      else let lenR = unat (sig ! 3) in
        if 5 + lenR \<ge> length sig then False
        else let lenS = unat (sig ! (5 + lenR)) in
          if lenR + lenS + 7 \<noteq> length sig then False
          else if sig ! 2 \<noteq> 0x02 then False
          else if lenR = 0 then False
          else if sig ! 4 AND 0x80 \<noteq> 0 then False
          else if lenR > 1 \<and> sig ! 4 = 0 \<and> sig ! 5 AND 0x80 = 0 then False
          else if sig ! (lenR + 4) \<noteq> 0x02 then False
          else if lenS = 0 then False
          else if sig ! (lenR + 6) AND 0x80 \<noteq> 0 then False
          else if lenS > 1 \<and> sig ! (lenR + 6) = 0 \<and> sig ! (lenR + 7) AND 0x80 = 0 then False
          else True)"

definition IsLowDERSignature :: "sig_checker \<Rightarrow> bytes \<Rightarrow> ScriptError + unit" where
  "IsLowDERSignature chk vchSig =
     (if \<not> IsValidSignatureEncoding vchSig then Inl SCRIPT_ERR_SIG_DER
      else if \<not> CheckLowS chk (butlast vchSig) then Inl SCRIPT_ERR_SIG_HIGH_S
      else Inr ())"

definition IsDefinedHashtypeSignature :: "bytes \<Rightarrow> bool" where
  "IsDefinedHashtypeSignature vchSig =
     (if vchSig = [] then False
      else let nHashType = unat (last vchSig AND NOT 0x80)
           in if nHashType < 1 \<or> nHashType > 3 then False else True)"

definition CheckSignatureEncoding :: "sig_checker \<Rightarrow> u32 \<Rightarrow> bytes \<Rightarrow> ScriptError + unit" where
  "CheckSignatureEncoding chk flags vchSig =
     (if vchSig = [] then Inr ()
      else if flag flags (SCRIPT_VERIFY_DERSIG OR SCRIPT_VERIFY_LOW_S OR SCRIPT_VERIFY_STRICTENC)
              \<and> \<not> IsValidSignatureEncoding vchSig then Inl SCRIPT_ERR_SIG_DER
      else if flag flags SCRIPT_VERIFY_LOW_S \<and> IsLowDERSignature chk vchSig \<noteq> Inr ()
        then IsLowDERSignature chk vchSig
      else if flag flags SCRIPT_VERIFY_STRICTENC \<and> \<not> IsDefinedHashtypeSignature vchSig
        then Inl SCRIPT_ERR_SIG_HASHTYPE
      else Inr ())"

definition CheckPubKeyEncoding :: "u32 \<Rightarrow> bytes \<Rightarrow> ScriptError + unit" where
  "CheckPubKeyEncoding flags vchPubKey =
     (if flag flags SCRIPT_VERIFY_STRICTENC \<and> \<not> IsCompressedOrUncompressedPubKey vchPubKey
      then Inl SCRIPT_ERR_PUBKEYTYPE else Inr ())"

definition CheckMinimalPush :: "bytes \<Rightarrow> opcodetype \<Rightarrow> bool" where
  "CheckMinimalPush data opcode =
     (if length data = 0 then opcode = OP_0
      else if length data = 1 \<and> 1 \<le> unat (data ! 0) \<and> unat (data ! 0) \<le> 16 then False
      else if length data = 1 \<and> data ! 0 = 0x81 then False
      else if length data \<le> 75 then opcode = length data
      else if length data \<le> 255 then opcode = OP_PUSHDATA1
      else if length data \<le> 65535 then opcode = OP_PUSHDATA2
      else True)"

section \<open>\<open>FindAndDelete\<close>\<close>

text \<open>The inner loop skips occurrences of \<open>b\<close> at \<open>pc\<close> and counts them.\<close>

function skip_matches :: "bytes \<Rightarrow> bytes \<Rightarrow> bytes \<times> nat" where
  "skip_matches b pc =
     (if b \<noteq> [] \<and> length pc \<ge> length b \<and> take (length b) pc = b
      then map_prod id Suc (skip_matches b (drop (length b) pc))
      else (pc, 0))"
  by pat_completeness auto
termination by (relation "measure (\<lambda>(_, pc). length pc)") (auto simp flip: length_greater_0_conv)

declare skip_matches.simps [simp del]

lemma length_skip_matches: "length (fst (skip_matches b pc)) \<le> length pc"
proof (induction b pc rule: skip_matches.induct)
  case (1 b pc)
  then show ?case by (subst skip_matches.simps) force
qed

text \<open>
  The outer loop: skip, decode one instruction, copy it to \<open>result\<close>. It returns \<open>result\<close>, the
  suffix \<open>pc2\<close> at which decoding stopped, and the number of deletions.
\<close>

function find_delete_loop :: "bytes \<Rightarrow> bytes \<Rightarrow> bytes \<times> bytes \<times> nat" where
  "find_delete_loop b pc =
     (let (pc2, n) = skip_matches b pc
      in case GetScriptOp pc2 of
           None \<Rightarrow> ([], pc2, n)
         | Some (_, _, pc1) \<Rightarrow>
             (case find_delete_loop b pc1 of
                (result, pc3, m) \<Rightarrow> (take (length pc2 - length pc1) pc2 @ result, pc3, n + m)))"
  by pat_completeness auto
termination
proof (relation "measure (\<lambda>(_, pc). length pc)", goal_cases)
  case (2 b pc x pc2 n x1 op x2 v pc1)
  then show ?case
    using length_skip_matches [of b pc] by (cases "skip_matches b pc") (auto dest!: GetScriptOp_rest_less)
qed simp

declare find_delete_loop.simps [simp del]

definition FindAndDelete :: "bytes \<Rightarrow> bytes \<Rightarrow> bytes \<times> nat" where
  "FindAndDelete script b =
     (if b = [] then (script, 0)
      else case find_delete_loop b script of
             (result, pc2, nFound) \<Rightarrow> if nFound > 0 then (result @ pc2, nFound) else (script, 0))"

end
