(* ===== verification/Execution.thy ===== *)
theory Execution
  imports Interpreter
begin

unbundle bit_operations_syntax

text \<open>
  \<open>EvalScript\<close> and \<open>VerifyScript\<close> (\<open>script/interpreter.cpp\<close>). Each \<open>case\<close> group of the big switch is a
  definition from the stack to the new stack or the error it returns; \<open>exec_opcode\<close> is the
  switch, \<open>eval_step\<close> one iteration of the loop and \<open>eval_loop\<close> the loop over the script.
\<close>

section \<open>Operators\<close>

text \<open>Reading a stack element as a number; the exception ends in the handler of \<open>EvalScript\<close>.\<close>

definition script_num :: "u32 \<Rightarrow> nat \<Rightarrow> bytes \<Rightarrow> ScriptError + int" where
  "script_num flags nMaxNumSize vch =
     (case CScriptNum vch (flag flags SCRIPT_VERIFY_MINIMALDATA) nMaxNumSize of
        Inl _ \<Rightarrow> Inl SCRIPT_ERR_UNKNOWN_ERROR
      | Inr n \<Rightarrow> Inr n)"

definition vchBool :: "bool \<Rightarrow> bytes" where
  "vchBool b = (if b then [1] else [])"

text \<open>Pushing a truth value, for the \<open>VERIFY\<close> variant popping it again or failing.\<close>

definition push_bool :: "bool \<Rightarrow> ScriptError \<Rightarrow> bool \<Rightarrow> bytes list \<Rightarrow> ScriptError + bytes list" where
  "push_bool verify err b stack =
     (if verify then if b then Inr stack else Inl err else Inr (vchBool b # stack))"

definition SEQUENCE_LOCKTIME_DISABLE_FLAG :: int where
  "SEQUENCE_LOCKTIME_DISABLE_FLAG = 2 ^ 31"

definition op_checklocktimeverify ::
  "sig_checker \<Rightarrow> u32 \<Rightarrow> bytes list \<Rightarrow> ScriptError + bytes list" where
  "op_checklocktimeverify chk flags stack =
     (if \<not> flag flags SCRIPT_VERIFY_CHECKLOCKTIMEVERIFY then Inr stack
      else if length stack < 1 then Inl SCRIPT_ERR_INVALID_STACK_OPERATION
      else bindE (script_num flags 5 (stack ! 0)) (\<lambda>nLockTime.
        if nLockTime < 0 then Inl SCRIPT_ERR_NEGATIVE_LOCKTIME
        else if \<not> CheckLockTime chk nLockTime then Inl SCRIPT_ERR_UNSATISFIED_LOCKTIME
        else Inr stack))"

definition op_checksequenceverify ::
  "sig_checker \<Rightarrow> u32 \<Rightarrow> bytes list \<Rightarrow> ScriptError + bytes list" where
  "op_checksequenceverify chk flags stack =
     (if \<not> flag flags SCRIPT_VERIFY_CHECKSEQUENCEVERIFY then Inr stack
      else if length stack < 1 then Inl SCRIPT_ERR_INVALID_STACK_OPERATION
      else bindE (script_num flags 5 (stack ! 0)) (\<lambda>nSequence.
        if nSequence < 0 then Inl SCRIPT_ERR_NEGATIVE_LOCKTIME
        else if nSequence AND SEQUENCE_LOCKTIME_DISABLE_FLAG \<noteq> 0 then Inr stack
        else if \<not> CheckSequence chk nSequence then Inl SCRIPT_ERR_UNSATISFIED_LOCKTIME
        else Inr stack))"

definition op_upgradable_nop :: "u32 \<Rightarrow> bytes list \<Rightarrow> ScriptError + bytes list" where
  "op_upgradable_nop flags stack =
     (if flag flags SCRIPT_VERIFY_DISCOURAGE_UPGRADABLE_NOPS
      then Inl SCRIPT_ERR_DISCOURAGE_UPGRADABLE_NOPS else Inr stack)"

definition op_verify :: "bytes list \<Rightarrow> ScriptError + bytes list" where
  "op_verify stack =
     (case stack of
        [] \<Rightarrow> Inl SCRIPT_ERR_INVALID_STACK_OPERATION
      | x # r \<Rightarrow> if CastToBool x then Inr r else Inl SCRIPT_ERR_VERIFY)"

text \<open>The stack operators that need no number; a pattern that fails is the size check.\<close>

definition stack_op :: "opcodetype \<Rightarrow> bytes list \<Rightarrow> bytes list option" where
  "stack_op opcode stack =
     (if opcode = OP_2DROP then (case stack of x2 # x1 # r \<Rightarrow> Some r | _ \<Rightarrow> None)
      else if opcode = OP_2DUP then
        (case stack of x2 # x1 # r \<Rightarrow> Some (x2 # x1 # x2 # x1 # r) | _ \<Rightarrow> None)
      else if opcode = OP_3DUP then
        (case stack of x3 # x2 # x1 # r \<Rightarrow> Some (x3 # x2 # x1 # x3 # x2 # x1 # r) | _ \<Rightarrow> None)
      else if opcode = OP_2OVER then
        (case stack of x4 # x3 # x2 # x1 # r \<Rightarrow> Some (x2 # x1 # x4 # x3 # x2 # x1 # r) | _ \<Rightarrow> None)
      else if opcode = OP_2ROT then
        (case stack of x6 # x5 # x4 # x3 # x2 # x1 # r \<Rightarrow>
           Some (x2 # x1 # x6 # x5 # x4 # x3 # r) | _ \<Rightarrow> None)
      else if opcode = OP_2SWAP then
        (case stack of x4 # x3 # x2 # x1 # r \<Rightarrow> Some (x2 # x1 # x4 # x3 # r) | _ \<Rightarrow> None)
      else if opcode = OP_IFDUP then
        (case stack of x # r \<Rightarrow> Some (if CastToBool x then x # x # r else x # r) | _ \<Rightarrow> None)
      else if opcode = OP_DEPTH then Some (serialize_num (int (length stack)) # stack)
      else if opcode = OP_DROP then (case stack of x # r \<Rightarrow> Some r | _ \<Rightarrow> None)
      else if opcode = OP_DUP then (case stack of x # r \<Rightarrow> Some (x # x # r) | _ \<Rightarrow> None)
      else if opcode = OP_NIP then (case stack of x2 # x1 # r \<Rightarrow> Some (x2 # r) | _ \<Rightarrow> None)
      else if opcode = OP_OVER then (case stack of x2 # x1 # r \<Rightarrow> Some (x1 # x2 # x1 # r) | _ \<Rightarrow> None)
      else if opcode = OP_ROT then
        (case stack of x3 # x2 # x1 # r \<Rightarrow> Some (x1 # x3 # x2 # r) | _ \<Rightarrow> None)
      else if opcode = OP_SWAP then (case stack of x2 # x1 # r \<Rightarrow> Some (x1 # x2 # r) | _ \<Rightarrow> None)
      else if opcode = OP_TUCK then (case stack of x2 # x1 # r \<Rightarrow> Some (x2 # x1 # x2 # r) | _ \<Rightarrow> None)
      else if opcode = OP_SIZE then
        (case stack of x # r \<Rightarrow> Some (serialize_num (int (length x)) # x # r) | _ \<Rightarrow> None)
      else None)"

definition stack_ops :: "opcodetype list" where
  "stack_ops = [OP_2DROP, OP_2DUP, OP_3DUP, OP_2OVER, OP_2ROT, OP_2SWAP, OP_IFDUP, OP_DEPTH,
     OP_DROP, OP_DUP, OP_NIP, OP_OVER, OP_ROT, OP_SWAP, OP_TUCK, OP_SIZE]"

definition op_pick_roll :: "u32 \<Rightarrow> opcodetype \<Rightarrow> bytes list \<Rightarrow> ScriptError + bytes list" where
  "op_pick_roll flags opcode stack =
     (if length stack < 2 then Inl SCRIPT_ERR_INVALID_STACK_OPERATION
      else bindE (script_num flags nDefaultMaxNumSize (stack ! 0)) (\<lambda>bn.
        let n = getint bn; r = tl stack
        in if n < 0 \<or> n \<ge> int (length r) then Inl SCRIPT_ERR_INVALID_STACK_OPERATION
           else let vch = r ! nat n;
                    r1 = (if opcode = OP_ROLL then take (nat n) r @ drop (nat n + 1) r else r)
                in Inr (vch # r1)))"

definition op_equal :: "opcodetype \<Rightarrow> bytes list \<Rightarrow> ScriptError + bytes list" where
  "op_equal opcode stack =
     (case stack of
        x2 # x1 # r \<Rightarrow> push_bool (opcode = OP_EQUALVERIFY) SCRIPT_ERR_EQUALVERIFY (x1 = x2) r
      | _ \<Rightarrow> Inl SCRIPT_ERR_INVALID_STACK_OPERATION)"

definition op_bitwise :: "opcodetype \<Rightarrow> bytes list \<Rightarrow> ScriptError + bytes list" where
  "op_bitwise opcode stack =
     (case stack of
        x2 # x1 # r \<Rightarrow>
          if length x1 \<noteq> length x2 then Inl SCRIPT_ERR_INVALID_OPERAND_SIZE
          else let f = (if opcode = OP_AND then (AND) else if opcode = OP_OR then (OR) else (XOR))
               in Inr (map2 f x1 x2 # r)
      | _ \<Rightarrow> Inl SCRIPT_ERR_INVALID_STACK_OPERATION)"

definition unary_num :: "opcodetype \<Rightarrow> int \<Rightarrow> int" where
  "unary_num opcode bn =
     (if opcode = OP_1ADD then bn + 1
      else if opcode = OP_1SUB then bn - 1
      else if opcode = OP_NEGATE then - bn
      else if opcode = OP_ABS then (if bn < 0 then - bn else bn)
      else if opcode = OP_NOT then of_bool (bn = 0)
      else of_bool (bn \<noteq> 0))"

definition unary_num_ops :: "opcodetype list" where
  "unary_num_ops = [OP_1ADD, OP_1SUB, OP_NEGATE, OP_ABS, OP_NOT, OP_0NOTEQUAL]"

definition op_unary_num :: "u32 \<Rightarrow> opcodetype \<Rightarrow> bytes list \<Rightarrow> ScriptError + bytes list" where
  "op_unary_num flags opcode stack =
     (case stack of
        x # r \<Rightarrow> bindE (script_num flags nDefaultMaxNumSize x) (\<lambda>bn.
          Inr (serialize_num (unary_num opcode bn) # r))
      | _ \<Rightarrow> Inl SCRIPT_ERR_INVALID_STACK_OPERATION)"

definition binary_num :: "opcodetype \<Rightarrow> int \<Rightarrow> int \<Rightarrow> ScriptError + int" where
  "binary_num opcode bn1 bn2 =
     (if opcode = OP_ADD then Inr (bn1 + bn2)
      else if opcode = OP_SUB then Inr (bn1 - bn2)
      else if opcode = OP_DIV then
        if bn2 = 0 then Inl SCRIPT_ERR_DIV_BY_ZERO else Inr (bn1 sdiv bn2)
      else if opcode = OP_MOD then
        if bn2 = 0 then Inl SCRIPT_ERR_MOD_BY_ZERO else Inr (bn1 smod bn2)
      else if opcode = OP_BOOLAND then Inr (of_bool (bn1 \<noteq> 0 \<and> bn2 \<noteq> 0))
      else if opcode = OP_BOOLOR then Inr (of_bool (bn1 \<noteq> 0 \<or> bn2 \<noteq> 0))
      else if opcode = OP_NUMEQUAL \<or> opcode = OP_NUMEQUALVERIFY then Inr (of_bool (bn1 = bn2))
      else if opcode = OP_NUMNOTEQUAL then Inr (of_bool (bn1 \<noteq> bn2))
      else if opcode = OP_LESSTHAN then Inr (of_bool (bn1 < bn2))
      else if opcode = OP_GREATERTHAN then Inr (of_bool (bn1 > bn2))
      else if opcode = OP_LESSTHANOREQUAL then Inr (of_bool (bn1 \<le> bn2))
      else if opcode = OP_GREATERTHANOREQUAL then Inr (of_bool (bn1 \<ge> bn2))
      else if opcode = OP_MIN then Inr (if bn1 < bn2 then bn1 else bn2)
      else Inr (if bn1 > bn2 then bn1 else bn2))"

definition binary_num_ops :: "opcodetype list" where
  "binary_num_ops = [OP_ADD, OP_SUB, OP_DIV, OP_MOD, OP_BOOLAND, OP_BOOLOR, OP_NUMEQUAL,
     OP_NUMEQUALVERIFY, OP_NUMNOTEQUAL, OP_LESSTHAN, OP_GREATERTHAN, OP_LESSTHANOREQUAL,
     OP_GREATERTHANOREQUAL, OP_MIN, OP_MAX]"

definition op_binary_num :: "u32 \<Rightarrow> opcodetype \<Rightarrow> bytes list \<Rightarrow> ScriptError + bytes list" where
  "op_binary_num flags opcode stack =
     (case stack of
        x2 # x1 # r \<Rightarrow>
          bindE (script_num flags nDefaultMaxNumSize x1) (\<lambda>bn1.
          bindE (script_num flags nDefaultMaxNumSize x2) (\<lambda>bn2.
          bindE (binary_num opcode bn1 bn2) (\<lambda>bn.
            if opcode = OP_NUMEQUALVERIFY then
              if CastToBool (serialize_num bn) then Inr r else Inl SCRIPT_ERR_NUMEQUALVERIFY
            else Inr (serialize_num bn # r))))
      | _ \<Rightarrow> Inl SCRIPT_ERR_INVALID_STACK_OPERATION)"

definition op_within :: "u32 \<Rightarrow> bytes list \<Rightarrow> ScriptError + bytes list" where
  "op_within flags stack =
     (case stack of
        x3 # x2 # x1 # r \<Rightarrow>
          bindE (script_num flags nDefaultMaxNumSize x1) (\<lambda>bn1.
          bindE (script_num flags nDefaultMaxNumSize x2) (\<lambda>bn2.
          bindE (script_num flags nDefaultMaxNumSize x3) (\<lambda>bn3.
            Inr (vchBool (bn2 \<le> bn1 \<and> bn1 < bn3) # r))))
      | _ \<Rightarrow> Inl SCRIPT_ERR_INVALID_STACK_OPERATION)"

definition hash_op :: "opcodetype \<Rightarrow> bytes \<Rightarrow> bytes" where
  "hash_op opcode vch =
     (if opcode = OP_RIPEMD160 then RIPEMD160 vch
      else if opcode = OP_SHA1 then SHA1 vch
      else if opcode = OP_SHA256 then SHA256 vch
      else if opcode = OP_HASH160 then HASH160 vch
      else HASH256 vch)"

definition op_hash :: "opcodetype \<Rightarrow> bytes list \<Rightarrow> ScriptError + bytes list" where
  "op_hash opcode stack =
     (case stack of
        x # r \<Rightarrow> Inr (hash_op opcode x # r)
      | _ \<Rightarrow> Inl SCRIPT_ERR_INVALID_STACK_OPERATION)"

section \<open>Signature operators\<close>

text \<open>Dropping the pushes of the signatures from the script code, one signature after the other.\<close>

fun delete_sigs :: "u32 \<Rightarrow> bytes list \<Rightarrow> bytes \<Rightarrow> ScriptError + bytes" where
  "delete_sigs flags [] scriptCode = Inr scriptCode"
| "delete_sigs flags (vchSig # sigs) scriptCode =
     (case FindAndDelete scriptCode (push_vector vchSig) of
        (scriptCode1, found) \<Rightarrow>
          if found > 0 \<and> flag flags SCRIPT_VERIFY_CONST_SCRIPTCODE
          then Inl SCRIPT_ERR_SIG_FINDANDDELETE
          else delete_sigs flags sigs scriptCode1)"

definition check_encodings :: "sig_checker \<Rightarrow> u32 \<Rightarrow> bytes \<Rightarrow> bytes \<Rightarrow> ScriptError + unit" where
  "check_encodings chk flags vchSig vchPubKey =
     bindE (CheckSignatureEncoding chk flags vchSig) (\<lambda>_. CheckPubKeyEncoding flags vchPubKey)"

definition op_checksig ::
  "sig_checker \<Rightarrow> u32 \<Rightarrow> opcodetype \<Rightarrow> bytes \<Rightarrow> bytes list \<Rightarrow> ScriptError + bytes list" where
  "op_checksig chk flags opcode codehash stack =
     (case stack of
        vchPubKey # vchSig # r \<Rightarrow>
          bindE (delete_sigs flags [vchSig] codehash) (\<lambda>scriptCode.
          bindE (check_encodings chk flags vchSig vchPubKey) (\<lambda>_.
            let fSuccess = CheckSig chk vchSig vchPubKey scriptCode
            in if \<not> fSuccess \<and> flag flags SCRIPT_VERIFY_NULLFAIL \<and> vchSig \<noteq> []
               then Inl SCRIPT_ERR_SIG_NULLFAIL
               else push_bool (opcode = OP_CHECKSIGVERIFY) SCRIPT_ERR_CHECKSIGVERIFY fSuccess r))
      | _ \<Rightarrow> Inl SCRIPT_ERR_INVALID_STACK_OPERATION)"

definition op_checkdatasig ::
  "sig_checker \<Rightarrow> u32 \<Rightarrow> opcodetype \<Rightarrow> bytes list \<Rightarrow> ScriptError + bytes list" where
  "op_checkdatasig chk flags opcode stack =
     (case stack of
        vchPubKey # vchMessage # vchSig # r \<Rightarrow>
          bindE (check_encodings chk flags vchSig vchPubKey) (\<lambda>_.
            let fSuccess = (vchSig \<noteq> [] \<and> VerifyHash chk vchPubKey (SHA256 vchMessage) vchSig)
            in if \<not> fSuccess \<and> flag flags SCRIPT_VERIFY_NULLFAIL \<and> vchSig \<noteq> []
               then Inl SCRIPT_ERR_SIG_NULLFAIL
               else push_bool (opcode = OP_CHECKDATASIGVERIFY) SCRIPT_ERR_CHECKDATASIGVERIFY fSuccess r)
      | _ \<Rightarrow> Inl SCRIPT_ERR_INVALID_STACK_OPERATION)"

text \<open>
  The matching loop of \<open>CHECKMULTISIG\<close> on the signatures and keys that are left, both from the top
  of the stack down. The caller has checked that there are no more signatures than keys, and
  the loop stops as soon as that fails, so the last equation is not reached.
\<close>

fun multisig_loop ::
  "sig_checker \<Rightarrow> u32 \<Rightarrow> bytes \<Rightarrow> bytes list \<Rightarrow> bytes list \<Rightarrow> ScriptError + bool" where
  "multisig_loop chk flags scriptCode [] keys = Inr True"
| "multisig_loop chk flags scriptCode (vchSig # sigs) (vchPubKey # keys) =
     bindE (check_encodings chk flags vchSig vchPubKey) (\<lambda>_.
       let fOk = CheckSig chk vchSig vchPubKey scriptCode;
           sigs1 = (if fOk then sigs else vchSig # sigs)
       in if length sigs1 > length keys then Inr False
          else multisig_loop chk flags scriptCode sigs1 keys)"
| "multisig_loop chk flags scriptCode (vchSig # sigs) [] = Inr False"

text \<open>The clean-up loop: \<open>n\<close> elements are popped, \<open>ikey2\<close> of them before the signatures start.\<close>

fun multisig_cleanup :: "u32 \<Rightarrow> bool \<Rightarrow> nat \<Rightarrow> nat \<Rightarrow> bytes list \<Rightarrow> ScriptError + bytes list" where
  "multisig_cleanup flags fSuccess 0 ikey2 stack = Inr stack"
| "multisig_cleanup flags fSuccess (Suc n) ikey2 stack =
     (if \<not> fSuccess \<and> flag flags SCRIPT_VERIFY_NULLFAIL \<and> ikey2 = 0 \<and> stack ! 0 \<noteq> []
      then Inl SCRIPT_ERR_SIG_NULLFAIL
      else multisig_cleanup flags fSuccess n (ikey2 - 1) (tl stack))"

text \<open>
  \<open>CHECKMULTISIG\<close>: the arguments are read from the stack top down, the operation count grows by
  the number of keys, and one extra element is consumed.
\<close>

definition op_checkmultisig ::
  "sig_checker \<Rightarrow> u32 \<Rightarrow> opcodetype \<Rightarrow> bytes \<Rightarrow> nat \<Rightarrow> bytes list \<Rightarrow> ScriptError + (nat \<times> bytes list)"
where
  "op_checkmultisig chk flags opcode codehash nOpCount stack =
     (if length stack < 1 then Inl SCRIPT_ERR_INVALID_STACK_OPERATION
      else bindE (script_num flags nDefaultMaxNumSize (stack ! 0)) (\<lambda>bnKeys.
        let nKeysCount = getint bnKeys; nKeys = nat nKeysCount; nOpCount1 = nOpCount + nKeys
        in if nKeysCount < 0 \<or> nKeysCount > int MAX_PUBKEYS_PER_MULTISIG then Inl SCRIPT_ERR_PUBKEY_COUNT
           else if nOpCount1 > MAX_OPS_PER_SCRIPT then Inl SCRIPT_ERR_OP_COUNT
           else if length stack < 2 + nKeys then Inl SCRIPT_ERR_INVALID_STACK_OPERATION
           else bindE (script_num flags nDefaultMaxNumSize (stack ! (1 + nKeys))) (\<lambda>bnSigs.
             let nSigsCount = getint bnSigs; nSigs = nat nSigsCount;
                 keys = take nKeys (drop 1 stack); sigs = take nSigs (drop (2 + nKeys) stack)
             in if nSigsCount < 0 \<or> nSigsCount > nKeysCount then Inl SCRIPT_ERR_SIG_COUNT
                else if length stack < 3 + nKeys + nSigs then Inl SCRIPT_ERR_INVALID_STACK_OPERATION
                else bindE (delete_sigs flags sigs codehash) (\<lambda>scriptCode.
                     bindE (multisig_loop chk flags scriptCode sigs keys) (\<lambda>fSuccess.
                     bindE (multisig_cleanup flags fSuccess (2 + nKeys + nSigs) (nKeys + 2) stack) (\<lambda>stack1.
                     case stack1 of
                       [] \<Rightarrow> Inl SCRIPT_ERR_INVALID_STACK_OPERATION
                     | dummy # r \<Rightarrow>
                         if flag flags SCRIPT_VERIFY_NULLDUMMY \<and> dummy \<noteq> [] then Inl SCRIPT_ERR_SIG_NULLDUMMY
                         else map_sum id (Pair nOpCount1)
                                (push_bool (opcode = OP_CHECKMULTISIGVERIFY)
                                   SCRIPT_ERR_CHECKMULTISIGVERIFY fSuccess r)))))))"

section \<open>Splice and conversion operators\<close>

definition op_cat :: "bytes list \<Rightarrow> ScriptError + bytes list" where
  "op_cat stack =
     (case stack of
        x2 # x1 # r \<Rightarrow>
          if length x1 + length x2 > MAX_SCRIPT_ELEMENT_SIZE then Inl SCRIPT_ERR_PUSH_SIZE
          else Inr ((x1 @ x2) # r)
      | _ \<Rightarrow> Inl SCRIPT_ERR_INVALID_STACK_OPERATION)"

definition op_split :: "u32 \<Rightarrow> bytes list \<Rightarrow> ScriptError + bytes list" where
  "op_split flags stack =
     (case stack of
        x2 # vch # r \<Rightarrow>
          bindE (script_num flags nDefaultMaxNumSize x2) (\<lambda>bn.
            let nPosition = getint bn
            in if nPosition < 0 \<or> nPosition > int (length vch) then Inl SCRIPT_ERR_INVALID_SPLIT_RANGE
               else if nPosition = 0 then Inr (vch # [] # r)
               else if nPosition = int (length vch) then Inr ([] # vch # r)
               else Inr (drop (nat nPosition) vch # take (nat nPosition) vch # r))
      | _ \<Rightarrow> Inl SCRIPT_ERR_INVALID_STACK_OPERATION)"

text \<open>The padding of \<open>NUM2BIN\<close>, for a minimally encoded number shorter than \<open>nSize\<close>.\<close>

definition pad_num :: "bytes \<Rightarrow> nat \<Rightarrow> bytes" where
  "pad_num rawnum nSize =
     (let signbit = (if rawnum \<noteq> [] then last rawnum AND 0x80 else 0);
          raw1 = (if rawnum \<noteq> [] then butlast rawnum @ [last rawnum AND 0x7F] else rawnum)
      in raw1 @ replicate (nSize - 1 - length raw1) 0 @ [signbit])"

definition op_num2bin :: "u32 \<Rightarrow> bytes list \<Rightarrow> ScriptError + bytes list" where
  "op_num2bin flags stack =
     (case stack of
        x2 # x1 # r \<Rightarrow>
          bindE (script_num flags nDefaultMaxNumSize x2) (\<lambda>bn.
            let nSize = nat (getint bn mod 2 ^ 64); rawnum = fst (MinimallyEncode x1)
            in if nSize > MAX_SCRIPT_ELEMENT_SIZE then Inl SCRIPT_ERR_PUSH_SIZE
               else if length rawnum > nSize then Inl SCRIPT_ERR_IMPOSSIBLE_ENCODING
               else if length rawnum = nSize then Inr (rawnum # r)
               else Inr (pad_num rawnum nSize # r))
      | _ \<Rightarrow> Inl SCRIPT_ERR_INVALID_STACK_OPERATION)"

definition op_bin2num :: "bytes list \<Rightarrow> ScriptError + bytes list" where
  "op_bin2num stack =
     (case stack of
        x # r \<Rightarrow>
          let n = fst (MinimallyEncode x)
          in if \<not> IsMinimallyEncoded n nDefaultMaxNumSize then Inl SCRIPT_ERR_INVALID_NUMBER_RANGE
             else Inr (n # r)
      | _ \<Rightarrow> Inl SCRIPT_ERR_INVALID_STACK_OPERATION)"

section \<open>The machine\<close>

record exec_state =
  stack :: "bytes list"
  altstack :: "bytes list"
  vfExec :: "bool list"
  nOpCount :: nat
  codehash :: bytes

definition set_stack :: "exec_state \<Rightarrow> ScriptError + bytes list \<Rightarrow> ScriptError + exec_state" where
  "set_stack st r = map_sum id (\<lambda>s. st\<lparr>stack := s\<rparr>) r"

definition op_if :: "opcodetype \<Rightarrow> bool \<Rightarrow> exec_state \<Rightarrow> ScriptError + exec_state" where
  "op_if opcode fExec st =
     (if fExec then
        case stack st of
          [] \<Rightarrow> Inl SCRIPT_ERR_UNBALANCED_CONDITIONAL
        | x # r \<Rightarrow>
            let fValue = (if opcode = OP_NOTIF then \<not> CastToBool x else CastToBool x)
            in Inr (st\<lparr>stack := r, vfExec := fValue # vfExec st\<rparr>)
      else Inr (st\<lparr>vfExec := False # vfExec st\<rparr>))"

definition op_else :: "exec_state \<Rightarrow> ScriptError + exec_state" where
  "op_else st =
     (case vfExec st of
        [] \<Rightarrow> Inl SCRIPT_ERR_UNBALANCED_CONDITIONAL
      | b # r \<Rightarrow> Inr (st\<lparr>vfExec := (\<not> b) # r\<rparr>))"

definition op_endif :: "exec_state \<Rightarrow> ScriptError + exec_state" where
  "op_endif st =
     (case vfExec st of
        [] \<Rightarrow> Inl SCRIPT_ERR_UNBALANCED_CONDITIONAL
      | b # r \<Rightarrow> Inr (st\<lparr>vfExec := r\<rparr>))"

definition op_toaltstack :: "exec_state \<Rightarrow> ScriptError + exec_state" where
  "op_toaltstack st =
     (case stack st of
        [] \<Rightarrow> Inl SCRIPT_ERR_INVALID_STACK_OPERATION
      | x # r \<Rightarrow> Inr (st\<lparr>stack := r, altstack := x # altstack st\<rparr>))"

definition op_fromaltstack :: "exec_state \<Rightarrow> ScriptError + exec_state" where
  "op_fromaltstack st =
     (case altstack st of
        [] \<Rightarrow> Inl SCRIPT_ERR_INVALID_ALTSTACK_OPERATION
      | x # r \<Rightarrow> Inr (st\<lparr>stack := x # stack st, altstack := r\<rparr>))"

text \<open>The switch; \<open>pc\<close> is the rest of the script after the instruction.\<close>

definition exec_opcode ::
  "sig_checker \<Rightarrow> u32 \<Rightarrow> opcodetype \<Rightarrow> bool \<Rightarrow> bytes \<Rightarrow> exec_state \<Rightarrow> ScriptError + exec_state" where
  "exec_opcode chk flags opcode fExec pc st =
     (if opcode = OP_1NEGATE \<or> (OP_1 \<le> opcode \<and> opcode \<le> OP_16) then
        Inr (st\<lparr>stack := serialize_num (int opcode - (int OP_1 - 1)) # stack st\<rparr>)
      else if opcode = OP_NOP then Inr st
      else if opcode = OP_CHECKLOCKTIMEVERIFY then
        set_stack st (op_checklocktimeverify chk flags (stack st))
      else if opcode = OP_CHECKSEQUENCEVERIFY then
        set_stack st (op_checksequenceverify chk flags (stack st))
      else if opcode = OP_NOP1 \<or> (OP_NOP4 \<le> opcode \<and> opcode \<le> OP_NOP10) then
        set_stack st (op_upgradable_nop flags (stack st))
      else if opcode = OP_IF \<or> opcode = OP_NOTIF then op_if opcode fExec st
      else if opcode = OP_ELSE then op_else st
      else if opcode = OP_ENDIF then op_endif st
      else if opcode = OP_VERIFY then set_stack st (op_verify (stack st))
      else if opcode = OP_RETURN then Inl SCRIPT_ERR_OP_RETURN
      else if opcode = OP_TOALTSTACK then op_toaltstack st
      else if opcode = OP_FROMALTSTACK then op_fromaltstack st
      else if opcode \<in> set stack_ops then
        (case stack_op opcode (stack st) of
           None \<Rightarrow> Inl SCRIPT_ERR_INVALID_STACK_OPERATION
         | Some s \<Rightarrow> Inr (st\<lparr>stack := s\<rparr>))
      else if opcode = OP_PICK \<or> opcode = OP_ROLL then
        set_stack st (op_pick_roll flags opcode (stack st))
      else if opcode = OP_EQUAL \<or> opcode = OP_EQUALVERIFY then set_stack st (op_equal opcode (stack st))
      else if opcode = OP_AND \<or> opcode = OP_OR \<or> opcode = OP_XOR then
        set_stack st (op_bitwise opcode (stack st))
      else if opcode \<in> set unary_num_ops then set_stack st (op_unary_num flags opcode (stack st))
      else if opcode \<in> set binary_num_ops then set_stack st (op_binary_num flags opcode (stack st))
      else if opcode = OP_WITHIN then set_stack st (op_within flags (stack st))
      else if OP_RIPEMD160 \<le> opcode \<and> opcode \<le> OP_HASH256 then set_stack st (op_hash opcode (stack st))
      else if opcode = OP_CODESEPARATOR then Inr (st\<lparr>codehash := pc\<rparr>)
      else if opcode = OP_CHECKSIG \<or> opcode = OP_CHECKSIGVERIFY then
        set_stack st (op_checksig chk flags opcode (codehash st) (stack st))
      else if opcode = OP_CHECKDATASIG \<or> opcode = OP_CHECKDATASIGVERIFY then
        set_stack st (op_checkdatasig chk flags opcode (stack st))
      else if opcode = OP_CHECKMULTISIG \<or> opcode = OP_CHECKMULTISIGVERIFY then
        map_sum id (\<lambda>(n, s). st\<lparr>stack := s, nOpCount := n\<rparr>)
          (op_checkmultisig chk flags opcode (codehash st) (nOpCount st) (stack st))
      else if opcode = OP_CAT then set_stack st (op_cat (stack st))
      else if opcode = OP_SPLIT then set_stack st (op_split flags (stack st))
      else if opcode = OP_NUM2BIN then set_stack st (op_num2bin flags (stack st))
      else if opcode = OP_BIN2NUM then set_stack st (op_bin2num (stack st))
      else Inl SCRIPT_ERR_BAD_OPCODE)"

definition dip0020_opcodes :: "opcodetype list" where
  "dip0020_opcodes = [OP_CAT, OP_SPLIT, OP_AND, OP_OR, OP_XOR, OP_DIV, OP_MOD, OP_NUM2BIN, OP_BIN2NUM,
     OP_CHECKDATASIG, OP_CHECKDATASIGVERIFY]"

definition disabled_opcodes :: "opcodetype list" where
  "disabled_opcodes = [OP_INVERT, OP_2MUL, OP_2DIV, OP_MUL, OP_LSHIFT, OP_RSHIFT]"

text \<open>One iteration of the loop, for the decoded instruction.\<close>

definition eval_step ::
  "sig_checker \<Rightarrow> u32 \<Rightarrow> opcodetype \<Rightarrow> bytes \<Rightarrow> bytes \<Rightarrow> exec_state \<Rightarrow> ScriptError + exec_state" where
  "eval_step chk flags opcode vchPushValue pc st =
     (let fExec = list_all id (vfExec st);
          st1 = (if opcode > OP_16 then st\<lparr>nOpCount := nOpCount st + 1\<rparr> else st)
      in if length vchPushValue > MAX_SCRIPT_ELEMENT_SIZE then Inl SCRIPT_ERR_PUSH_SIZE
         else if opcode > OP_16 \<and> nOpCount st1 > MAX_OPS_PER_SCRIPT then Inl SCRIPT_ERR_OP_COUNT
         else if \<not> flag flags SCRIPT_ENABLE_DIP0020_OPCODES \<and> opcode \<in> set dip0020_opcodes
           then Inl SCRIPT_ERR_DISABLED_OPCODE
         else if opcode \<in> set disabled_opcodes then Inl SCRIPT_ERR_DISABLED_OPCODE
         else if opcode = OP_CODESEPARATOR \<and> flag flags SCRIPT_VERIFY_CONST_SCRIPTCODE
           then Inl SCRIPT_ERR_OP_CODESEPARATOR
         else bindE
           (if fExec \<and> opcode \<le> OP_PUSHDATA4 then
              if flag flags SCRIPT_VERIFY_MINIMALDATA \<and> \<not> CheckMinimalPush vchPushValue opcode
              then Inl SCRIPT_ERR_MINIMALDATA
              else Inr (st1\<lparr>stack := vchPushValue # stack st1\<rparr>)
            else if fExec \<or> (OP_IF \<le> opcode \<and> opcode \<le> OP_ENDIF) then
              exec_opcode chk flags opcode fExec pc st1
            else Inr st1)
           (\<lambda>st2. if length (stack st2) + length (altstack st2) > MAX_STACK_SIZE
                  then Inl SCRIPT_ERR_STACK_SIZE else Inr st2))"

function eval_loop :: "sig_checker \<Rightarrow> u32 \<Rightarrow> bytes \<Rightarrow> exec_state \<Rightarrow> ScriptError + exec_state" where
  "eval_loop chk flags pc st =
     (if pc = [] then Inr st
      else case GetScriptOp pc of
        None \<Rightarrow> Inl SCRIPT_ERR_BAD_OPCODE
      | Some (opcode, vchPushValue, pc1) \<Rightarrow>
          bindE (eval_step chk flags opcode vchPushValue pc1 st) (eval_loop chk flags pc1))"
  by pat_completeness auto
termination by (relation "measure (\<lambda>(_, _, pc, _). length pc)") auto

declare eval_loop.simps [simp del]

definition EvalScript ::
  "sig_checker \<Rightarrow> u32 \<Rightarrow> bytes \<Rightarrow> bytes list \<Rightarrow> ScriptError + bytes list" where
  "EvalScript chk flags script stk =
     (if length script > MAX_SCRIPT_SIZE then Inl SCRIPT_ERR_SCRIPT_SIZE
      else bindE (eval_loop chk flags script
                   \<lparr>stack = stk, altstack = [], vfExec = [], nOpCount = 0, codehash = script\<rparr>)
             (\<lambda>st. if vfExec st \<noteq> [] then Inl SCRIPT_ERR_UNBALANCED_CONDITIONAL else Inr (stack st)))"

section \<open>\<open>VerifyScript\<close>\<close>

text \<open>A failed \<open>assert\<close> ends the process; it is an outcome of its own.\<close>

datatype verify_failure = ScriptFailure ScriptError | AssertionFailure

definition evalV ::
  "sig_checker \<Rightarrow> u32 \<Rightarrow> bytes \<Rightarrow> bytes list \<Rightarrow> verify_failure + bytes list" where
  "evalV chk flags script stk = map_sum ScriptFailure id (EvalScript chk flags script stk)"

text \<open>The test of the top element after an evaluation.\<close>

definition check_true :: "bytes list \<Rightarrow> verify_failure + unit" where
  "check_true stk =
     (case stk of
        [] \<Rightarrow> Inl (ScriptFailure SCRIPT_ERR_EVAL_FALSE)
      | x # _ \<Rightarrow> if CastToBool x then Inr () else Inl (ScriptFailure SCRIPT_ERR_EVAL_FALSE))"

definition VerifyScript :: "bytes \<Rightarrow> bytes \<Rightarrow> u32 \<Rightarrow> sig_checker \<Rightarrow> verify_failure + unit" where
  "VerifyScript scriptSig scriptPubKey flags chk =
     (if flag flags SCRIPT_VERIFY_SIGPUSHONLY \<and> \<not> IsPushOnly scriptSig
        then Inl (ScriptFailure SCRIPT_ERR_SIG_PUSHONLY)
      else bindE (evalV chk flags scriptSig []) (\<lambda>stackCopy.
           bindE (evalV chk flags scriptPubKey stackCopy) (\<lambda>stk.
           bindE (check_true stk) (\<lambda>_.
           bindE (if flag flags SCRIPT_VERIFY_P2SH \<and> IsPayToScriptHash scriptPubKey then
                    if \<not> IsPushOnly scriptSig then Inl (ScriptFailure SCRIPT_ERR_SIG_PUSHONLY)
                    else case stackCopy of
                        [] \<Rightarrow> Inl AssertionFailure
                      | pubKey2 # rest \<Rightarrow>
                          bindE (evalV chk flags pubKey2 rest) (\<lambda>stk2.
                          bindE (check_true stk2) (\<lambda>_. Inr stk2))
                  else Inr stk) (\<lambda>stk3.
             if flag flags SCRIPT_VERIFY_CLEANSTACK then
               if \<not> flag flags SCRIPT_VERIFY_P2SH then Inl AssertionFailure
               else if length stk3 \<noteq> 1 then Inl (ScriptFailure SCRIPT_ERR_CLEANSTACK)
               else Inr ()
             else Inr ())))))"

end
