(* ===== verification/SoftForks.thy ===== *)
theory SoftForks
  imports Execution
begin

unbundle bit_operations_syntax

text \<open>
  Soft-fork safety of the script flags: adding verification flags never accepts a script that was
  rejected before, for \<open>EvalScript\<close> and for \<open>VerifyScript\<close>, as long as the flag that enables the
  DIP0020 opcodes is left alone; that flag is not a soft fork.
\<close>

section \<open>Refinement of results\<close>

text \<open>\<open>stricter a b\<close>: whenever the first computation succeeds, so does the second, with the same result.\<close>

definition stricter :: "'e + 'a \<Rightarrow> 'f + 'a \<Rightarrow> bool" where
  "stricter a b \<longleftrightarrow> (\<forall>x. a = Inr x \<longrightarrow> b = Inr x)"

named_theorems strict_intros

lemma stricterI: "(\<And>x. a = Inr x \<Longrightarrow> b = Inr x) \<Longrightarrow> stricter a b"
  by (simp add: stricter_def)

lemma stricterD: "stricter a b \<Longrightarrow> a = Inr x \<Longrightarrow> b = Inr x"
  by (simp add: stricter_def)

lemma stricter_refl [strict_intros]: "stricter a a"
  by (simp add: stricter_def)

lemma stricter_Inl [strict_intros]: "stricter (Inl e) b"
  by (simp add: stricter_def)

lemma stricter_if [strict_intros]:
  "(c \<Longrightarrow> stricter a b) \<Longrightarrow> (\<not> c \<Longrightarrow> stricter a' b') \<Longrightarrow>
     stricter (if c then a else a') (if c then b else b')"
  by simp

text \<open>A check that only the stricter side may fail.\<close>

lemma stricter_guard [strict_intros]:
  "(d \<Longrightarrow> c) \<Longrightarrow> stricter a b \<Longrightarrow> stricter (if c then Inl e else a) (if d then Inl e' else b)"
  by (auto simp: stricter_def)

lemma stricter_bindE [strict_intros]:
  "stricter a b \<Longrightarrow> (\<And>x. stricter (f x) (g x)) \<Longrightarrow> stricter (bindE a f) (bindE b g)"
  by (auto simp: stricter_def)

lemma stricter_map_sum [strict_intros]: "stricter a b \<Longrightarrow> stricter (map_sum h f a) (map_sum h' f b)"
  by (cases a; cases b) (auto simp: stricter_def)

lemma stricter_set_stack [strict_intros]: "stricter a b \<Longrightarrow> stricter (set_stack st a) (set_stack st b)"
  unfolding set_stack_def by (rule stricter_map_sum)

lemma stricter_case_list [strict_intros]:
  "(xs = [] \<Longrightarrow> stricter a b) \<Longrightarrow> (\<And>y ys. xs = y # ys \<Longrightarrow> stricter (f y ys) (g y ys)) \<Longrightarrow>
     stricter (case xs of [] \<Rightarrow> a | y # ys \<Rightarrow> f y ys) (case xs of [] \<Rightarrow> b | y # ys \<Rightarrow> g y ys)"
  by (cases xs) auto

lemma stricter_case_prod [strict_intros]:
  "(\<And>y z. p = (y, z) \<Longrightarrow> stricter (f y z) (g y z)) \<Longrightarrow>
     stricter (case p of (y, z) \<Rightarrow> f y z) (case p of (y, z) \<Rightarrow> g y z)"
  by (cases p) auto

lemma stricter_Let [strict_intros]:
  "(\<And>x. stricter (f x) (g x)) \<Longrightarrow> stricter (Let a f) (Let a g)"
  by (simp add: Let_def)

section \<open>Operators\<close>

definition flags_le :: "u32 \<Rightarrow> u32 \<Rightarrow> bool" where
  "flags_le f g \<longleftrightarrow> f AND g = f"

lemma flag_mono: "flags_le f g \<Longrightarrow> flag f x \<Longrightarrow> flag g x"
  unfolding flags_le_def flag_def by (metis and.assoc and_zero_eq)

lemma script_num_strict [strict_intros]:
  "flags_le f g \<Longrightarrow> stricter (script_num g n v) (script_num f n v)"
  by (auto simp: stricter_def script_num_def CScriptNum_def dest: flag_mono split: if_splits)

lemma CheckSignatureEncoding_strict [strict_intros]:
  "flags_le f g \<Longrightarrow> stricter (CheckSignatureEncoding chk g s) (CheckSignatureEncoding chk f s)"
  by (auto simp: stricter_def CheckSignatureEncoding_def dest: flag_mono split: if_splits)

lemma CheckPubKeyEncoding_strict [strict_intros]:
  "flags_le f g \<Longrightarrow> stricter (CheckPubKeyEncoding g k) (CheckPubKeyEncoding f k)"
  by (auto simp: stricter_def CheckPubKeyEncoding_def dest: flag_mono split: if_splits)

lemma check_encodings_strict [strict_intros]:
  "flags_le f g \<Longrightarrow> stricter (check_encodings chk g s k) (check_encodings chk f s k)"
  unfolding check_encodings_def by (intro strict_intros)

lemma op_cltv_strict [strict_intros]:
  "flags_le f g \<Longrightarrow> stricter (op_checklocktimeverify chk g s) (op_checklocktimeverify chk f s)"
  using script_num_strict [of f g 5 "s ! 0"]
  by (auto simp: stricter_def op_checklocktimeverify_def bindE_Inr dest: flag_mono split: if_splits)

lemma op_csv_strict [strict_intros]:
  "flags_le f g \<Longrightarrow> stricter (op_checksequenceverify chk g s) (op_checksequenceverify chk f s)"
  using script_num_strict [of f g 5 "s ! 0"]
  by (auto simp: stricter_def op_checksequenceverify_def bindE_Inr dest: flag_mono split: if_splits)

lemma op_nop_strict [strict_intros]:
  "flags_le f g \<Longrightarrow> stricter (op_upgradable_nop g s) (op_upgradable_nop f s)"
  by (auto simp: stricter_def op_upgradable_nop_def dest: flag_mono)

lemma op_pick_roll_strict [strict_intros]:
  "flags_le f g \<Longrightarrow> stricter (op_pick_roll g opc s) (op_pick_roll f opc s)"
  unfolding op_pick_roll_def by (intro strict_intros)

lemma op_unary_num_strict [strict_intros]:
  "flags_le f g \<Longrightarrow> stricter (op_unary_num g opc s) (op_unary_num f opc s)"
  unfolding op_unary_num_def by (intro strict_intros)

lemma op_binary_num_strict [strict_intros]:
  "flags_le f g \<Longrightarrow> stricter (op_binary_num g opc s) (op_binary_num f opc s)"
  unfolding op_binary_num_def by (intro strict_intros)

lemma op_within_strict [strict_intros]:
  "flags_le f g \<Longrightarrow> stricter (op_within g s) (op_within f s)"
  unfolding op_within_def by (intro strict_intros)

lemma op_split_strict [strict_intros]:
  "flags_le f g \<Longrightarrow> stricter (op_split g s) (op_split f s)"
  unfolding op_split_def by (intro strict_intros)

lemma op_num2bin_strict [strict_intros]:
  "flags_le f g \<Longrightarrow> stricter (op_num2bin g s) (op_num2bin f s)"
  unfolding op_num2bin_def by (intro strict_intros)

lemma delete_sigs_strict [strict_intros]:
  "flags_le f g \<Longrightarrow> stricter (delete_sigs g sigs c) (delete_sigs f sigs c)"
  by (induction sigs arbitrary: c)
    (auto simp: stricter_def dest: flag_mono split: prod.splits if_splits)

lemma op_checksig_strict [strict_intros]:
  "flags_le f g \<Longrightarrow> stricter (op_checksig chk g opc c s) (op_checksig chk f opc c s)"
  unfolding op_checksig_def by (intro strict_intros) (auto dest: flag_mono)

lemma op_checkdatasig_strict [strict_intros]:
  "flags_le f g \<Longrightarrow> stricter (op_checkdatasig chk g opc s) (op_checkdatasig chk f opc s)"
  unfolding op_checkdatasig_def by (intro strict_intros) (auto dest: flag_mono)

lemma multisig_loop_strict [strict_intros]:
  assumes "flags_le f g"
  shows "stricter (multisig_loop chk g c sigs keys) (multisig_loop chk f c sigs keys)"
proof (induction keys arbitrary: sigs)
  case Nil
  show ?case by (cases sigs) (simp_all add: strict_intros)
next
  case (Cons k keys)
  then show ?case
  proof (cases sigs)
    case (Cons s sigs1)
    have "stricter (check_encodings chk g s k) (check_encodings chk f s k)"
      using assms by (rule check_encodings_strict)
    then show ?thesis
      unfolding Cons multisig_loop.simps using assms Cons.IH by (intro strict_intros) auto
  qed (simp add: strict_intros)
qed

lemma multisig_cleanup_strict [strict_intros]:
  assumes "flags_le f g"
  shows "stricter (multisig_cleanup g ok n k s) (multisig_cleanup f ok n k s)"
  using assms by (induction n arbitrary: k s) (auto simp: stricter_def dest: flag_mono split: if_splits)

lemma op_checkmultisig_strict [strict_intros]:
  "flags_le f g \<Longrightarrow> stricter (op_checkmultisig chk g opc c n s) (op_checkmultisig chk f opc c n s)"
  unfolding op_checkmultisig_def by (intro strict_intros) (auto dest: flag_mono)

section \<open>Evaluation\<close>

lemma exec_opcode_strict [strict_intros]:
  "flags_le f g \<Longrightarrow> stricter (exec_opcode chk g opc ex pc st) (exec_opcode chk f opc ex pc st)"
  unfolding exec_opcode_def by (intro strict_intros)

definition same_dip0020 :: "u32 \<Rightarrow> u32 \<Rightarrow> bool" where
  "same_dip0020 f g \<longleftrightarrow> flag f SCRIPT_ENABLE_DIP0020_OPCODES = flag g SCRIPT_ENABLE_DIP0020_OPCODES"

lemma eval_step_strict:
  "flags_le f g \<Longrightarrow> same_dip0020 f g \<Longrightarrow>
     stricter (eval_step chk g opc v pc st) (eval_step chk f opc v pc st)"
  unfolding eval_step_def same_dip0020_def by (intro strict_intros) (auto dest: flag_mono)

lemma eval_loop_strict:
  assumes "flags_le f g" "same_dip0020 f g"
  shows "stricter (eval_loop chk g pc st) (eval_loop chk f pc st)"
proof (induction "length pc" arbitrary: pc st rule: less_induct)
  case less
  show ?case
  proof (cases "GetScriptOp pc")
    case None
    then show ?thesis by (simp add: eval_loop.simps [of _ _ pc] strict_intros)
  next
    case (Some r)
    then obtain opc v pc1 where op: "GetScriptOp pc = Some (opc, v, pc1)" by (cases r) auto
    then have "stricter (eval_loop chk g pc1 st1) (eval_loop chk f pc1 st1)" for st1
      using less GetScriptOp_rest_less by blast
    with op show ?thesis
      using eval_step_strict [OF assms]
      by (simp add: eval_loop.simps [of _ _ pc] strict_intros)
  qed
qed

lemma EvalScript_strict:
  "flags_le f g \<Longrightarrow> same_dip0020 f g \<Longrightarrow>
     stricter (EvalScript chk g script s) (EvalScript chk f script s)"
  unfolding EvalScript_def by (intro strict_intros eval_loop_strict)

lemma evalV_strict:
  "flags_le f g \<Longrightarrow> same_dip0020 f g \<Longrightarrow> stricter (evalV chk g script s) (evalV chk f script s)"
  unfolding evalV_def by (intro stricter_map_sum EvalScript_strict)

lemma VerifyScript_strict:
  assumes fg: "flags_le f g" "same_dip0020 f g"
    and clean: "flag f SCRIPT_VERIFY_CLEANSTACK \<Longrightarrow> flag f SCRIPT_VERIFY_P2SH"
    and ok: "VerifyScript scriptSig spk g chk = Inr ()"
  shows "VerifyScript scriptSig spk f chk = Inr ()"
proof -
  note mono = flag_mono [OF fg(1)]
  note ev = stricterD [OF evalV_strict [OF fg]]
  have push: "\<not> (flag f SCRIPT_VERIFY_SIGPUSHONLY \<and> \<not> IsPushOnly scriptSig)"
    using ok mono by (auto simp: VerifyScript_def split: if_splits)
  from ok obtain s1 s2 where e: "evalV chk g scriptSig [] = Inr s1" "evalV chk g spk s1 = Inr s2"
    "check_true s2 = Inr ()"
    by (auto simp: VerifyScript_def split: if_splits)
  show ?thesis
  proof (cases "flag f SCRIPT_VERIFY_P2SH")
    case False
    with clean push show ?thesis by (auto simp: VerifyScript_def ev [OF e(1)] ev [OF e(2)] e(3))
  next
    case True
    then have P2SH: "flag f SCRIPT_VERIFY_P2SH" "flag g SCRIPT_VERIFY_P2SH" using mono by auto
    show ?thesis
    proof (cases "IsPayToScriptHash spk")
      case False
      with ok push P2SH show ?thesis
        using mono by (auto simp: VerifyScript_def e ev [OF e(1)] ev [OF e(2)] split: if_splits)
    next
      case True
      with ok P2SH e obtain k r s3 where p: "IsPushOnly scriptSig" "s1 = k # r"
        "evalV chk g k r = Inr s3" "check_true s3 = Inr ()"
        "flag g SCRIPT_VERIFY_CLEANSTACK \<Longrightarrow> length s3 = 1"
        by (auto simp: VerifyScript_def split: if_splits list.splits)
      with True push P2SH show ?thesis
        using mono
        by (auto simp: VerifyScript_def e(3) ev [OF e(1), unfolded p(2)] ev [OF e(2), unfolded p(2)] ev [OF p(3)])
    qed
  qed
qed

section \<open>Properties\<close>

text \<open>
C1: Script flags are soft forks. Let \<open>g\<close> contain every flag of \<open>f\<close> and agree with it on the flag
that enables the DIP0020 opcodes. A script that evaluates under \<open>g\<close> evaluates under \<open>f\<close> to the same
stack, and an input that verifies under \<open>g\<close> verifies under \<open>f\<close> (for an \<open>f\<close> that does not ask for a
clean stack without P2SH, which the code refuses by an assertion).
\<close>

theorem flags_are_soft_forks:
  assumes "flags_le f g" "same_dip0020 f g"
  shows "(EvalScript chk g script stk = Inr stk' \<longrightarrow> EvalScript chk f script stk = Inr stk')
     \<and> ((flag f SCRIPT_VERIFY_CLEANSTACK \<longrightarrow> flag f SCRIPT_VERIFY_P2SH) \<longrightarrow>
         VerifyScript scriptSig scriptPubKey g chk = Inr () \<longrightarrow>
         VerifyScript scriptSig scriptPubKey f chk = Inr ())"
  using EvalScript_strict [OF assms] VerifyScript_strict [OF assms] by (auto dest: stricterD)

definition no_checker :: sig_checker where
  "no_checker = \<lparr>CheckSig = (\<lambda>_ _ _. False), CheckLockTime = (\<lambda>_. False), CheckSequence = (\<lambda>_. False),
     CheckLowS = (\<lambda>_. False), VerifyHash = (\<lambda>_ _ _. False)\<rparr>"

lemmas eval_simps = EvalScript_def eval_loop.simps eval_step_def exec_opcode_def set_stack_def
  script_limits stack_ops_def unary_num_ops_def binary_num_ops_def dip0020_opcodes_def
  disabled_opcodes_def

theorem flags_are_soft_forks_witness:
  "flags_le 0 SCRIPT_VERIFY_MINIMALDATA \<and> same_dip0020 0 SCRIPT_VERIFY_MINIMALDATA
   \<and> EvalScript no_checker SCRIPT_VERIFY_MINIMALDATA [0x00] [] = Inr [[]]
   \<and> EvalScript no_checker 0 [0x00] [] = Inr [[]]"
proof -
  have hyps: "flags_le 0 SCRIPT_VERIFY_MINIMALDATA" "same_dip0020 0 SCRIPT_VERIFY_MINIMALDATA"
    by (simp_all add: flags_le_def same_dip0020_def flag_def SCRIPT_VERIFY_MINIMALDATA_def
        SCRIPT_ENABLE_DIP0020_OPCODES_def push_bit_eq_mult)
  have run: "EvalScript no_checker SCRIPT_VERIFY_MINIMALDATA [0x00] [] = Inr [[]]"
    by (simp add: eval_simps CheckMinimalPush_def)
  then have "EvalScript no_checker 0 [0x00] [] = Inr [[]]"
    using flags_are_soft_forks [OF hyps] by blast
  with hyps run show ?thesis by simp
qed

end
