(* ===== verification/ScriptSafety.thy ===== *)
theory ScriptSafety
  imports Execution
begin

unbundle bit_operations_syntax

text \<open>
  Resource invariants of the script machine. No element ever exceeds \<open>MAX_SCRIPT_ELEMENT_SIZE\<close>, the
  two stacks together never exceed \<open>MAX_STACK_SIZE\<close> and the operation counter never exceeds
  \<open>MAX_OPS_PER_SCRIPT\<close> in a state the loop reaches; scripts that \<open>IsUnspendable\<close> accepts never
  evaluate; the assertion on the P2SH stack never fails.
\<close>

section \<open>Results that satisfy a predicate\<close>

definition okR :: "('a \<Rightarrow> bool) \<Rightarrow> 'e + 'a \<Rightarrow> bool" where
  "okR P r \<longleftrightarrow> (\<forall>x. r = Inr x \<longrightarrow> P x)"

named_theorems ok_intros

lemma okR_D: "okR P r \<Longrightarrow> r = Inr x \<Longrightarrow> P x"
  by (simp add: okR_def)

lemma okR_Inl [ok_intros]: "okR P (Inl e)"
  by (simp add: okR_def)

lemma okR_Inr [ok_intros]: "P x \<Longrightarrow> okR P (Inr x)"
  by (simp add: okR_def)

lemma okR_if [ok_intros]: "(c \<Longrightarrow> okR P a) \<Longrightarrow> (\<not> c \<Longrightarrow> okR P b) \<Longrightarrow> okR P (if c then a else b)"
  by simp

lemma okR_bindE [ok_intros]: "(\<And>x. m = Inr x \<Longrightarrow> okR P (f x)) \<Longrightarrow> okR P (bindE m f)"
  by (cases m) (auto simp: okR_def)

lemma okR_case_list [ok_intros]:
  "(xs = [] \<Longrightarrow> okR P a) \<Longrightarrow> (\<And>y ys. xs = y # ys \<Longrightarrow> okR P (f y ys)) \<Longrightarrow>
     okR P (case xs of [] \<Rightarrow> a | y # ys \<Rightarrow> f y ys)"
  by (cases xs) auto

lemma okR_case_option [ok_intros]:
  "(m = None \<Longrightarrow> okR P a) \<Longrightarrow> (\<And>y. m = Some y \<Longrightarrow> okR P (f y)) \<Longrightarrow>
     okR P (case m of None \<Rightarrow> a | Some y \<Rightarrow> f y)"
  by (cases m) auto

lemma okR_Let [ok_intros]: "(\<And>x. x = a \<Longrightarrow> okR P (f x)) \<Longrightarrow> okR P (Let a f)"
  by (simp add: Let_def)

lemma okR_map_sum [ok_intros]: "okR (\<lambda>x. P (f x)) m \<Longrightarrow> okR P (map_sum h f m)"
  by (cases m) (auto simp: okR_def)

definition okO :: "('a \<Rightarrow> bool) \<Rightarrow> 'a option \<Rightarrow> bool" where
  "okO P m \<longleftrightarrow> (\<forall>x. m = Some x \<longrightarrow> P x)"

lemma okO_None [ok_intros]: "okO P None"
  by (simp add: okO_def)

lemma okO_Some [ok_intros]: "P x \<Longrightarrow> okO P (Some x)"
  by (simp add: okO_def)

lemma okO_if [ok_intros]: "(c \<Longrightarrow> okO P a) \<Longrightarrow> (\<not> c \<Longrightarrow> okO P b) \<Longrightarrow> okO P (if c then a else b)"
  by simp

lemma okO_case_list [ok_intros]:
  "(xs = [] \<Longrightarrow> okO P a) \<Longrightarrow> (\<And>y ys. xs = y # ys \<Longrightarrow> okO P (f y ys)) \<Longrightarrow>
     okO P (case xs of [] \<Rightarrow> a | y # ys \<Rightarrow> f y ys)"
  by (cases xs) auto

section \<open>Element sizes\<close>

definition elems_ok :: "bytes list \<Rightarrow> bool" where
  "elems_ok s \<longleftrightarrow> list_all (\<lambda>x. length x \<le> MAX_SCRIPT_ELEMENT_SIZE) s"

lemma elems_ok_simps [simp]:
  "elems_ok []"
  "elems_ok (x # s) \<longleftrightarrow> length x \<le> MAX_SCRIPT_ELEMENT_SIZE \<and> elems_ok s"
  "elems_ok (s @ t) \<longleftrightarrow> elems_ok s \<and> elems_ok t"
  by (simp_all add: elems_ok_def)

lemma elems_ok_take_drop: "elems_ok s \<Longrightarrow> elems_ok (take n s) \<and> elems_ok (drop n s)"
  by (auto simp: elems_ok_def list_all_iff dest: in_set_takeD in_set_dropD)

lemma elems_ok_nth: "elems_ok s \<Longrightarrow> i < length s \<Longrightarrow> length (s ! i) \<le> MAX_SCRIPT_ELEMENT_SIZE"
  by (simp add: elems_ok_def list_all_length)

lemma small_num: "\<bar>v\<bar> < 2 ^ 39 \<Longrightarrow> length (serialize_num v) \<le> MAX_SCRIPT_ELEMENT_SIZE"
  using length_serialize_num [of v 4] by (simp add: MAX_SCRIPT_ELEMENT_SIZE_def)

lemma script_num_bound:
  "script_num flags nDefaultMaxNumSize v = Inr n \<Longrightarrow> \<bar>n\<bar> < 2 ^ 31"
  using set_vch_bound [of v 3]
  by (auto simp: script_num_def CScriptNum_def nDefaultMaxNumSize_def split: if_splits)

lemma vchBool_length [simp]: "length (vchBool b) \<le> MAX_SCRIPT_ELEMENT_SIZE"
  by (simp add: vchBool_def MAX_SCRIPT_ELEMENT_SIZE_def)

lemma push_bool_ok [ok_intros]: "elems_ok s \<Longrightarrow> okR elems_ok (push_bool vf err b s)"
  by (auto simp: push_bool_def okR_def)

lemma hash_op_length: "length (hash_op opc x) \<le> MAX_SCRIPT_ELEMENT_SIZE"
  by (simp add: hash_op_def MAX_SCRIPT_ELEMENT_SIZE_def)

lemma unary_num_bound: "\<bar>n\<bar> < 2 ^ 31 \<Longrightarrow> \<bar>unary_num opc n\<bar> < 2 ^ 39"
  by (auto simp: unary_num_def)

lemma abs_sdiv_le: "\<bar>a sdiv b\<bar> \<le> \<bar>a :: int\<bar>"
proof -
  have "\<bar>a sdiv b\<bar> \<le> \<bar>a\<bar> div \<bar>b\<bar>"
    by (simp add: signed_divide_int_def abs_mult abs_sgn_eq pos_imp_zdiv_nonneg_iff)
  also have "\<bar>a\<bar> div \<bar>b\<bar> \<le> \<bar>a\<bar>"
    using zdiv_mono2 [of "\<bar>a\<bar>" 1 "\<bar>b\<bar>"] by (cases "b = 0") simp_all
  finally show ?thesis .
qed

lemma abs_smod_le: "\<bar>a smod b\<bar> \<le> \<bar>a :: int\<bar>"
proof -
  have "\<bar>a smod b\<bar> \<le> \<bar>a\<bar> mod \<bar>b\<bar>"
    by (cases "b = 0") (simp_all add: signed_modulo_int_def abs_mult abs_sgn_eq)
  also have "\<bar>a\<bar> mod \<bar>b\<bar> \<le> \<bar>a\<bar>"
    by (cases "b = 0") (simp_all add: zmod_le_nonneg_dividend)
  finally show ?thesis .
qed

lemma binary_num_bound:
  assumes "\<bar>a\<bar> < 2 ^ 31" "\<bar>b\<bar> < 2 ^ 31" "binary_num opc a b = Inr n"
  shows "\<bar>n\<bar> < 2 ^ 39"
  using assms abs_sdiv_le [of a b] abs_smod_le [of a b]
  by (auto simp: binary_num_def split: if_splits)

lemma length_num_ok: "n \<le> MAX_STACK_SIZE \<Longrightarrow> length (serialize_num (int n)) \<le> MAX_SCRIPT_ELEMENT_SIZE"
  by (intro small_num) (simp add: MAX_STACK_SIZE_def)

lemma elem_num_ok:
  "n \<le> MAX_SCRIPT_ELEMENT_SIZE \<Longrightarrow> length (serialize_num (int n)) \<le> MAX_SCRIPT_ELEMENT_SIZE"
  by (intro length_num_ok) (simp add: script_limits)

lemma stack_op_ok:
  assumes "elems_ok s" "length s \<le> MAX_STACK_SIZE"
  shows "okO elems_ok (stack_op opc s)"
  using assms length_num_ok [OF assms(2)] unfolding stack_op_def
  by (intro ok_intros) (simp_all add: elem_num_ok)

lemma length_MinimallyEncode: "length (fst (MinimallyEncode x)) \<le> length x"
proof (cases x rule: rev_cases)
  case (snoc xs l)
  then have "\<bar>set_vch x\<bar> < 128 * 256 ^ length xs" by (intro set_vch_bound) simp
  then show ?thesis using length_serialize_num [of "set_vch x" "length xs"]
    by (simp add: MinimallyEncode_eq snoc)
qed (simp add: MinimallyEncode_def)

lemma op_pick_roll_ok [ok_intros]:
  assumes "elems_ok s"
  shows "okR elems_ok (op_pick_roll f opc s)"
proof -
  have "elems_ok (tl s)" using assms by (cases s) auto
  then have "0 \<le> n \<Longrightarrow> n < int (length (tl s)) \<Longrightarrow> length (tl s ! nat n) \<le> MAX_SCRIPT_ELEMENT_SIZE" for n
    by (intro elems_ok_nth) (simp_all add: nat_less_iff)
  then show ?thesis
    using \<open>elems_ok (tl s)\<close> elems_ok_take_drop [of "tl s"]
    unfolding op_pick_roll_def by (intro ok_intros) auto
qed

lemma op_equal_ok [ok_intros]: "elems_ok s \<Longrightarrow> okR elems_ok (op_equal opc s)"
  unfolding op_equal_def by (intro ok_intros) simp_all

lemma op_bitwise_ok [ok_intros]: "elems_ok s \<Longrightarrow> okR elems_ok (op_bitwise opc s)"
  unfolding op_bitwise_def by (intro ok_intros) simp_all

lemma op_unary_num_ok [ok_intros]: "elems_ok s \<Longrightarrow> okR elems_ok (op_unary_num f opc s)"
  unfolding op_unary_num_def
  by (intro ok_intros) (auto intro!: small_num unary_num_bound dest!: script_num_bound)

lemma op_binary_num_ok [ok_intros]: "elems_ok s \<Longrightarrow> okR elems_ok (op_binary_num f opc s)"
  unfolding op_binary_num_def
  by (intro ok_intros) (auto intro!: small_num intro: binary_num_bound dest!: script_num_bound)

lemma op_within_ok [ok_intros]: "elems_ok s \<Longrightarrow> okR elems_ok (op_within f s)"
  unfolding op_within_def by (intro ok_intros) simp_all

lemma op_hash_ok [ok_intros]: "elems_ok s \<Longrightarrow> okR elems_ok (op_hash opc s)"
  unfolding op_hash_def by (intro ok_intros) (simp_all add: hash_op_length)

lemma op_checksig_ok [ok_intros]: "elems_ok s \<Longrightarrow> okR elems_ok (op_checksig chk f opc c s)"
  unfolding op_checksig_def by (intro ok_intros) simp_all

lemma op_checkdatasig_ok [ok_intros]: "elems_ok s \<Longrightarrow> okR elems_ok (op_checkdatasig chk f opc s)"
  unfolding op_checkdatasig_def by (intro ok_intros) simp_all

lemma multisig_cleanup_drop: "okR (\<lambda>s'. s' = drop n s) (multisig_cleanup f ok n k s)"
  by (induction n arbitrary: k s) (auto simp: okR_def drop_Suc)

lemma op_checkmultisig_ok [ok_intros]:
  assumes "elems_ok s"
  shows "okR (\<lambda>(n', s'). n' \<le> MAX_OPS_PER_SCRIPT \<and> elems_ok s') (op_checkmultisig chk f opc c n s)"
proof -
  have cl: "elems_ok r" if "multisig_cleanup f ok k j s = Inr (d # r)" for ok k j d r
  proof -
    have "d # r = drop k s" using okR_D [OF multisig_cleanup_drop that] .
    with elems_ok_take_drop [OF assms, of k] show ?thesis by (metis elems_ok_simps(2))
  qed
  show ?thesis
    unfolding op_checkmultisig_def
    by (intro ok_intros) (auto simp: push_bool_def okR_def simp del: multisig_cleanup.simps intro: cl)
qed

lemma op_cat_ok [ok_intros]: "elems_ok s \<Longrightarrow> okR elems_ok (op_cat s)"
  unfolding op_cat_def by (intro ok_intros) simp_all

lemma op_split_ok [ok_intros]: "elems_ok s \<Longrightarrow> okR elems_ok (op_split f s)"
  unfolding op_split_def by (intro ok_intros) auto

lemma length_pad_num: "length raw < n \<Longrightarrow> length (pad_num raw n) = n"
  by (auto simp: pad_num_def Let_def)

lemma op_num2bin_ok [ok_intros]: "elems_ok s \<Longrightarrow> okR elems_ok (op_num2bin f s)"
  unfolding op_num2bin_def by (intro ok_intros) (auto simp: length_pad_num)

lemma op_bin2num_ok [ok_intros]: "elems_ok s \<Longrightarrow> okR elems_ok (op_bin2num s)"
  unfolding op_bin2num_def
  by (intro ok_intros) (auto intro: order_trans [OF length_MinimallyEncode])

lemma op_checks_ok [ok_intros]:
  "elems_ok s \<Longrightarrow> okR elems_ok (op_checklocktimeverify chk f s)"
  "elems_ok s \<Longrightarrow> okR elems_ok (op_checksequenceverify chk f s)"
  "elems_ok s \<Longrightarrow> okR elems_ok (op_upgradable_nop f s)"
  "elems_ok s \<Longrightarrow> okR elems_ok (op_verify s)"
  unfolding op_checklocktimeverify_def op_checksequenceverify_def op_upgradable_nop_def op_verify_def
  by (intro ok_intros; simp)+

section \<open>The machine invariant\<close>

definition state_ok :: "exec_state \<Rightarrow> bool" where
  "state_ok st \<longleftrightarrow> elems_ok (stack st) \<and> elems_ok (altstack st)
     \<and> length (stack st) + length (altstack st) \<le> MAX_STACK_SIZE \<and> nOpCount st \<le> MAX_OPS_PER_SCRIPT"

text \<open>The part of the invariant an operator keeps before the size check of the loop.\<close>

definition state_pre :: "exec_state \<Rightarrow> bool" where
  "state_pre st \<longleftrightarrow> elems_ok (stack st) \<and> elems_ok (altstack st) \<and> nOpCount st \<le> MAX_OPS_PER_SCRIPT"

lemma set_stack_ok [ok_intros]:
  "state_pre st \<Longrightarrow> okR elems_ok r \<Longrightarrow> okR state_pre (set_stack st r)"
  by (cases r) (auto simp: okR_def set_stack_def state_pre_def)

lemma op_state_ok [ok_intros]:
  "state_pre st \<Longrightarrow> okR state_pre (op_if opc ex st)"
  "state_pre st \<Longrightarrow> okR state_pre (op_else st)"
  "state_pre st \<Longrightarrow> okR state_pre (op_endif st)"
  "state_pre st \<Longrightarrow> okR state_pre (op_toaltstack st)"
  "state_pre st \<Longrightarrow> okR state_pre (op_fromaltstack st)"
  unfolding op_if_def op_else_def op_endif_def op_toaltstack_def op_fromaltstack_def
  by (intro ok_intros; simp add: state_pre_def)+

lemma exec_opcode_ok [ok_intros]:
  assumes "state_pre st" "length (stack st) \<le> MAX_STACK_SIZE"
  shows "okR state_pre (exec_opcode chk f opc ex pc st)"
proof -
  have s: "elems_ok (stack st)" using assms by (simp add: state_pre_def)
  have num: "length (serialize_num (int opc - (int OP_1 - 1))) \<le> MAX_SCRIPT_ELEMENT_SIZE"
    if "opc = OP_1NEGATE \<or> (OP_1 \<le> opc \<and> opc \<le> OP_16)"
    using that by (intro small_num) auto
  have sop: "elems_ok s'" if "stack_op opc (stack st) = Some s'" for s'
    using stack_op_ok [OF s assms(2)] that by (simp add: okO_def)
  have multi: "okR state_pre (map_sum id (\<lambda>(n, s). st\<lparr>stack := s, nOpCount := n\<rparr>)
      (op_checkmultisig chk f opc (codehash st) (nOpCount st) (stack st)))"
    using op_checkmultisig_ok [OF s] assms(1)
    by (intro okR_map_sum) (auto simp: okR_def state_pre_def)
  show ?thesis
    unfolding exec_opcode_def
    by (intro multi ok_intros assms(1) s) (use assms(1) num sop in \<open>simp_all add: state_pre_def\<close>)
qed

lemma okR_bindE_pre: "okR Q m \<Longrightarrow> (\<And>x. Q x \<Longrightarrow> okR P (f x)) \<Longrightarrow> okR P (bindE m f)"
  by (cases m) (auto simp: okR_def)

lemma size_check_ok:
  "state_pre st \<Longrightarrow>
     okR state_ok (if length (stack st) + length (altstack st) > MAX_STACK_SIZE
                   then Inl e else Inr st)"
  by (auto simp: okR_def state_pre_def state_ok_def)

lemma eval_step_ok:
  assumes "state_ok st"
  shows "okR state_ok (eval_step chk f opc v pc st)"
proof -
  define st1 where "st1 = (if opc > OP_16 then st\<lparr>nOpCount := nOpCount st + 1\<rparr> else st)"
  have st1: "state_pre st1" "length (stack st1) \<le> MAX_STACK_SIZE"
    if "\<not> (opc > OP_16 \<and> nOpCount st1 > MAX_OPS_PER_SCRIPT)"
    using that assms by (auto simp: st1_def state_ok_def state_pre_def split: if_splits)
  have push: "state_pre (st1\<lparr>stack := v # stack st1\<rparr>)"
    if "\<not> (opc > OP_16 \<and> nOpCount st1 > MAX_OPS_PER_SCRIPT)" "\<not> length v > MAX_SCRIPT_ELEMENT_SIZE"
    using st1(1) [OF that(1)] that(2) by (simp add: state_pre_def)
  show ?thesis
    unfolding eval_step_def Let_def st1_def [symmetric]
    by (intro okR_if okR_Inl, intro okR_bindE_pre [where Q = state_pre] size_check_ok okR_if okR_Inl
        okR_Inr exec_opcode_ok) (use st1 push in blast)+
qed

lemma eval_loop_ok: "state_ok st \<Longrightarrow> okR state_ok (eval_loop chk f pc st)"
proof (induction "length pc" arbitrary: pc st rule: less_induct)
  case less
  show ?case
  proof (cases "GetScriptOp pc")
    case None
    with less.prems show ?thesis by (simp add: eval_loop.simps [of _ _ pc] ok_intros)
  next
    case (Some r)
    then obtain opc v pc1 where op: "GetScriptOp pc = Some (opc, v, pc1)" by (cases r) auto
    then have "state_ok st1 \<Longrightarrow> okR state_ok (eval_loop chk f pc1 st1)" for st1
      using less.hyps GetScriptOp_rest_less by blast
    then have "okR state_ok (bindE (eval_step chk f opc v pc1 st) (eval_loop chk f pc1))"
      using eval_step_ok [OF less.prems] by (rule okR_bindE_pre [rotated])
    with op less.prems show ?thesis by (simp add: eval_loop.simps [of _ _ pc] ok_intros)
  qed
qed

section \<open>Reachable states\<close>

text \<open>The machine as a step relation on the rest of the script and the state.\<close>

inductive eval_steps ::
  "sig_checker \<Rightarrow> u32 \<Rightarrow> bytes \<times> exec_state \<Rightarrow> bytes \<times> exec_state \<Rightarrow> bool"
  for chk flags where
  start: "eval_steps chk flags c c"
| step: "\<lbrakk>eval_steps chk flags c (pc, st); GetScriptOp pc = Some (opc, v, pc1);
          eval_step chk flags opc v pc1 st = Inr st1\<rbrakk> \<Longrightarrow> eval_steps chk flags c (pc1, st1)"

lemma eval_steps_state_ok:
  "eval_steps chk flags c c' \<Longrightarrow> state_ok (snd c) \<Longrightarrow> state_ok (snd c')"
  by (induction rule: eval_steps.induct) (auto dest: eval_step_ok intro: okR_D)

lemma eval_loop_Cons:
  "GetScriptOp pc = Some (opc, v, pc1) \<Longrightarrow>
     eval_loop chk flags pc st = bindE (eval_step chk flags opc v pc1 st) (eval_loop chk flags pc1)"
  by (auto simp: eval_loop.simps [of _ _ pc])

lemma eval_loop_Nil [simp]: "eval_loop chk flags [] st = Inr st"
  by (simp add: eval_loop.simps)

lemma eval_steps_loop:
  "eval_steps chk flags c c' \<Longrightarrow>
     eval_loop chk flags (fst c) (snd c) = eval_loop chk flags (fst c') (snd c')"
  by (induction rule: eval_steps.induct) (auto simp: eval_loop_Cons)

lemma eval_loop_steps:
  assumes "eval_steps chk flags c (pc, st)" "eval_loop chk flags pc st = Inr st'"
  shows "eval_steps chk flags c ([], st')"
  using assms
proof (induction "length pc" arbitrary: pc st rule: less_induct)
  case less
  show ?case
  proof (cases "pc = []")
    case False
    with less.prems(2) obtain opc v pc1 st1 where op: "GetScriptOp pc = Some (opc, v, pc1)"
      "eval_step chk flags opc v pc1 st = Inr st1" "eval_loop chk flags pc1 st1 = Inr st'"
      by (subst (asm) eval_loop.simps) (auto split: option.splits)
    then show ?thesis
      using less.hyps [of pc1 st1] eval_steps.step [OF less.prems(1) op(1,2)]
        GetScriptOp_rest_less [OF op(1)] by blast
  qed (use less.prems in simp)
qed

lemma eval_loop_iff_steps:
  "eval_loop chk flags pc st = Inr st' \<longleftrightarrow> eval_steps chk flags (pc, st) ([], st')"
  using eval_loop_steps [OF eval_steps.start] eval_steps_loop [of chk flags "(pc, st)" "([], st')"]
  by auto

definition init_state :: "bytes \<Rightarrow> bytes list \<Rightarrow> exec_state" where
  "init_state script stk = \<lparr>stack = stk, altstack = [], vfExec = [], nOpCount = 0, codehash = script\<rparr>"

lemma init_state_ok: "elems_ok stk \<Longrightarrow> length stk \<le> MAX_STACK_SIZE \<Longrightarrow> state_ok (init_state script stk)"
  by (simp add: state_ok_def init_state_def)

section \<open>Scripts that cannot succeed\<close>

lemma EvalScript_OP_RETURN:
  assumes "unat b = OP_RETURN"
  shows "\<exists>e. EvalScript chk flags (b # s) stk = Inl e"
proof -
  have "GetScriptOp (b # s) = Some (OP_RETURN, [], s)" using assms by simp
  moreover have "\<exists>e. eval_step chk flags OP_RETURN [] s (init_state (b # s) stk) = Inl e"
    by (simp add: eval_step_def init_state_def exec_opcode_def script_limits dip0020_opcodes_def
        disabled_opcodes_def)
  ultimately show ?thesis
    by (auto simp: EvalScript_def eval_loop_Cons init_state_def)
qed

lemma EvalScript_P2SH_empty:
  assumes "IsPayToScriptHash spk"
  shows "\<exists>e. EvalScript chk flags spk [] = Inl e"
proof -
  obtain h where spk: "spk = 0xa9 # push_vector h @ push_opcode OP_EQUAL"
    using assms by (auto simp: IsPayToScriptHash_iff push_opcode_def)
  have op: "GetScriptOp spk = Some (OP_HASH160, [], push_vector h @ push_opcode OP_EQUAL)"
    by (simp add: spk)
  have "\<exists>e. eval_step chk flags OP_HASH160 [] pc (init_state spk []) = Inl e" for pc
    by (simp add: eval_step_def init_state_def exec_opcode_def stack_ops_def unary_num_ops_def
        binary_num_ops_def set_stack_def op_hash_def script_limits dip0020_opcodes_def
        disabled_opcodes_def)
  then obtain e where
    "eval_step chk flags OP_HASH160 [] (push_vector h @ push_opcode OP_EQUAL) (init_state spk []) = Inl e"
    by blast
  then have "eval_loop chk flags spk (init_state spk []) = Inl e"
    by (simp add: eval_loop_Cons [OF op])
  then show ?thesis by (auto simp: EvalScript_def init_state_def)
qed

lemma evalV_no_assertion: "evalV chk flags script stk \<noteq> Inl AssertionFailure"
  by (cases "EvalScript chk flags script stk") (simp_all add: evalV_def)

lemma check_true_no_assertion: "check_true stk \<noteq> Inl AssertionFailure"
  by (simp add: check_true_def split: list.splits)

lemma bindE_InlE:
  assumes "bindE m f = Inl e"
  obtains "m = Inl e" | x where "m = Inr x" "f x = Inl e"
  using assms by (cases m) auto

lemma VerifyScript_no_assertion:
  assumes "flag flags SCRIPT_VERIFY_CLEANSTACK \<Longrightarrow> flag flags SCRIPT_VERIFY_P2SH"
  shows "VerifyScript scriptSig spk flags chk \<noteq> Inl AssertionFailure"
proof
  assume "VerifyScript scriptSig spk flags chk = Inl AssertionFailure"
  then obtain s1 s2 where e: "evalV chk flags scriptSig [] = Inr s1" "evalV chk flags spk s1 = Inr s2"
    and p: "flag flags SCRIPT_VERIFY_P2SH" "IsPayToScriptHash spk" "s1 = []"
    using assms
    by (auto simp: VerifyScript_def evalV_no_assertion check_true_no_assertion
        elim!: bindE_InlE split: if_splits list.splits)
  from p EvalScript_P2SH_empty obtain err where "EvalScript chk flags spk [] = Inl err" by blast
  with e(2) p(3) show False by (simp add: evalV_def)
qed

section \<open>Properties\<close>

definition chk0 :: sig_checker where
  "chk0 = \<lparr>CheckSig = (\<lambda>_ _ _. False), CheckLockTime = (\<lambda>_. False), CheckSequence = (\<lambda>_. False),
     CheckLowS = (\<lambda>_. False), VerifyHash = (\<lambda>_ _ _. False)\<rparr>"

text \<open>
C2: Resource bounds of script execution. Start \<open>EvalScript\<close> on a stack of at most 1000 elements, none
longer than 520 bytes. In every state the loop reaches, no element of the two stacks is longer
than 520 bytes, the stacks together hold at most 1000 elements and at most 201 operations have
been counted.
\<close>

theorem EvalScript_resource_bounds:
  assumes "eval_steps chk flags (script, init_state script stk) (pc, st)"
    and "list_all (\<lambda>x. length x \<le> 520) stk" and "length stk \<le> 1000"
  shows "list_all (\<lambda>x. length x \<le> 520) (stack st @ altstack st)
     \<and> length (stack st) + length (altstack st) \<le> 1000 \<and> nOpCount st \<le> 201"
  using eval_steps_state_ok [OF assms(1)] init_state_ok [of stk script] assms(2,3)
  by (simp add: state_ok_def elems_ok_def script_limits)

theorem EvalScript_resource_bounds_witness:
  "eval_steps chk0 0 ([0x51], init_state [0x51] []) ([], (init_state [0x51] [])\<lparr>stack := [serialize_num 1]\<rparr>)
   \<and> length (stack ((init_state [0x51] [])\<lparr>stack := [serialize_num 1]\<rparr>)) \<le> 1000"
proof -
  have "eval_step chk0 0 0x51 [] [] (init_state [0x51] [])
      = Inr ((init_state [0x51] [])\<lparr>stack := [serialize_num 1]\<rparr>)"
    by (simp add: eval_step_def init_state_def exec_opcode_def script_limits dip0020_opcodes_def
        disabled_opcodes_def)
  then have run: "eval_steps chk0 0 ([0x51], init_state [0x51] [])
      ([], (init_state [0x51] [])\<lparr>stack := [serialize_num 1]\<rparr>)"
    by (intro eval_steps.step [OF eval_steps.start]) simp_all
  then show ?thesis
    using EvalScript_resource_bounds [OF run] by simp
qed

text \<open>
C20: Outputs that \<open>IsUnspendable\<close> reports, and that are therefore never put into the coin database,
really cannot be spent: no script signature, no flags and no transaction make \<open>VerifyScript\<close> accept.
\<close>

theorem IsUnspendable_sound:
  assumes "IsUnspendable scriptPubKey"
  shows "VerifyScript scriptSig scriptPubKey flags chk \<noteq> Inr ()"
proof -
  have "\<exists>e. EvalScript chk flags scriptPubKey stk = Inl e" for stk
  proof (cases "length scriptPubKey > MAX_SCRIPT_SIZE")
    case False
    with assms obtain b s where "scriptPubKey = b # s" "unat b = OP_RETURN"
      by (cases scriptPubKey) (auto simp: IsUnspendable_def)
    then show ?thesis using EvalScript_OP_RETURN by blast
  qed (simp add: EvalScript_def)
  then have "evalV chk flags scriptPubKey stk \<noteq> Inr s" for stk s
    unfolding evalV_def by (metis Inl_Inr_False map_sum.simps(1))
  then show ?thesis
    by (auto simp: VerifyScript_def split: if_splits)
qed

theorem IsUnspendable_sound_witness:
  "VerifyScript [0x51] [0x6a, 0x51] 0 chk0 \<noteq> Inr ()"
  by (rule IsUnspendable_sound) (simp add: IsUnspendable_def)

text \<open>
C19: The assertions of \<open>VerifyScript\<close> hold. As long as the flags do not ask for a clean stack without
P2SH, \<open>VerifyScript\<close> never fails an assertion; in particular the stack saved for the P2SH evaluation
is never empty when it is used, as the comment in the code argues.
\<close>

theorem VerifyScript_assertions_hold:
  assumes "flag flags SCRIPT_VERIFY_CLEANSTACK \<Longrightarrow> flag flags SCRIPT_VERIFY_P2SH"
  shows "VerifyScript scriptSig scriptPubKey flags chk \<noteq> Inl AssertionFailure"
  using assms by (rule VerifyScript_no_assertion)

theorem VerifyScript_assertions_hold_witness:
  "VerifyScript [] ([0xa9, 0x14] @ replicate 20 0 @ [0x87]) SCRIPT_VERIFY_P2SH chk0 \<noteq> Inl AssertionFailure"
  by (rule VerifyScript_assertions_hold)
    (simp add: flag_def SCRIPT_VERIFY_CLEANSTACK_def SCRIPT_VERIFY_P2SH_def push_bit_eq_mult)

end
