(* ===== verification/ScriptSpec.thy ===== *)
theory ScriptSpec
  imports ScriptSafety "HOL-Library.Sublist"
begin

unbundle bit_operations_syntax

text \<open>
  Functional specifications of script execution: what a pay-to-public-key-hash spend verifies,
  what \<open>CHECKMULTISIG\<close> decides, and the conversions between numbers and byte strings.
\<close>

section \<open>Pay to public-key hash\<close>

lemma eval_step_push:
  assumes "vfExec st = []" "opc \<le> OP_PUSHDATA4" "length v \<le> MAX_SCRIPT_ELEMENT_SIZE"
    and "CheckMinimalPush v opc" "length (stack st) + length (altstack st) < MAX_STACK_SIZE"
  shows "eval_step chk flags opc v pc st = Inr (st\<lparr>stack := v # stack st\<rparr>)"
  using assms by (simp add: eval_step_def dip0020_opcodes_def disabled_opcodes_def)

lemma eval_step_exec:
  assumes "vfExec st = []" "OP_16 < opc" "nOpCount st < MAX_OPS_PER_SCRIPT"
    and "opc \<notin> set dip0020_opcodes" "opc \<notin> set disabled_opcodes" "opc \<noteq> OP_CODESEPARATOR"
  shows "eval_step chk flags opc [] pc st =
     bindE (exec_opcode chk flags opc True pc (st\<lparr>nOpCount := nOpCount st + 1\<rparr>))
       (\<lambda>st2. if length (stack st2) + length (altstack st2) > MAX_STACK_SIZE
              then Inl SCRIPT_ERR_STACK_SIZE else Inr st2)"
  using assms by (simp add: eval_step_def)

lemma CheckMinimalPush_push_vector:
  "2 \<le> length v \<Longrightarrow> length v \<le> 75 \<Longrightarrow> CheckMinimalPush v (push_vector_opcode v)"
  by (auto simp: CheckMinimalPush_def push_vector_opcode_def)

definition p2pkh :: "bytes \<Rightarrow> bytes" where
  "p2pkh h = push_opcode OP_DUP @ push_opcode OP_HASH160 @ push_vector h
             @ push_opcode OP_EQUALVERIFY @ push_opcode OP_CHECKSIG"

lemma eval_push:
  assumes "vfExec st = []" "2 \<le> length v" "length v \<le> 75"
    and "length (stack st) + length (altstack st) < MAX_STACK_SIZE"
  shows "eval_loop chk flags (push_vector v @ pc) st = eval_loop chk flags pc (st\<lparr>stack := v # stack st\<rparr>)"
proof -
  have op: "GetScriptOp (push_vector v @ pc) = Some (push_vector_opcode v, v, pc)"
    using assms(3) by (intro GetScriptOp_push_vector) simp
  have "eval_step chk flags (push_vector_opcode v) v pc st = Inr (st\<lparr>stack := v # stack st\<rparr>)"
    using assms push_vector_opcode_le
    by (intro eval_step_push CheckMinimalPush_push_vector) (simp_all add: MAX_SCRIPT_ELEMENT_SIZE_def)
  then show ?thesis by (simp add: eval_loop_Cons [OF op])
qed

lemma push_vector_bytes: "length v \<le> 75 \<Longrightarrow> push_vector v = of_nat (length v) # v"
  by (simp add: push_vector_def)

lemma EvalScript_sig:
  assumes "2 \<le> length s" "length s \<le> 75" "2 \<le> length k" "length k \<le> 75"
  shows "EvalScript chk flags (push_vector s @ push_vector k) [] = Inr [k, s]"
  using assms eval_push [where v = s and pc = "push_vector k"] eval_push [where v = k and pc = "[]"]
  by (simp add: EvalScript_def script_limits push_vector_bytes)

lemma FindAndDelete_nothing:
  assumes "find_delete_loop b s = (res, pc, 0)"
  shows "FindAndDelete s b = (s, 0)"
  using assms by (simp add: FindAndDelete_def)

lemma skip_none: "take (length b) pc \<noteq> b \<Longrightarrow> skip_matches b pc = (pc, 0)"
  by (simp add: skip_matches.simps)

lemma find_delete_none:
  "take (length b) pc \<noteq> b \<Longrightarrow> GetScriptOp pc = Some (opc, v, pc1) \<Longrightarrow>
     snd (snd (find_delete_loop b pc)) = snd (snd (find_delete_loop b pc1))"
  by (subst find_delete_loop.simps) (simp add: skip_none split: prod.split)

lemma FindAndDelete_p2pkh:
  assumes "length h = 20" "2 \<le> length s" "length s \<le> 75" "s \<noteq> h"
  shows "FindAndDelete (p2pkh h) (push_vector s) = (p2pkh h, 0)"
proof -
  let ?b = "push_vector s"
  have b: "?b = of_nat (length s) # s" using assms by (simp add: push_vector_bytes)
  have hd: "take (length ?b) (x # r) \<noteq> ?b" if "unat x > 75" for x r
    using that assms(3) by (auto simp: b)
  have h: "push_vector h = 0x14 # h" using assms(1) by (simp add: push_vector_bytes)
  have "take (length ?b) (push_vector h @ r) \<noteq> ?b" for r
  proof
    assume eq: "take (length ?b) (push_vector h @ r) = ?b"
    then have "(0x14 :: byte) = of_nat (length s)" by (simp add: b h)
    then have "unat (0x14 :: byte) = length s mod 256" by (metis unat_of_nat_byte)
    then have "length s = 20" using assms(3) by simp
    with eq assms(1,4) show False by (simp add: b h)
  qed
  note nomatch = hd this
  let ?n = "\<lambda>pc. snd (snd (find_delete_loop ?b pc))"
  have "p2pkh h = 0x76 # 0xa9 # push_vector h @ [0x88, 0xac]"
    by (simp add: p2pkh_def push_opcode_def)
  also have "?n \<dots> = ?n (0xa9 # push_vector h @ [0x88, 0xac])"
    by (rule find_delete_none [OF nomatch(1)]) simp_all
  also have "\<dots> = ?n (push_vector h @ [0x88, 0xac])"
    by (rule find_delete_none [OF nomatch(1)]) simp_all
  also have "\<dots> = ?n [0x88, 0xac]"
    by (rule find_delete_none [OF nomatch(2)], rule GetScriptOp_push_vector) (simp add: assms(1))
  also have "\<dots> = ?n [0xac]"
    by (rule find_delete_none [OF nomatch(1)]) simp_all
  also have "\<dots> = ?n []"
    by (rule find_delete_none [OF nomatch(1)]) simp_all
  also have "\<dots> = 0"
    by (subst find_delete_loop.simps) (simp add: skip_none push_vector_neq_Nil [symmetric])
  finally have "?n (p2pkh h) = 0" .
  then show ?thesis by (cases "find_delete_loop ?b (p2pkh h)") (simp add: FindAndDelete_nothing)
qed

lemma EvalScript_p2pkh:
  assumes h: "length h = 20" and s: "2 \<le> length s" "length s \<le> 75" "s \<noteq> h"
  shows "EvalScript chk flags (p2pkh h) [k, s] =
    (if HASH160 k \<noteq> h then Inl SCRIPT_ERR_EQUALVERIFY
     else bindE (check_encodings chk flags s k) (\<lambda>_.
       if CheckSig chk s k (p2pkh h) then Inr [[1]]
       else if flag flags SCRIPT_VERIFY_NULLFAIL then Inl SCRIPT_ERR_SIG_NULLFAIL else Inr [[]]))"
proof -
  let ?st = "\<lambda>stk n. \<lparr>stack = stk, altstack = [], vfExec = [], nOpCount = n, codehash = p2pkh h\<rparr>"
  let ?t1 = "push_vector h @ [0x88, 0xac]"
  note ex = eval_step_exec exec_opcode_def dip0020_opcodes_def disabled_opcodes_def script_limits
    stack_ops_def stack_op_def unary_num_ops_def binary_num_ops_def set_stack_def
  have p: "p2pkh h = 0x76 # 0xa9 # ?t1"
    by (simp add: p2pkh_def push_opcode_def)
  have "eval_loop chk flags (0x76 # 0xa9 # ?t1) (?st [k, s] 0) = eval_loop chk flags (0xa9 # ?t1) (?st [k, k, s] (Suc 0))"
    by (simp add: eval_loop_Cons ex)
  also have "\<dots> = eval_loop chk flags ?t1 (?st [HASH160 k, k, s] (Suc (Suc 0)))"
    by (simp add: eval_loop_Cons ex op_hash_def hash_op_def)
  also have "\<dots> = eval_loop chk flags [0x88, 0xac] (?st [h, HASH160 k, k, s] (Suc (Suc 0)))"
    using h by (subst eval_push) (simp_all add: script_limits)
  also have "\<dots> = (if HASH160 k \<noteq> h then Inl SCRIPT_ERR_EQUALVERIFY
      else eval_loop chk flags [0xac] (?st [k, s] (Suc (Suc (Suc 0)))))"
    by (simp add: eval_loop_Cons ex op_equal_def push_bool_def)
  also have "eval_loop chk flags [0xac] (?st [k, s] (Suc (Suc (Suc 0)))) =
     bindE (check_encodings chk flags s k) (\<lambda>_.
       if CheckSig chk s k (p2pkh h) then Inr (?st [[1]] (Suc (Suc (Suc (Suc 0)))))
       else if flag flags SCRIPT_VERIFY_NULLFAIL then Inl SCRIPT_ERR_SIG_NULLFAIL else Inr (?st [[]] (Suc (Suc (Suc (Suc 0))))))"
    using s FindAndDelete_p2pkh [OF h s]
    by (cases "check_encodings chk flags s k")
      (auto simp: eval_loop_Cons ex op_checksig_def push_bool_def vchBool_def)
  finally show ?thesis
    using h by (cases "check_encodings chk flags s k")
      (simp_all add: EvalScript_def p script_limits push_vector_bytes)
qed

lemma check_true_simps [simp]:
  "check_true [[1]] = Inr ()" "check_true [[]] = Inl (ScriptFailure SCRIPT_ERR_EVAL_FALSE)"
  by (simp_all add: check_true_def)

lemma not_p2sh_p2pkh: "length h = 20 \<Longrightarrow> \<not> IsPayToScriptHash (p2pkh h)"
  by (simp add: IsPayToScriptHash_def p2pkh_def push_opcode_def push_vector_bytes)

section \<open>Multiple signatures\<close>

text \<open>
  What \<open>CHECKMULTISIG\<close> should decide: the keys contain, in the same order, a signer for each
  signature.
\<close>

definition multisig_spec :: "sig_checker \<Rightarrow> bytes \<Rightarrow> bytes list \<Rightarrow> bytes list \<Rightarrow> bool" where
  "multisig_spec chk c sigs keys \<longleftrightarrow>
     (\<exists>ks. subseq ks keys \<and> list_all2 (\<lambda>s k. CheckSig chk s k c) sigs ks)"

lemma multisig_spec_Nil [simp]: "multisig_spec chk c [] keys"
  by (auto simp: multisig_spec_def)









section \<open>Numbers as byte strings\<close>

lemma set_vch_pad_num:
  assumes "length raw < n"
  shows "set_vch (pad_num raw n) = set_vch raw"
proof (cases raw rule: rev_cases)
  case Nil
  then show ?thesis using set_vch_snoc [of "replicate (n - 1) 0" 0] by (simp add: pad_num_def)
next
  case (snoc xs l)
  define zs :: bytes where "zs = xs @ [l AND 0x7F] @ replicate (n - 1 - length raw) 0"
  have val: "le_val zs = le_val xs + 256 ^ length xs * (unat l mod 128)"
    by (simp add: zs_def le_val_append byte_and_7F)
  have "pad_num raw n = zs @ [l AND 0x80]" by (simp add: pad_num_def snoc zs_def)
  moreover have "set_vch (zs @ [l AND 0x80]) = set_vch (xs @ [l])"
  proof (cases "unat l < 128")
    case True
    then show ?thesis by (simp add: set_vch_snoc byte_and_80 val)
  next
    case False
    moreover have "unat l - 128 < 128" using unat_byte_lt [of l] by linarith
    ultimately have "unat l mod 128 = unat l - 128" by (simp add: mod_if [of "unat l"])
    with False show ?thesis
      by (simp add: set_vch_snoc byte_and_80 val del: of_nat_add of_nat_mult of_nat_diff)
  qed
  ultimately show ?thesis by (simp add: snoc)
qed

text \<open>A successful \<open>NUM2BIN\<close> yields a string of the requested size with the same numeric value.\<close>

lemma op_num2bin_value:
  assumes "op_num2bin flags (m # x # r) = Inr s"
  shows "\<exists>y n. s = y # r \<and> set_vch y = set_vch x
     \<and> script_num flags nDefaultMaxNumSize m = Inr n \<and> int (length y) = n"
proof -
  obtain n where n: "script_num flags nDefaultMaxNumSize m = Inr n"
    using assms by (auto simp: op_num2bin_def)
  have bound: "\<bar>n\<bar> < 2 ^ 31" using n by (rule script_num_bound)
  then have g: "getint n = n" unfolding getint_def by auto
  let ?raw = "fst (MinimallyEncode x)" and ?k = "nat (n mod 2 ^ 64)"
  have raw: "set_vch ?raw = set_vch x" by (simp add: MinimallyEncode_eq set_vch_serialize_num)
  have res: "s = (if length ?raw = ?k then ?raw else pad_num ?raw ?k) # r" "length ?raw \<le> ?k"
    "?k \<le> MAX_SCRIPT_ELEMENT_SIZE"
    using assms by (auto simp: op_num2bin_def n g Let_def split: if_splits)
  have "int ?k = n"
  proof (cases "n < 0")
    case True
    then have "n mod 2 ^ 64 = n + 2 ^ 64"
      using bound mod_pos_pos_trivial [of "n + 2 ^ 64" "2 ^ 64"] by simp
    then show ?thesis using res(3) bound by (simp add: MAX_SCRIPT_ELEMENT_SIZE_def)
  qed (use bound in simp)
  then show ?thesis
    using res raw n set_vch_pad_num [of ?raw ?k] length_pad_num [of ?raw ?k] by auto
qed

section \<open>Properties\<close>

text \<open>
C3: Spending a pay-to-public-key-hash output. For a script signature that pushes a signature and a
key (each of 2 to 75 bytes, the signature not equal to the key hash), \<open>VerifyScript\<close> accepts under
any flags exactly when the key hashes to the 20 bytes in the output, the signature and key
encodings pass the checks the flags ask for, and the signature verifies for that very script.
\<close>

theorem VerifyScript_P2PKH:
  assumes "length h = 20" and "length s \<in> {2..75}" and "length k \<in> {2..75}" and "s \<noteq> h"
    and "flag flags SCRIPT_VERIFY_CLEANSTACK \<Longrightarrow> flag flags SCRIPT_VERIFY_P2SH"
  shows "VerifyScript (push_vector s @ push_vector k) (p2pkh h) flags chk = Inr () \<longleftrightarrow>
     HASH160 k = h \<and> check_encodings chk flags s k = Inr () \<and> CheckSig chk s k (p2pkh h)"
proof -
  have "IsPushOnly (push_vector s @ push_vector k)"
    using assms(2,3) by (simp add: IsPushOnly_append)
  moreover have "evalV chk flags (push_vector s @ push_vector k) [] = Inr [k, s]"
    using assms(2,3) by (simp add: evalV_def EvalScript_sig)
  ultimately show ?thesis
    using assms not_p2sh_p2pkh [OF assms(1)] EvalScript_p2pkh [of h s chk flags k]
    by (cases "check_encodings chk flags s k") (auto simp: VerifyScript_def evalV_def)
qed

text \<open>A checker that accepts the signature \<open>[1, 1]\<close> only.\<close>

definition chk1 :: sig_checker where
  "chk1 = \<lparr>CheckSig = (\<lambda>s _ _. s = [1, 1]), CheckLockTime = (\<lambda>_. False), CheckSequence = (\<lambda>_. False),
     CheckLowS = (\<lambda>_. False), VerifyHash = (\<lambda>_ _ _. False)\<rparr>"

theorem VerifyScript_P2PKH_witness:
  "VerifyScript (push_vector [1, 1] @ push_vector [2, 2]) (p2pkh (HASH160 [2, 2])) 0 chk1 = Inr ()"
proof -
  have ne: "[1, 1] \<noteq> HASH160 [2, 2]" by (rule notI, drule arg_cong [of _ _ length]) simp
  have "check_encodings chk1 0 [1, 1] [2, 2] = Inr ()"
    by (simp add: check_encodings_def CheckSignatureEncoding_def CheckPubKeyEncoding_def flag_def)
  moreover have "CheckSig chk1 [1, 1] [2, 2] c" for c by (simp add: chk1_def)
  ultimately show ?thesis
    using VerifyScript_P2PKH [of "HASH160 [2, 2]" "[1, 1]" "[2, 2]" 0 chk1] ne
    by (simp add: flag_def)
qed



text \<open>
  \<open>NUM2BIN\<close> keeps the number. When it succeeds, its result has exactly the requested length and
decodes to the same number as its argument, whatever padding or negative zero the argument had;
and \<open>BIN2NUM\<close> of that result is the minimal encoding of the number when it is at most four bytes.
\<close>

lemma NUM2BIN_BIN2NUM:
  assumes "op_num2bin flags (m # x # r) = Inr s"
  shows "\<exists>y n. s = y # r \<and> set_vch y = set_vch x
     \<and> script_num flags nDefaultMaxNumSize m = Inr n \<and> int (length y) = n
     \<and> op_bin2num s = (if length (serialize_num (set_vch x)) \<le> 4 then Inr (serialize_num (set_vch x) # r)
                       else Inl SCRIPT_ERR_INVALID_NUMBER_RANGE)"
proof -
  obtain y n where y: "s = y # r" "set_vch y = set_vch x"
    "script_num flags nDefaultMaxNumSize m = Inr n" "int (length y) = n"
    using op_num2bin_value [OF assms] by blast
  moreover have "op_bin2num (y # r) =
     (if length (serialize_num (set_vch x)) \<le> 4 then Inr (serialize_num (set_vch x) # r)
      else Inl SCRIPT_ERR_INVALID_NUMBER_RANGE)"
    by (simp add: op_bin2num_def MinimallyEncode_eq y(2) minimal_iff set_vch_serialize_num
        nDefaultMaxNumSize_def)
  ultimately show ?thesis by blast
qed

end
