(* ===== verification/ArithUint256.thy ===== *)
theory ArithUint256
  imports Prelude
begin

unbundle bit_operations_syntax

text \<open>
  \<open>base_uint<256>\<close> and \<open>arith_uint256\<close> (\<open>arith_uint256.h\<close>, \<open>arith_uint256.cpp\<close>). A number is the array \<open>pn\<close>
  of eight 32-bit limbs, least significant first. Intermediate \<open>uint64_t\<close> values are naturals
  reduced modulo \<open>2 ^ 64\<close>. \<open>val\<close> is the number an array stands for; the lemmas show that every operator
  computes the corresponding operation on naturals modulo \<open>2 ^ 256\<close>.
\<close>

type_synonym base_uint = "u32 list"

definition WIDTH :: nat where
  "WIDTH = 8"

fun val :: "base_uint \<Rightarrow> nat" where
  "val [] = 0"
| "val (x # xs) = unat x + 2 ^ 32 * val xs"

section \<open>Model: addition, negation, comparison\<close>

definition uint_of_u64 :: "nat \<Rightarrow> base_uint" where
  "uint_of_u64 b = of_nat b # of_nat (b div 2 ^ 32) # replicate (WIDTH - 2) 0"

fun add_loop :: "nat \<Rightarrow> base_uint \<Rightarrow> base_uint \<Rightarrow> base_uint" where
  "add_loop carry (x # xs) (y # ys) =
     (let n = (carry + unat x + unat y) mod 2 ^ 64
      in of_nat (n mod 2 ^ 32) # add_loop (n div 2 ^ 32) xs ys)"
| "add_loop carry _ _ = []"

definition uint_add :: "base_uint \<Rightarrow> base_uint \<Rightarrow> base_uint" where
  "uint_add a b = add_loop 0 a b"

definition uint_not :: "base_uint \<Rightarrow> base_uint" where
  "uint_not a = map (\<lambda>x. NOT x) a"

text \<open>\<open>operator++\<close> and \<open>operator--\<close>: the loop goes on while a limb wraps.\<close>

fun uint_inc :: "base_uint \<Rightarrow> base_uint" where
  "uint_inc [] = []"
| "uint_inc (x # xs) = (if x + 1 = 0 then 0 # uint_inc xs else (x + 1) # xs)"

fun uint_dec :: "base_uint \<Rightarrow> base_uint" where
  "uint_dec [] = []"
| "uint_dec (x # xs) = (if x - 1 = 0xFFFFFFFF then 0xFFFFFFFF # uint_dec xs else (x - 1) # xs)"

definition uint_neg :: "base_uint \<Rightarrow> base_uint" where
  "uint_neg a = uint_inc (uint_not a)"

definition uint_sub :: "base_uint \<Rightarrow> base_uint \<Rightarrow> base_uint" where
  "uint_sub a b = uint_add a (uint_neg b)"

text \<open>\<open>CompareTo\<close> on the limbs from the most significant one down.\<close>

fun compare_limbs :: "base_uint \<Rightarrow> base_uint \<Rightarrow> int" where
  "compare_limbs (x # xs) (y # ys) = (if x < y then -1 else if x > y then 1 else compare_limbs xs ys)"
| "compare_limbs _ _ = 0"

definition CompareTo :: "base_uint \<Rightarrow> base_uint \<Rightarrow> int" where
  "CompareTo a b = compare_limbs (rev a) (rev b)"

definition EqualTo :: "base_uint \<Rightarrow> nat \<Rightarrow> bool" where
  "EqualTo a b \<longleftrightarrow>
     (if \<exists>x \<in> set (drop 2 a). x \<noteq> 0 then False
      else if unat (a ! 1) \<noteq> b div 2 ^ 32 then False
      else if unat (a ! 0) \<noteq> b mod 2 ^ 32 then False
      else True)"

definition GetLow64 :: "base_uint \<Rightarrow> nat" where
  "GetLow64 a = unat (a ! 0) + 2 ^ 32 * unat (a ! 1)"

section \<open>Model: multiplication\<close>

fun mul32_loop :: "nat \<Rightarrow> nat \<Rightarrow> base_uint \<Rightarrow> base_uint" where
  "mul32_loop carry b32 [] = []"
| "mul32_loop carry b32 (x # xs) =
     (let n = (carry + b32 * unat x) mod 2 ^ 64
      in of_nat (n mod 2 ^ 32) # mul32_loop (n div 2 ^ 32) b32 xs)"

definition uint_mul32 :: "base_uint \<Rightarrow> u32 \<Rightarrow> base_uint" where
  "uint_mul32 a b32 = mul32_loop 0 (unat b32) a"

text \<open>The inner loop for one limb \<open>p\<close> of the left factor, over \<open>a.pn[j..]\<close> and \<open>b.pn[0..]\<close>.\<close>

fun mul_row :: "nat \<Rightarrow> nat \<Rightarrow> base_uint \<Rightarrow> base_uint \<Rightarrow> base_uint" where
  "mul_row carry p (x # xs) (y # ys) =
     (let n = (carry + unat x + p * unat y) mod 2 ^ 64
      in of_nat (n mod 2 ^ 32) # mul_row (n div 2 ^ 32) p xs ys)"
| "mul_row carry p _ _ = []"

definition uint_mul :: "base_uint \<Rightarrow> base_uint \<Rightarrow> base_uint" where
  "uint_mul pn b =
     foldl (\<lambda>a j. take j a @ mul_row 0 (unat (pn ! j)) (drop j a) b) (replicate WIDTH 0) [0..<WIDTH]"

section \<open>Model: shifts, bit length and division\<close>

text \<open>One iteration of the loop of \<open>operator<<=\<close>; the array \<open>pn\<close> starts out zero.\<close>

definition shl_step :: "base_uint \<Rightarrow> nat \<Rightarrow> nat \<Rightarrow> base_uint \<Rightarrow> nat \<Rightarrow> base_uint" where
  "shl_step a k sh pn i =
     (let pn1 = (if i + k + 1 < WIDTH \<and> sh \<noteq> 0
                 then pn[i + k + 1 := pn ! (i + k + 1) OR drop_bit (32 - sh) (a ! i)] else pn)
      in if i + k < WIDTH then pn1[i + k := pn1 ! (i + k) OR push_bit sh (a ! i)] else pn1)"

definition uint_shl :: "base_uint \<Rightarrow> nat \<Rightarrow> base_uint" where
  "uint_shl a shift =
     foldl (shl_step a (shift div 32) (shift mod 32)) (replicate WIDTH 0) [0..<WIDTH]"

definition shr_step :: "base_uint \<Rightarrow> nat \<Rightarrow> nat \<Rightarrow> base_uint \<Rightarrow> nat \<Rightarrow> base_uint" where
  "shr_step a k sh pn i =
     (let pn1 = (if i \<ge> k + 1 \<and> sh \<noteq> 0
                 then pn[i - k - 1 := pn ! (i - k - 1) OR push_bit (32 - sh) (a ! i)] else pn)
      in if i \<ge> k then pn1[i - k := pn1 ! (i - k) OR drop_bit sh (a ! i)] else pn1)"

definition uint_shr :: "base_uint \<Rightarrow> nat \<Rightarrow> base_uint" where
  "uint_shr a shift =
     foldl (shr_step a (shift div 32) (shift mod 32)) (replicate WIDTH 0) [0..<WIDTH]"

text \<open>\<open>bits()\<close>: the scan over the bits of the highest non-zero limb, and the scan over the limbs.\<close>

fun limb_bits :: "u32 \<Rightarrow> nat \<Rightarrow> nat" where
  "limb_bits x 0 = 1"
| "limb_bits x (Suc n) = (if x AND push_bit (Suc n) 1 \<noteq> 0 then Suc n + 1 else limb_bits x n)"

fun bits_loop :: "base_uint \<Rightarrow> nat \<Rightarrow> nat" where
  "bits_loop a 0 = 0"
| "bits_loop a (Suc pos) =
     (if a ! pos \<noteq> 0 then 32 * pos + limb_bits (a ! pos) 31 else bits_loop a pos)"

definition uint_bits :: "base_uint \<Rightarrow> nat" where
  "uint_bits a = bits_loop a WIDTH"

text \<open>The loop of \<open>operator/=\<close> from \<open>shift\<close> down to 0: quotient and remainder.\<close>

fun div_loop :: "base_uint \<Rightarrow> base_uint \<Rightarrow> base_uint \<Rightarrow> nat \<Rightarrow> base_uint \<times> base_uint" where
  "div_loop num dv q shift =
     (let ge = (CompareTo num dv \<ge> 0);
          num1 = (if ge then uint_sub num dv else num);
          q1 = (if ge then q[shift div 32 := q ! (shift div 32) OR push_bit (shift mod 32) 1] else q)
      in case shift of 0 \<Rightarrow> (q1, num1) | Suc s \<Rightarrow> div_loop num1 (uint_shr dv 1) q1 s)"

declare div_loop.simps [simp del]

text \<open>\<open>None\<close> is the \<open>uint_error\<close> of a division by zero.\<close>

definition uint_div :: "base_uint \<Rightarrow> base_uint \<Rightarrow> base_uint option" where
  "uint_div a b =
     (let num_bits = uint_bits a; div_bits = uint_bits b
      in if div_bits = 0 then None
         else if div_bits > num_bits then Some (replicate WIDTH 0)
         else let shift = num_bits - div_bits
              in Some (fst (div_loop a (uint_shl b shift) (replicate WIDTH 0) shift)))"

section \<open>Model: the compact format\<close>

text \<open>\<open>SetCompact\<close>: the number, the negative flag and the overflow flag.\<close>

definition SetCompact :: "nat \<Rightarrow> base_uint \<times> bool \<times> bool" where
  "SetCompact nCompact =
     (let nSize = nCompact div 2 ^ 24;
          nWord0 = nCompact AND 0x007FFFFF;
          nWord = (if nSize \<le> 3 then nWord0 div 2 ^ (8 * (3 - nSize)) else nWord0);
          v = (if nSize \<le> 3 then uint_of_u64 nWord else uint_shl (uint_of_u64 nWord) (8 * (nSize - 3)))
      in (v, nWord \<noteq> 0 \<and> nCompact AND 0x00800000 \<noteq> 0,
             nWord \<noteq> 0 \<and> (nSize > 34 \<or> (nWord > 0xff \<and> nSize > 33) \<or> (nWord > 0xffff \<and> nSize > 32))))"

text \<open>\<open>GetCompact\<close>; \<open>None\<close> is a failed assertion.\<close>

definition GetCompact :: "base_uint \<Rightarrow> bool \<Rightarrow> nat option" where
  "GetCompact a fNegative =
     (let nSize0 = (uint_bits a + 7) div 8;
          nCompact0 = (if nSize0 \<le> 3 then (GetLow64 a * 2 ^ (8 * (3 - nSize0))) mod 2 ^ 32
                       else GetLow64 (uint_shr a (8 * (nSize0 - 3))) mod 2 ^ 32);
          sgn_bit = (nCompact0 AND 0x00800000 \<noteq> 0);
          nCompact1 = (if sgn_bit then nCompact0 div 2 ^ 8 else nCompact0);
          nSize = (if sgn_bit then nSize0 + 1 else nSize0)
      in if nCompact1 div 2 ^ 23 \<noteq> 0 \<or> nSize \<ge> 256 then None
         else let nCompact2 = nCompact1 OR push_bit 24 nSize
              in Some (nCompact2 OR (if fNegative \<and> nCompact2 AND 0x007FFFFF \<noteq> 0 then 0x00800000 else 0)))"

text \<open>Conversion from and to the 32 bytes of a \<open>uint256\<close>.\<close>

definition ArithToUint256 :: "base_uint \<Rightarrow> bytes" where
  "ArithToUint256 a = concat (map (\<lambda>x. le_bytes 4 (unat x)) a)"

definition UintToArith256 :: "bytes \<Rightarrow> base_uint" where
  "UintToArith256 b = map (\<lambda>x. of_nat (le_val (take 4 (drop (x * 4) b)))) [0..<WIDTH]"

section \<open>Addition and negation modulo \<open>2 ^ 256\<close>\<close>

lemma val_bound: "val xs < 2 ^ (32 * length xs)"
proof (induction xs)
  case (Cons x xs)
  have "unat x < 2 ^ 32" using unsigned_less [of x, where ?'a = nat] by simp
  moreover have "2 ^ 32 * (val xs + 1) \<le> 2 ^ 32 * 2 ^ (32 * length xs)"
    using Cons.IH by (intro mult_le_mono2) simp
  ultimately show ?case by (simp add: power_add)
qed simp

lemma unat_u32_lt: "unat (x :: u32) < 2 ^ 32"
  using unsigned_less [of x, where ?'a = nat] by simp

lemma unat_of_nat_u32: "unat (of_nat n :: u32) = n mod 2 ^ 32"
  by (simp add: unat_of_nat)

lemma mod_limb_split:
  fixes n v k :: nat
  shows "n mod 2 ^ 32 + 2 ^ 32 * ((n div 2 ^ 32 + v) mod 2 ^ k) = (n + 2 ^ 32 * v) mod 2 ^ (32 + k)"
proof -
  have "(n + 2 ^ 32 * v) mod (2 ^ 32 * 2 ^ k)
      = 2 ^ 32 * ((n + 2 ^ 32 * v) div 2 ^ 32 mod 2 ^ k) + (n + 2 ^ 32 * v) mod 2 ^ 32"
    by (rule mod_mult2_eq)
  moreover have "(n + 2 ^ 32 * v) div 2 ^ 32 = n div 2 ^ 32 + v" by simp
  moreover have "(n + 2 ^ 32 * v) mod 2 ^ 32 = n mod 2 ^ 32" by simp
  ultimately have "(n + 2 ^ 32 * v) mod (2 ^ 32 * 2 ^ k)
      = 2 ^ 32 * ((n div 2 ^ 32 + v) mod 2 ^ k) + n mod 2 ^ 32"
    by (simp only:)
  then show ?thesis unfolding power_add by linarith
qed

text \<open>One step of a carry loop: the low half of \<open>n\<close> is stored, the high half carried on.\<close>

lemma val_carry_step:
  assumes "val rest = (n div 2 ^ 32 + v) mod 2 ^ k"
  shows "val (of_nat (n mod 2 ^ 32) # rest) = (n + 2 ^ 32 * v) mod 2 ^ (32 + k)"
proof -
  have "val (of_nat (n mod 2 ^ 32) # rest) = n mod 2 ^ 32 + 2 ^ 32 * val rest"
    by (simp add: unat_of_nat_u32)
  also have "\<dots> = (n + 2 ^ 32 * v) mod 2 ^ (32 + k)"
    unfolding assms by (rule mod_limb_split)
  finally show ?thesis .
qed

lemma length_add_loop [simp]: "length (add_loop c xs ys) = min (length xs) (length ys)"
  by (induction c xs ys rule: add_loop.induct) (auto simp: Let_def)

lemma val_add_loop:
  "length xs = length ys \<Longrightarrow> c < 2 ^ 32 \<Longrightarrow>
     val (add_loop c xs ys) = (c + val xs + val ys) mod 2 ^ (32 * length xs)"
proof (induction xs ys arbitrary: c rule: list_induct2')
  case (4 x xs y ys)
  define n where "n = c + unat x + unat y"
  have n: "n < 2 ^ 34" using 4 unat_u32_lt [of x] unat_u32_lt [of y] by (simp add: n_def)
  then have w: "n mod 2 ^ 64 = n" by simp
  have "n div 2 ^ 32 < 2 ^ 32" using n by (simp add: less_mult_imp_div_less)
  with 4 have "val (add_loop (n div 2 ^ 32) xs ys) = (n div 2 ^ 32 + (val xs + val ys)) mod 2 ^ (32 * length xs)"
    by (simp add: add.assoc)
  then have "val (add_loop c (x # xs) (y # ys)) = (n + 2 ^ 32 * (val xs + val ys)) mod 2 ^ (32 + 32 * length xs)"
    unfolding add_loop.simps Let_def n_def [symmetric] w by (rule val_carry_step)
  then show ?case by (simp add: n_def algebra_simps)
qed auto

lemma length_uint_add [simp]: "length (uint_add a b) = min (length a) (length b)"
  by (simp add: uint_add_def)

lemma val_uint_add: "length a = length b \<Longrightarrow> val (uint_add a b) = (val a + val b) mod 2 ^ (32 * length a)"
  by (simp add: uint_add_def val_add_loop)

lemma length_uint_not [simp]: "length (uint_not a) = length a"
  by (simp add: uint_not_def)

lemma val_uint_not: "val (uint_not a) + val a + 1 = 2 ^ (32 * length a)"
proof (induction a)
  case (Cons x xs)
  have "unat (NOT x) + unat x + 1 = 2 ^ 32"
  proof -
    have "NOT x = - 1 - x" by (simp add: not_eq_complement)
    moreover have "unat (- 1 - x) = unat (- 1 :: u32) - unat x"
      by (rule unat_sub) simp
    ultimately show ?thesis using unat_u32_lt [of x] by (simp add: unsigned_minus_1_eq_mask mask_eq_exp_minus_1)
  qed
  with Cons.IH show ?case
    by (simp add: uint_not_def power_add algebra_simps)
qed (simp add: uint_not_def)

lemma length_uint_inc [simp]: "length (uint_inc a) = length a"
  by (induction a) auto

lemma val_uint_inc: "val (uint_inc a) = (val a + 1) mod 2 ^ (32 * length a)"
proof (induction a)
  case (Cons x xs)
  show ?case
  proof (cases "x + 1 = 0")
    case True
    then have "x = - 1" by (simp add: eq_neg_iff_add_eq_0)
    then have x: "unat x + 1 = 2 ^ 32" by (simp add: unsigned_minus_1_eq_mask mask_eq_exp_minus_1)
    have "val (x # xs) + 1 = 2 ^ 32 * (val xs + 1)" using x by (simp add: algebra_simps)
    moreover have "(2 :: nat) ^ (32 * length (x # xs)) = 2 ^ 32 * 2 ^ (32 * length xs)"
      by (simp add: power_add)
    ultimately have "(val (x # xs) + 1) mod 2 ^ (32 * length (x # xs))
        = 2 ^ 32 * ((val xs + 1) mod 2 ^ (32 * length xs))"
      by (simp only: mult_mod_right)
    with True Cons show ?thesis by simp
  next
    case False
    then have "unat (x + 1) = unat x + 1" using unatSuc [of x] by (simp add: add.commute)
    then have "val (uint_inc (x # xs)) = val (x # xs) + 1" using False by simp
    moreover have "val (uint_inc (x # xs)) < 2 ^ (32 * length (x # xs))"
      using val_bound [of "uint_inc (x # xs)"] by (simp only: length_uint_inc)
    ultimately show ?thesis by (simp only: mod_less)
  qed
qed simp

lemma length_uint_dec [simp]: "length (uint_dec a) = length a"
  by (induction a) auto

lemma val_uint_dec: "val (uint_dec a) = (if val a = 0 then 2 ^ (32 * length a) else val a) - 1"
proof (induction a)
  case (Cons x xs)
  show ?case
  proof (cases "x = 0")
    case True
    have "(2 :: nat) ^ (32 * length (x # xs)) = 2 ^ 32 * 2 ^ (32 * length xs)" by (simp add: power_add)
    with True Cons show ?thesis by (auto simp: diff_mult_distrib2)
  next
    case False
    then have "x - 1 \<noteq> 0xFFFFFFFF" by (auto simp: diff_eq_eq)
    moreover have "unat (x - 1) = unat x - 1" using unat_minus_one [OF False] .
    moreover have "0 < unat x" using False by (simp add: unat_gt_0)
    ultimately show ?thesis by simp
  qed
qed simp

lemma length_uint_neg [simp]: "length (uint_neg a) = length a"
  by (simp add: uint_neg_def)

lemma val_uint_neg: "val (uint_neg a) = (2 ^ (32 * length a) - val a) mod 2 ^ (32 * length a)"
proof -
  have "val (uint_not a) + 1 = 2 ^ (32 * length a) - val a"
    using val_uint_not [of a] by simp
  then show ?thesis by (simp add: uint_neg_def val_uint_inc)
qed

lemma length_uint_sub [simp]: "length (uint_sub a b) = min (length a) (length b)"
  by (simp add: uint_sub_def)

lemma val_uint_sub:
  assumes "length a = length b"
  shows "val (uint_sub a b) = (val a + 2 ^ (32 * length a) - val b) mod 2 ^ (32 * length a)"
proof -
  have "val (uint_sub a b) = (val a + (2 ^ (32 * length a) - val b)) mod 2 ^ (32 * length a)"
    using assms by (simp add: uint_sub_def val_uint_add val_uint_neg mod_simps)
  then show ?thesis using val_bound [of b] assms by simp
qed

lemma val_uint_sub_le:
  assumes "length a = length b" "val b \<le> val a"
  shows "val (uint_sub a b) = val a - val b"
proof -
  have "val a - val b < 2 ^ (32 * length a)" using val_bound [of a] by simp
  moreover have eq: "val a + 2 ^ (32 * length a) - val b = (val a - val b) + 2 ^ (32 * length a)"
    using assms by simp
  ultimately show ?thesis unfolding val_uint_sub [OF assms(1)] eq by simp
qed

section \<open>Multiplication modulo \<open>2 ^ 256\<close>\<close>

lemma mul_no_overflow:
  fixes c p y x :: nat
  assumes "c < 2 ^ 32" "p < 2 ^ 32" "y < 2 ^ 32" "x < 2 ^ 32"
  shows "c + x + p * y < 2 ^ 64" "(c + x + p * y) div 2 ^ 32 < 2 ^ 32"
proof -
  have "p * y \<le> (2 ^ 32 - 1) * (2 ^ 32 - 1)"
    using assms by (intro mult_le_mono) simp_all
  then show l: "c + x + p * y < 2 ^ 64" using assms by simp
  have "(2 :: nat) ^ 64 = 2 ^ 32 * 2 ^ 32" by simp
  with l show "(c + x + p * y) div 2 ^ 32 < 2 ^ 32"
    by (simp only: less_mult_imp_div_less)
qed

lemma length_mul32_loop [simp]: "length (mul32_loop c b xs) = length xs"
  by (induction xs arbitrary: c) (auto simp: Let_def)

lemma val_mul32_loop:
  "c < 2 ^ 32 \<Longrightarrow> b < 2 ^ 32 \<Longrightarrow>
     val (mul32_loop c b xs) = (c + b * val xs) mod 2 ^ (32 * length xs)"
proof (induction xs arbitrary: c)
  case (Cons x xs)
  define n where "n = c + b * unat x"
  have b: "n < 2 ^ 64" "n div 2 ^ 32 < 2 ^ 32"
    using mul_no_overflow [OF Cons.prems unat_u32_lt [of x], of 0] by (simp_all add: n_def)
  then have w: "n mod 2 ^ 64 = n" by simp
  have "val (mul32_loop (n div 2 ^ 32) b xs) = (n div 2 ^ 32 + b * val xs) mod 2 ^ (32 * length xs)"
    by (rule Cons.IH [OF b(2) Cons.prems(2)])
  then have "val (mul32_loop c b (x # xs)) = (n + 2 ^ 32 * (b * val xs)) mod 2 ^ (32 + 32 * length xs)"
    unfolding mul32_loop.simps Let_def n_def [symmetric] w by (rule val_carry_step)
  then show ?case by (simp add: n_def algebra_simps)
qed simp

lemma length_uint_mul32 [simp]: "length (uint_mul32 a b) = length a"
  by (simp add: uint_mul32_def)

lemma val_uint_mul32: "val (uint_mul32 a b) = (val a * unat b) mod 2 ^ (32 * length a)"
  using unat_u32_lt [of b] by (simp add: uint_mul32_def val_mul32_loop mult.commute)

lemma length_mul_row [simp]: "length (mul_row c p xs ys) = min (length xs) (length ys)"
  by (induction c p xs ys rule: mul_row.induct) (auto simp: Let_def)

lemma val_mul_row:
  "length xs \<le> length ys \<Longrightarrow> c < 2 ^ 32 \<Longrightarrow> p < 2 ^ 32 \<Longrightarrow>
     val (mul_row c p xs ys) = (c + val xs + p * val (take (length xs) ys)) mod 2 ^ (32 * length xs)"
proof (induction xs ys arbitrary: c rule: list_induct2')
  case (4 x xs y ys)
  define n where "n = c + unat x + p * unat y"
  have b: "n < 2 ^ 64" "n div 2 ^ 32 < 2 ^ 32"
    using mul_no_overflow [OF 4(3,4) unat_u32_lt [of y] unat_u32_lt [of x]] by (simp_all add: n_def)
  then have w: "n mod 2 ^ 64 = n" by simp
  let ?v = "val xs + p * val (take (length xs) ys)"
  have "val (mul_row (n div 2 ^ 32) p xs ys) = (n div 2 ^ 32 + ?v) mod 2 ^ (32 * length xs)"
    using 4(1) [OF _ b(2) 4(4)] 4(2) by (simp add: add.assoc)
  then have "val (mul_row c p (x # xs) (y # ys)) = (n + 2 ^ 32 * ?v) mod 2 ^ (32 + 32 * length xs)"
    unfolding mul_row.simps Let_def n_def [symmetric] w by (rule val_carry_step)
  then show ?case by (simp add: n_def algebra_simps)
qed auto

lemma val_append: "val (xs @ ys) = val xs + 2 ^ (32 * length xs) * val ys"
  by (induction xs) (simp_all add: power_add algebra_simps)

lemma val_take: "val (take k xs) = val xs mod 2 ^ (32 * min k (length xs))"
proof -
  have "val xs = val (take k xs) + 2 ^ (32 * min k (length xs)) * val (drop k xs)"
    using val_append [of "take k xs" "drop k xs"] by (simp add: min.commute)
  then show ?thesis using val_bound [of "take k xs"] by (simp add: min.commute)
qed

lemma val_zeros [simp]: "val (replicate n 0) = 0"
  by (induction n) auto

text \<open>Adding a row at limb \<open>j\<close> adds \<open>p * b\<close> shifted by \<open>j\<close> limbs, modulo the width.\<close>

lemma val_mul_step:
  assumes a: "length a = w" and b: "length b = w" and j: "j \<le> w" and p: "p < 2 ^ 32"
  shows "val (take j a @ mul_row 0 p (drop j a) b) = (val a + 2 ^ (32 * j) * (p * val b)) mod 2 ^ (32 * w)"
proof -
  define M K where "M = (2 :: nat) ^ (32 * j)" and "K = (2 :: nat) ^ (32 * (w - j))"
  have MK: "2 ^ (32 * w) = M * K"
    using j unfolding M_def K_def power_add [symmetric] by (simp add: right_diff_distrib')
  define t X where "t = val (take j a)" and "X = val (drop j a) + p * val (take (w - j) b)"
  have t: "t < M" using val_bound [of "take j a"] a j by (simp add: t_def M_def min_absorb1 min_absorb2)
  have va: "val a = t + M * val (drop j a)"
    using val_append [of "take j a" "drop j a"] a j by (simp add: t_def M_def min_absorb1 min_absorb2)
  have vb: "val b = val (take (w - j) b) + K * val (drop (w - j) b)"
    using val_append [of "take (w - j) b" "drop (w - j) b"] b by (simp add: K_def min_absorb1 min_absorb2)
  have "val (take j a @ mul_row 0 p (drop j a) b) = t + M * (X mod K)"
    using a b j p by (simp add: val_append val_mul_row t_def M_def K_def X_def min_absorb1 min_absorb2)
  also have "\<dots> = (t + M * X) mod (M * K)"
    using t by (simp add: mod_mult2_eq)
  also have "t + M * X = val a + M * (p * val (take (w - j) b))"
    by (simp add: va X_def algebra_simps)
  also have "(val a + M * (p * val (take (w - j) b))) mod (M * K) = (val a + M * (p * val b)) mod (M * K)"
  proof -
    have "M * (p * val b) = M * (p * val (take (w - j) b)) + p * val (drop (w - j) b) * (M * K)"
      by (subst vb) (simp add: algebra_simps)
    then have "val a + M * (p * val b)
        = (val a + M * (p * val (take (w - j) b))) + p * val (drop (w - j) b) * (M * K)"
      by simp
    then show ?thesis by (simp only: mod_mult_self1)
  qed
  finally show ?thesis unfolding MK M_def .
qed

lemma uint_mul_fold:
  assumes "length pn = WIDTH" "length b = WIDTH" "k \<le> WIDTH"
  shows "let a = foldl (\<lambda>a j. take j a @ mul_row 0 (unat (pn ! j)) (drop j a) b) (replicate WIDTH 0) [0..<k]
    in length a = WIDTH \<and> val a = (val (take k pn) * val b) mod 2 ^ (32 * WIDTH)"
  using assms(3)
proof (induction k)
  case (Suc k)
  let ?f = "\<lambda>a j. take j a @ mul_row 0 (unat (pn ! j)) (drop j a) b"
  define a where "a = foldl ?f (replicate WIDTH 0) [0..<k]"
  have a: "length a = WIDTH" "val a = (val (take k pn) * val b) mod 2 ^ (32 * WIDTH)"
    using Suc by (simp_all add: a_def Let_def)
  have "take (Suc k) pn = take k pn @ [pn ! k]"
    using Suc.prems assms(1) by (simp add: take_Suc_conv_app_nth)
  then have tk: "val (take (Suc k) pn) = val (take k pn) + 2 ^ (32 * k) * unat (pn ! k)"
    using Suc.prems assms(1) by (simp add: val_append min_absorb1 min_absorb2)
  have "val (?f a k) = (val a + 2 ^ (32 * k) * (unat (pn ! k) * val b)) mod 2 ^ (32 * WIDTH)"
    using Suc.prems by (intro val_mul_step a(1) assms(2) unat_u32_lt) simp
  also have "\<dots> = (val (take (Suc k) pn) * val b) mod 2 ^ (32 * WIDTH)"
    unfolding a(2) tk by (simp add: mod_simps algebra_simps)
  finally show ?case using a(1) Suc.prems assms(2) by (simp add: a_def [symmetric] Let_def)
qed simp

lemma uint_mul_correct:
  assumes "length a = WIDTH" "length b = WIDTH"
  shows "length (uint_mul a b) = WIDTH" "val (uint_mul a b) = (val a * val b) mod 2 ^ (32 * WIDTH)"
  using uint_mul_fold [OF assms order_refl] assms by (simp_all add: uint_mul_def Let_def)

section \<open>Comparison\<close>

lemma compare_limbs_val:
  "length xs = length ys \<Longrightarrow>
     compare_limbs xs ys = (if val (rev xs) < val (rev ys) then -1
                            else if val (rev xs) > val (rev ys) then 1 else 0)"
proof (induction xs ys rule: list_induct2')
  case (4 x xs y ys)
  define B where "B = (2 :: nat) ^ (32 * length xs)"
  have bx: "val (rev xs) < B" "val (rev ys) < B"
    using val_bound [of "rev xs"] val_bound [of "rev ys"] 4 by (simp_all add: B_def)
  have v: "val (rev (x # xs)) = val (rev xs) + B * unat x" "val (rev (y # ys)) = val (rev ys) + B * unat y"
    using 4 by (simp_all add: val_append B_def)
  consider "x < y" | "y < x" | "x = y" by (rule linorder_cases)
  then show ?case
  proof cases
    case 1
    then have "B * (unat x + 1) \<le> B * unat y" by (intro mult_le_mono2) (simp add: word_less_nat_alt)
    with bx have "val (rev (x # xs)) < val (rev (y # ys))" unfolding v by simp
    with 1 show ?thesis by simp
  next
    case 2
    then have "B * (unat y + 1) \<le> B * unat x" by (intro mult_le_mono2) (simp add: word_less_nat_alt)
    with bx have "val (rev (y # ys)) < val (rev (x # xs))" unfolding v by simp
    with 2 show ?thesis by auto
  next
    case 3
    with 4 show ?thesis unfolding v by simp
  qed
qed auto

lemma CompareTo_val:
  "length a = length b \<Longrightarrow> CompareTo a b = (if val a < val b then -1 else if val a > val b then 1 else 0)"
  by (simp add: CompareTo_def compare_limbs_val)

section \<open>Shifts\<close>

lemma bit_val:
  "bit (val xs) n \<longleftrightarrow> n div 32 < length xs \<and> bit (xs ! (n div 32)) (n mod 32)"
proof (induction xs arbitrary: n)
  case (Cons x xs)
  have "unat x AND push_bit 32 (val xs) = 0"
    by (rule bit_eqI) (auto simp: bit_simps dest: bit_imp_le_length)
  then have "val (x # xs) = unat x OR push_bit 32 (val xs)"
    by (simp add: push_bit_eq_mult disjunctive_add_eq_or [symmetric])
  then have "bit (val (x # xs)) n \<longleftrightarrow> (n < 32 \<and> bit x n) \<or> (32 \<le> n \<and> bit (val xs) (n - 32))"
    by (auto simp: bit_simps dest: bit_imp_le_length)
  also have "\<dots> \<longleftrightarrow> n div 32 < length (x # xs) \<and> bit ((x # xs) ! (n div 32)) (n mod 32)"
  proof (cases "n < 32")
    case False
    then have "n div 32 = Suc ((n - 32) div 32)" "n mod 32 = (n - 32) mod 32"
      by (simp_all add: le_div_geq le_mod_geq)
    with False Cons.IH [of "n - 32"] show ?thesis by simp
  qed simp
  finally show ?case .
qed simp

lemma length_foldl_step:
  "(\<And>pn i. length (f pn i) = length pn) \<Longrightarrow> length (foldl f pn is) = length pn"
  by (induction "is" arbitrary: pn) auto

lemma length_shl_step [simp]: "length (shl_step a k sh pn i) = length pn"
  by (simp add: shl_step_def Let_def)

lemma length_shr_step [simp]: "length (shr_step a k sh pn i) = length pn"
  by (simp add: shr_step_def Let_def)

lemma length_uint_shl [simp]: "length (uint_shl a n) = WIDTH"
  by (simp add: uint_shl_def length_foldl_step)

lemma length_uint_shr [simp]: "length (uint_shr a n) = WIDTH"
  by (simp add: uint_shr_def length_foldl_step)

lemma shl_fold_bit:
  assumes "sh < 32" "m < WIDTH" "q < 32"
  shows "bit (foldl (shl_step a k sh) (replicate WIDTH 0) [0..<t] ! m) q \<longleftrightarrow>
     (k \<le> m \<and> m - k < t \<and> sh \<le> q \<and> bit (a ! (m - k)) (q - sh))
     \<or> (sh \<noteq> 0 \<and> k + 1 \<le> m \<and> m - k - 1 < t \<and> bit (a ! (m - k - 1)) (q + (32 - sh)))"
proof (induction t)
  case (Suc t)
  define pn where "pn = foldl (shl_step a k sh) (replicate WIDTH 0) [0..<t]"
  have len: "length pn = WIDTH" by (simp add: pn_def length_foldl_step)
  have "bit (shl_step a k sh pn t ! m) q \<longleftrightarrow> bit (pn ! m) q
     \<or> (m = t + k \<and> sh \<le> q \<and> bit (a ! t) (q - sh))
     \<or> (sh \<noteq> 0 \<and> m = t + k + 1 \<and> bit (a ! t) (q + (32 - sh)))"
    using assms len by (auto simp: shl_step_def Let_def nth_list_update bit_simps add.commute)
  note step = this and IH = Suc [folded pn_def]
  have fold: "foldl (shl_step a k sh) (replicate WIDTH 0) [0..<Suc t] = shl_step a k sh pn t"
    by (simp add: pn_def)
  consider "m = t + k" | "m = t + k + 1" | "m \<noteq> t + k" "m \<noteq> t + k + 1" by blast
  then show ?case
    unfolding fold step IH by cases auto
qed (use assms in simp)

lemma limb_index:
  fixes m q :: nat
  assumes "q < 32"
  shows "(32 * m + q) div 32 = m" "(32 * m + q) mod 32 = q"
  using assms by simp_all

lemma sub_limbs:
  fixes m q k sh :: nat
  assumes "q < 32" "sh < 32"
  shows "sh \<le> q \<Longrightarrow> k \<le> m \<Longrightarrow> 32 * m + q - (32 * k + sh) = 32 * (m - k) + (q - sh)"
    and "q < sh \<Longrightarrow> k + 1 \<le> m \<Longrightarrow> 32 * m + q - (32 * k + sh) = 32 * (m - k - 1) + (q + (32 - sh))"
    and "32 * k + sh \<le> 32 * m + q \<longleftrightarrow> (k \<le> m \<and> sh \<le> q) \<or> k + 1 \<le> m"
  using assms by auto

lemma u32_high_bit: "32 \<le> n \<Longrightarrow> \<not> bit (x :: u32) n"
  using bit_imp_le_length [of x n] by auto

lemma val_uint_shl:
  assumes "length a = WIDTH"
  shows "val (uint_shl a s) = (val a * 2 ^ s) mod 2 ^ (32 * WIDTH)"
proof (rule bit_eqI)
  fix n :: nat
  define k sh m q where "k = s div 32" and "sh = s mod 32" and "m = n div 32" and "q = n mod 32"
  have n: "n = 32 * m + q" "q < 32" and s: "s = 32 * k + sh" "sh < 32"
    by (simp_all add: k_def sh_def m_def q_def)
  have L: "bit (val (uint_shl a s)) n \<longleftrightarrow> m < WIDTH \<and>
     ((k \<le> m \<and> sh \<le> q \<and> bit (a ! (m - k)) (q - sh))
      \<or> (k + 1 \<le> m \<and> q < sh \<and> bit (a ! (m - k - 1)) (q + (32 - sh))))"
    using shl_fold_bit [OF s(2) _ n(2), of m a k WIDTH] s(2)
    by (auto simp: bit_val uint_shl_def k_def [symmetric] sh_def [symmetric] m_def [symmetric]
        q_def [symmetric] length_foldl_step u32_high_bit)
  have "(val a * 2 ^ s) mod 2 ^ (32 * WIDTH) = take_bit (32 * WIDTH) (push_bit s (val a))"
    by (simp add: take_bit_eq_mod push_bit_eq_mult)
  then have R: "bit ((val a * 2 ^ s) mod 2 ^ (32 * WIDTH)) n \<longleftrightarrow> m < WIDTH \<and> s \<le> n \<and> bit (val a) (n - s)"
    using n by (auto simp: bit_simps)
  have E: "s \<le> n \<and> bit (val a) (n - s) \<longleftrightarrow>
     (if sh \<le> q then k \<le> m \<and> m - k < WIDTH \<and> bit (a ! (m - k)) (q - sh)
      else k + 1 \<le> m \<and> m - k - 1 < WIDTH \<and> bit (a ! (m - k - 1)) (q + (32 - sh)))"
  proof (cases "sh \<le> q")
    case True
    then have "s \<le> n \<longleftrightarrow> k \<le> m" using sub_limbs(3) [OF n(2) s(2), of k m] n(1) s(1) by auto
    moreover have "k \<le> m \<Longrightarrow> n - s = 32 * (m - k) + (q - sh)"
      using sub_limbs(1) [OF n(2) s(2) True] n(1) s(1) by simp
    moreover have "q - sh < 32" using n(2) by simp
    ultimately show ?thesis
      using True assms limb_index [of "q - sh" "m - k"] by (auto simp: bit_val)
  next
    case False
    then have "s \<le> n \<longleftrightarrow> k + 1 \<le> m" using sub_limbs(3) [OF n(2) s(2), of k m] n(1) s(1) by auto
    moreover have "k + 1 \<le> m \<Longrightarrow> n - s = 32 * (m - k - 1) + (q + (32 - sh))"
      using sub_limbs(2) [OF n(2) s(2)] False n(1) s(1) by simp
    moreover have "q + (32 - sh) < 32" using False s(2) by simp
    ultimately show ?thesis
      using False assms limb_index [of "q + (32 - sh)" "m - k - 1"] by (auto simp: bit_val)
  qed
  show "bit (val (uint_shl a s)) n \<longleftrightarrow> bit ((val a * 2 ^ s) mod 2 ^ (32 * WIDTH)) n"
    unfolding L R E by auto
qed

lemma shr_fold_bit:
  assumes "sh < 32" "m < WIDTH" "q < 32" "t \<le> WIDTH"
  shows "bit (foldl (shr_step a k sh) (replicate WIDTH 0) [0..<t] ! m) q \<longleftrightarrow>
     (m + k < t \<and> bit (a ! (m + k)) (q + sh))
     \<or> (sh \<noteq> 0 \<and> m + k + 1 < t \<and> 32 - sh \<le> q \<and> bit (a ! (m + k + 1)) (q - (32 - sh)))"
  using assms(4)
proof (induction t)
  case (Suc t)
  define pn where "pn = foldl (shr_step a k sh) (replicate WIDTH 0) [0..<t]"
  have len: "length pn = WIDTH" by (simp add: pn_def length_foldl_step)
  have step: "bit (shr_step a k sh pn t ! m) q \<longleftrightarrow> bit (pn ! m) q
     \<or> (m + k = t \<and> bit (a ! t) (q + sh))
     \<or> (sh \<noteq> 0 \<and> m + k + 1 = t \<and> 32 - sh \<le> q \<and> bit (a ! t) (q - (32 - sh)))"
    using assms Suc.prems len
    by (auto simp: shr_step_def Let_def nth_list_update bit_simps add.commute)
  have fold: "foldl (shr_step a k sh) (replicate WIDTH 0) [0..<Suc t] = shr_step a k sh pn t"
    by (simp add: pn_def)
  note IH = Suc.IH [OF Suc_leD [OF Suc.prems], folded pn_def]
  show ?case
    unfolding fold step IH by (auto simp: less_Suc_eq)
qed (use assms in simp)

lemma val_uint_shr:
  assumes "length a = WIDTH"
  shows "val (uint_shr a s) = val a div 2 ^ s"
proof (rule bit_eqI)
  fix n :: nat
  define k sh m q where "k = s div 32" and "sh = s mod 32" and "m = n div 32" and "q = n mod 32"
  have n: "n = 32 * m + q" "q < 32" and s: "s = 32 * k + sh" "sh < 32"
    by (simp_all add: k_def sh_def m_def q_def)
  have L: "bit (val (uint_shr a s)) n \<longleftrightarrow> m < WIDTH \<and>
     ((m + k < WIDTH \<and> bit (a ! (m + k)) (q + sh))
      \<or> (sh \<noteq> 0 \<and> m + k + 1 < WIDTH \<and> 32 - sh \<le> q \<and> bit (a ! (m + k + 1)) (q - (32 - sh))))"
    using shr_fold_bit [OF s(2) _ n(2) order_refl, of m a k]
    by (auto simp: bit_val uint_shr_def k_def [symmetric] sh_def [symmetric] m_def [symmetric]
        q_def [symmetric] length_foldl_step)
  have R: "bit (val a div 2 ^ s) n \<longleftrightarrow> bit (val a) (n + s)"
    by (simp add: bit_simps add.commute flip: drop_bit_eq_div)
  have E: "bit (val a) (n + s) \<longleftrightarrow>
     (if q + sh < 32 then m + k < WIDTH \<and> bit (a ! (m + k)) (q + sh)
      else m + k + 1 < WIDTH \<and> bit (a ! (m + k + 1)) (q - (32 - sh)))"
  proof (cases "q + sh < 32")
    case True
    have "n + s = 32 * (m + k) + (q + sh)" using n s by simp
    then show ?thesis using True assms limb_index [OF True, of "m + k"] by (simp add: bit_val)
  next
    case False
    then have "n + s = 32 * (m + k + 1) + (q - (32 - sh))" using n s by simp
    moreover have "q - (32 - sh) < 32" using n(2) by simp
    ultimately show ?thesis
      using False assms limb_index [of "q - (32 - sh)" "m + k + 1"] by (simp add: bit_val)
  qed
  show "bit (val (uint_shr a s)) n \<longleftrightarrow> bit (val a div 2 ^ s) n"
    unfolding L R E using n(2) s(2) by (auto simp: u32_high_bit)
qed

section \<open>Bit length\<close>

lemma limb_bits_bounds:
  assumes "x \<noteq> 0" "unat x < 2 ^ (n + 1)" "n < 32"
  shows "1 \<le> limb_bits x n \<and> 2 ^ (limb_bits x n - 1) \<le> unat x \<and> unat x < 2 ^ limb_bits x n"
  using assms(2,3)
proof (induction n)
  case 0
  have "unat x \<noteq> 0" using assms(1) by (simp add: unat_eq_0)
  with 0 show ?case by simp
next
  case (Suc n)
  have "x AND push_bit (Suc n) 1 \<noteq> 0 \<longleftrightarrow> bit x (Suc n)"
    using Suc.prems(2) by (auto simp: bit_iff_and_push_bit_not_eq_0)
  moreover have "bit x (Suc n) \<longleftrightarrow> 2 ^ Suc n \<le> unat x"
  proof -
    have "unat x div 2 ^ Suc n < 2"
      using Suc.prems(1) by (intro less_mult_imp_div_less) simp
    moreover have "bit x (Suc n) \<longleftrightarrow> bit (unat x) (Suc n)"
      using Suc.prems(2) by (simp add: bit_unsigned_iff)
    then have "bit x (Suc n) \<longleftrightarrow> odd (unat x div 2 ^ Suc n)"
      by (simp only: bit_iff_odd [of "unat x"])
    moreover have "unat x div 2 ^ Suc n = 0 \<longleftrightarrow> unat x < 2 ^ Suc n" by (simp add: div_eq_0_iff)
    ultimately show ?thesis by (auto simp: less_2_cases_iff not_less)
  qed
  ultimately show ?case using Suc by (auto simp: not_le)
qed

definition bit_length :: "nat \<Rightarrow> nat \<Rightarrow> bool" where
  "bit_length v n \<longleftrightarrow> (if v = 0 then n = 0 else 0 < n \<and> 2 ^ (n - 1) \<le> v \<and> v < 2 ^ n)"

lemma bits_loop_length:
  "k \<le> length a \<Longrightarrow> bit_length (val (take k a)) (bits_loop a k)"
proof (induction k)
  case (Suc k)
  define p b where "p = (2 :: nat) ^ (32 * k)" and "b = limb_bits (a ! k) 31"
  have v: "val (take (Suc k) a) = val (take k a) + p * unat (a ! k)"
    using Suc.prems by (simp add: take_Suc_conv_app_nth val_append p_def min_absorb2)
  have lt: "val (take k a) < p"
    using val_bound [of "take k a"] Suc.prems by (simp add: p_def min_absorb2)
  show ?case
  proof (cases "a ! k = 0")
    case True
    with Suc v show ?thesis by simp
  next
    case False
    have b: "1 \<le> b" "2 ^ (b - 1) \<le> unat (a ! k)" "unat (a ! k) + 1 \<le> 2 ^ b"
      using limb_bits_bounds [OF False, of 31] unat_u32_lt [of "a ! k"] by (simp_all add: b_def)
    have e: "p * 2 ^ (b - 1) = 2 ^ (32 * k + b - 1)" "p * 2 ^ b = 2 ^ (32 * k + b)"
      using b(1) by (simp_all add: p_def power_add [symmetric])
    have "2 ^ (32 * k + b - 1) \<le> p * unat (a ! k)"
      unfolding e(1) [symmetric] using b(2) by (rule mult_le_mono2)
    then have "2 ^ (32 * k + b - 1) \<le> val (take (Suc k) a)" unfolding v by linarith
    moreover have "p * unat (a ! k) + p \<le> 2 ^ (32 * k + b)"
      unfolding e(2) [symmetric] using mult_le_mono2 [OF b(3), of p] by (simp only: add_mult_distrib2 mult_1_right)
    then have "val (take (Suc k) a) < 2 ^ (32 * k + b)" unfolding v using lt by linarith
    moreover have "val (take (Suc k) a) \<noteq> 0"
      using calculation(1) by (metis le_zero_eq power_eq_0_iff zero_neq_numeral)
    ultimately show ?thesis using False b(1) by (simp add: bit_length_def b_def)
  qed
qed (simp add: bit_length_def)

lemma uint_bits_length: "length a = WIDTH \<Longrightarrow> bit_length (val a) (uint_bits a)"
  using bits_loop_length [of WIDTH a] by (simp add: uint_bits_def)

lemma uint_bits_le: 
  assumes "length a = WIDTH"
  shows "uint_bits a \<le> 256"
proof -
  have "val a < 2 ^ 256" using val_bound [of a] assms by (simp add: WIDTH_def)
  then have "(2 :: nat) ^ (uint_bits a - 1) < 2 ^ 256"
    using uint_bits_length [OF assms] by (auto simp: bit_length_def split: if_splits)
  then have "uint_bits a - 1 < 256" by (rule power_less_imp_less_exp [rotated]) simp
  then show ?thesis by simp
qed

lemma val_replicate_0 [simp]: "val (replicate n 0) = 0"
  by (induction n) simp_all

section \<open>Division\<close>

lemma val_set_bit:
  assumes "length q = WIDTH" "s < 32 * WIDTH" "\<not> bit (val q) s"
  shows "val (q[s div 32 := q ! (s div 32) OR push_bit (s mod 32) 1]) = val q + 2 ^ s"
proof -
  have i: "s div 32 < length q" using assms(1,2) by (simp add: less_mult_imp_div_less mult.commute)
  have "val (q[s div 32 := q ! (s div 32) OR push_bit (s mod 32) 1]) = val q OR 2 ^ s"
  proof (rule bit_eqI)
    fix n :: nat
    have "n = s \<longleftrightarrow> n div 32 = s div 32 \<and> n mod 32 = s mod 32"
      by (metis div_mod_decomp)
    then show "bit (val (q[s div 32 := q ! (s div 32) OR push_bit (s mod 32) 1])) n \<longleftrightarrow> bit (val q OR 2 ^ s) n"
      using i by (auto simp: bit_val nth_list_update bit_simps)
  qed
  also have "\<dots> = val q + 2 ^ s"
    using assms(3) by (intro disjunctive_add_eq_or [symmetric] bit_eqI) (auto simp: bit_simps)
  finally show ?thesis .
qed

lemma div_loop_correct:
  assumes "length num = WIDTH" "length dv = WIDTH" "length q = WIDTH" "s < 32 * WIDTH" "0 < d"
    and "val dv = d * 2 ^ s" "val num < d * 2 ^ (s + 1)" "val q mod 2 ^ (s + 1) = 0"
  shows "case div_loop num dv q s of (q', r) \<Rightarrow>
      val q' = val q + val num div d \<and> val r = val num mod d \<and> length q' = WIDTH"
  using assms
proof (induction s arbitrary: num dv q)
  case 0
  have "\<not> bit (val q) 0" using 0 by (simp add: bit_0 even_iff_mod_2_eq_zero)
  then have qb: "val (q[0 := q ! 0 OR 1]) = val q + 1" using val_set_bit [of q 0] 0 by simp
  show ?case
  proof (cases "d \<le> val num")
    case True
    then have "val num div d = 1" "val num mod d = val num - d"
      using 0 by (simp_all add: div_nat_eqI mod_if [of "val num"])
    with True 0 qb show ?thesis
      by (simp add: div_loop.simps CompareTo_val val_uint_sub_le)
  next
    case False
    with 0 show ?thesis by (simp add: div_loop.simps CompareTo_val)
  qed
next
  case (Suc s)
  let ?ge = "d * 2 ^ Suc s \<le> val num"
  define num1 where "num1 = (if ?ge then uint_sub num dv else num)"
  define q1 where "q1 = (if ?ge then q[Suc s div 32 := q ! (Suc s div 32) OR push_bit (Suc s mod 32) 1] else q)"
  have "val q mod 2 ^ (s + 2) = 0" using Suc.prems by simp
  then obtain c where c: "val q = 2 ^ (s + 2) * c" by (auto simp: mod_eq_0_iff_dvd)
  have "\<not> bit (val q) (Suc s)" by (simp add: c bit_iff_odd power_add)
  then have vq: "val q1 = val q + (if ?ge then 2 ^ Suc s else 0)" "length q1 = WIDTH"
    using val_set_bit [of q "Suc s"] Suc.prems by (simp_all add: q1_def)
  have vn: "val num1 = val num - (if ?ge then d * 2 ^ Suc s else 0)" "length num1 = WIDTH"
    using Suc.prems by (simp_all add: num1_def val_uint_sub_le)
  have loop: "div_loop num dv q (Suc s) = div_loop num1 (uint_shr dv 1) q1 s"
    using Suc.prems by (subst div_loop.simps) (simp add: CompareTo_val num1_def q1_def not_less)
  have "val (uint_shr dv 1) = d * 2 ^ s" using Suc.prems by (simp add: val_uint_shr)
  moreover have "val num1 < d * 2 ^ (s + 1)" using Suc.prems vn by auto
  moreover have "val q1 mod 2 ^ (s + 1) = 0" using vq c by (auto simp: power_add)
  ultimately have IH: "case div_loop num1 (uint_shr dv 1) q1 s of (q', r) \<Rightarrow>
      val q' = val q1 + val num1 div d \<and> val r = val num1 mod d \<and> length q' = WIDTH"
    using Suc.prems vn vq by (intro Suc.IH) simp_all
  define e where "e = (if ?ge then (2 :: nat) ^ Suc s else 0)"
  have n: "val num = val num1 + d * e" "val q1 = val q + e" using vn vq by (simp_all add: e_def)
  have "val num div d = e + val num1 div d" "val num mod d = val num1 mod d"
    unfolding n(1) using Suc.prems(5) by simp_all
  with IH n(2) show ?case unfolding loop by (auto split: prod.splits)
qed

lemma val_uint_div:
  assumes "length a = WIDTH" "length b = WIDTH"
  shows "map_option val (uint_div a b) = (if val b = 0 then None else Some (val a div val b))"
proof -
  let ?n = "uint_bits a" and ?m = "uint_bits b"
  have n: "bit_length (val a) ?n" and m: "bit_length (val b) ?m"
    using assms by (simp_all add: uint_bits_length)
  consider "val b = 0" | "0 < val b" "?n < ?m" | "0 < val b" "?m \<le> ?n" by linarith
  then show ?thesis
  proof cases
    case 1
    with m show ?thesis by (simp add: uint_div_def bit_length_def)
  next
    case 2
    have "val a < 2 ^ (?m - 1)"
    proof -
      have "val a < 2 ^ ?n" using n by (auto simp: bit_length_def split: if_splits)
      also have "\<dots> \<le> (2 :: nat) ^ (?m - 1)" using 2 by (intro power_increasing) simp_all
      finally show ?thesis .
    qed
    also have "\<dots> \<le> val b" using m 2 by (simp add: bit_length_def)
    finally show ?thesis using 2 by (simp add: uint_div_def)
  next
    case 3
    define s where "s = ?n - ?m"
    have bl: "0 < ?m" "2 ^ (?m - 1) \<le> val b" "val b < 2 ^ ?m"
      using m 3 by (simp_all add: bit_length_def)
    have a: "val a < 2 ^ ?n" "0 < ?n" using n 3 bl by (auto simp: bit_length_def split: if_splits)
    have n256: "?n \<le> 256" using assms(1) by (rule uint_bits_le)
    have "val b * 2 ^ s < 2 ^ ?m * 2 ^ s" using bl by simp
    also have "\<dots> = 2 ^ ?n" using 3 by (simp add: s_def power_add [symmetric])
    also have "\<dots> \<le> 2 ^ 256" using n256 by (intro power_increasing) simp_all
    finally have "val (uint_shl b s) = val b * 2 ^ s" using assms by (simp add: val_uint_shl WIDTH_def)
    moreover have "val a < val b * 2 ^ (s + 1)"
    proof -
      have "?n = (?m - 1) + (s + 1)" using 3 bl by (simp add: s_def)
      then have "2 ^ ?n = 2 ^ (?m - 1) * (2 :: nat) ^ (s + 1)" by (simp only: power_add)
      also have "\<dots> \<le> val b * 2 ^ (s + 1)" using bl(2) by (rule mult_le_mono1)
      finally show ?thesis using a by linarith
    qed
    moreover have "s < 32 * WIDTH" using n256 bl 3 by (simp add: s_def WIDTH_def)
    ultimately show ?thesis
      using div_loop_correct [of a "uint_shl b s" "replicate WIDTH 0" s "val b"] assms 3 bl
      by (auto simp: uint_div_def s_def [symmetric] Let_def split: prod.splits)
  qed
qed

lemma length_div_loop:
  "length num = WIDTH \<Longrightarrow> length dv = WIDTH \<Longrightarrow> length q = WIDTH \<Longrightarrow> length (fst (div_loop num dv q s)) = WIDTH"
  by (induction s arbitrary: num dv q) (simp_all add: div_loop.simps Let_def)

lemma length_uint_div:
  "length a = WIDTH \<Longrightarrow> length b = WIDTH \<Longrightarrow> uint_div a b = Some q \<Longrightarrow> length q = WIDTH"
  by (auto simp: uint_div_def Let_def length_div_loop split: if_splits)

section \<open>The compact format\<close>

lemma GetLow64_val: "length a = WIDTH \<Longrightarrow> GetLow64 a = val a mod 2 ^ 64"
proof -
  assume "length a = WIDTH"
  then obtain x y r where a: "a = x # y # r" by (auto simp: WIDTH_def numeral_eq_Suc length_Suc_conv)
  have "unat x + 2 ^ 32 * unat y < 2 ^ 64" using unat_u32_lt [of x] unat_u32_lt [of y] by simp
  moreover have "val a = (unat x + 2 ^ 32 * unat y) + 2 ^ 64 * val r" by (simp add: a)
  ultimately have "val a mod 2 ^ 64 = unat x + 2 ^ 32 * unat y" by (simp only: mod_mult_self2 mod_less)
  then show ?thesis by (simp add: a GetLow64_def)
qed

lemma val_uint_of_u64:
  assumes "b < 2 ^ 64"
  shows "val (uint_of_u64 b) = b" "length (uint_of_u64 b) = WIDTH"
proof -
  have "b div 2 ^ 32 < 2 ^ 32" using assms by (simp add: less_mult_imp_div_less)
  then show "val (uint_of_u64 b) = b" by (simp add: uint_of_u64_def unat_of_nat_u32)
qed (simp add: uint_of_u64_def WIDTH_def)

lemma val_eq_0: "val a = 0 \<longleftrightarrow> (\<forall>x \<in> set a. x = 0)"
  by (induction a) (auto simp: unat_eq_0)

lemma EqualTo_val:
  assumes "length a = WIDTH" "b < 2 ^ 64"
  shows "EqualTo a b \<longleftrightarrow> val a = b"
proof -
  obtain x y r where a: "a = x # y # r" using assms(1) by (auto simp: WIDTH_def numeral_eq_Suc length_Suc_conv)
  define lo where "lo = unat x + 2 ^ 32 * unat y"
  have xy: "unat x < 2 ^ 32" "unat y < 2 ^ 32" by (rule unat_u32_lt)+
  have v: "val a = lo + 2 ^ 64 * val r" by (simp add: a lo_def)
  have lo: "lo < 2 ^ 64" "lo div 2 ^ 32 = unat y" "lo mod 2 ^ 32 = unat x" using xy by (simp_all add: lo_def)
  have "lo = b \<longleftrightarrow> unat y = b div 2 ^ 32 \<and> unat x = b mod 2 ^ 32"
    using lo by (metis div_mod_decomp)
  moreover have "val a = b \<longleftrightarrow> val r = 0 \<and> lo = b"
    using v assms(2) lo(1) by (cases "val r = 0") auto
  ultimately show ?thesis by (auto simp: a EqualTo_def val_eq_0)
qed

lemma SetCompact_length: "length (fst (SetCompact c)) = WIDTH"
  by (auto simp: SetCompact_def Let_def uint_of_u64_def WIDTH_def)

text \<open>The mantissa \<open>m\<close> and the size \<open>s\<close> of the compact form of \<open>v\<close>.\<close>

definition compact_rep :: "nat \<Rightarrow> nat \<Rightarrow> nat \<Rightarrow> bool" where
  "compact_rep v s m \<longleftrightarrow> m < 2 ^ 23 \<and> (if v = 0 then s = 0 \<and> m = 0 else 2 ^ 15 \<le> m) \<and>
     (if s \<le> 3 then m = v * 256 ^ (3 - s) else m = v div 256 ^ (s - 3))"

lemma pow256_split: "k \<le> s \<Longrightarrow> (256 :: nat) ^ s = 256 ^ (s - k) * 256 ^ k"
  by (simp only: power_add [symmetric] le_add_diff_inverse2)

lemma compact_rep_bounds:
  assumes "compact_rep v s m" "0 < v"
  shows "2 ^ 15 * 256 ^ s \<le> v * 256 ^ 3" "v * 256 ^ 3 < 2 ^ 15 * 256 ^ Suc s"
proof -
  have "m * 256 ^ s \<le> v * 256 ^ 3 \<and> v * 256 ^ 3 < (m + 1) * 256 ^ s"
  proof (cases "s \<le> 3")
    case True
    then have "256 ^ 3 = (256 :: nat) ^ (3 - s) * 256 ^ s" by (simp add: power_add [symmetric])
    moreover have "m = v * 256 ^ (3 - s)" using assms True by (simp add: compact_rep_def)
    ultimately have "m * 256 ^ s = v * 256 ^ 3" by (simp only: mult.assoc)
    then show ?thesis by (simp only: add_mult_distrib) simp
  next
    case False
    then have s: "256 ^ s = (256 :: nat) ^ (s - 3) * 256 ^ 3" by (intro pow256_split) simp
    have "m * 256 ^ (s - 3) \<le> v" "v < (m + 1) * 256 ^ (s - 3)"
      using assms False by (simp_all add: compact_rep_def dividend_less_div_times)
    then show ?thesis unfolding s by (simp add: mult.assoc [symmetric])
  qed
  moreover have "2 ^ 15 * 256 ^ s \<le> m * 256 ^ s"
    using assms by (intro mult_le_mono1) (simp add: compact_rep_def)
  moreover have "(m + 1) * 256 ^ s \<le> 2 ^ 23 * 256 ^ s"
    using assms by (intro mult_le_mono1) (simp add: compact_rep_def)
  moreover have "2 ^ 15 * 256 ^ Suc s = (2 :: nat) ^ 23 * 256 ^ s" by simp
  ultimately show "2 ^ 15 * 256 ^ s \<le> v * 256 ^ 3" "v * 256 ^ 3 < 2 ^ 15 * 256 ^ Suc s" by linarith+
qed

lemma compact_rep_unique:
  assumes "compact_rep v s m" "compact_rep v s' m'"
  shows "s = s' \<and> m = m'"
proof (cases "v = 0")
  case False
  have le: "s1 \<le> s2" if "compact_rep v s1 m1" "compact_rep v s2 m2" for s1 m1 s2 m2
  proof -
    have "2 ^ 15 * 256 ^ s1 < (2 :: nat) ^ 15 * 256 ^ Suc s2"
      using compact_rep_bounds(1) [OF that(1)] compact_rep_bounds(2) [OF that(2)] False by linarith
    then have "(256 :: nat) ^ s1 < 256 ^ Suc s2" by simp
    then have "s1 < Suc s2" by (rule power_less_imp_less_exp [rotated]) simp
    then show ?thesis by simp
  qed
  from le [OF assms] le [OF assms(2,1)] have "s = s'" by simp
  with assms show ?thesis by (auto simp: compact_rep_def split: if_splits)
qed (use assms in \<open>simp add: compact_rep_def\<close>)

lemma and_bit_23: "(c :: nat) AND 0x00800000 \<noteq> 0 \<longleftrightarrow> bit c 23"
  using bit_iff_and_push_bit_not_eq_0 [of c 23] by simp

lemma and_mask_23: "(c :: nat) AND 0x007FFFFF = c mod 2 ^ 23"
  using take_bit_eq_mask [of 23 c] by (simp add: mask_eq_exp_minus_1 take_bit_eq_mod)

lemma SetCompact_not_max: "val (fst (SetCompact c)) + 1 < 2 ^ 256"
proof -
  define m where "m = (c AND 0x007FFFFF)"
  have m: "m < 2 ^ 23" by (simp add: m_def and_mask_23)
  show ?thesis
  proof (cases "c div 2 ^ 24 \<le> 3")
    case True
    define w where "w = m div 2 ^ (8 * (3 - c div 2 ^ 24))"
    have "w \<le> m" by (simp add: w_def)
    moreover have "fst (SetCompact c) = uint_of_u64 w"
      using True unfolding SetCompact_def Let_def m_def w_def by (simp only: if_True fst_conv)
    ultimately show ?thesis using m by (simp add: val_uint_of_u64)
  next
    case False
    define k where "k = 8 * (c div 2 ^ 24 - 3)"
    have "fst (SetCompact c) = uint_shl (uint_of_u64 m) k"
      using False unfolding SetCompact_def Let_def m_def k_def by (simp only: if_False fst_conv)
    then have "val (fst (SetCompact c)) = (m * 2 ^ k) mod 2 ^ 256"
      using m by (simp add: val_uint_shl val_uint_of_u64 WIDTH_def)
    moreover have "even ((m * 2 ^ k) mod 2 ^ 256)"
    proof -
      have "0 < k" using False by (simp add: k_def)
      then have "even (m * 2 ^ k)" by simp
      then show ?thesis by (simp add: dvd_mod_iff)
    qed
    moreover have "(m * 2 ^ k) mod 2 ^ 256 < 2 ^ 256" by simp
    moreover have "odd (2 ^ 256 - 1 :: nat)" by simp
    ultimately have "val (fst (SetCompact c)) \<noteq> 2 ^ 256 - 1" "val (fst (SetCompact c)) < 2 ^ 256" by metis+
    then show ?thesis by linarith
  qed
qed

lemma or_push_bit_24: "m < 2 ^ 24 \<Longrightarrow> m OR push_bit 24 s = m + 2 ^ 24 * (s :: nat)"
proof -
  assume m: "m < 2 ^ 24"
  have "\<not> (bit m n \<and> bit (push_bit 24 s) n)" for n
    using m bit_take_bit_iff [of 24 m n] by (auto simp: bit_simps take_bit_nat_eq_self)
  then have "m OR push_bit 24 s = m + push_bit 24 s"
    by (intro disjunctive_add_eq_or [symmetric] bit_eqI) (auto simp: bit_simps)
  then show ?thesis by (simp add: push_bit_eq_mult)
qed

lemma bit_length_bytes:
  assumes "bit_length v n" "s = (n + 7) div 8"
  shows "v < 256 ^ s" "0 < v \<Longrightarrow> 0 < s \<and> 256 ^ (s - 1) \<le> v"
proof -
  have "v < 2 ^ n" using assms by (auto simp: bit_length_def split: if_splits)
  also have "\<dots> \<le> (2 :: nat) ^ (8 * s)" using assms(2) by (intro power_increasing) simp_all
  finally show "v < 256 ^ s" by (simp add: power_mult)
  assume "0 < v"
  then have n: "0 < n" "2 ^ (n - 1) \<le> v" using assms by (simp_all add: bit_length_def)
  then have s: "0 < s" "8 * (s - 1) \<le> n - 1" using assms(2) by auto
  have "256 ^ (s - 1) = (2 :: nat) ^ (8 * (s - 1))" by (simp add: power_mult)
  also have "\<dots> \<le> 2 ^ (n - 1)" using s by (intro power_increasing) simp_all
  finally show "0 < s \<and> 256 ^ (s - 1) \<le> v" using n s by simp
qed

text \<open>\<open>nSize0\<close> and \<open>nCompact0\<close> of \<open>GetCompact\<close>, before the sign bit is moved out of the way.\<close>

lemma compact_mantissa:
  assumes "length a = WIDTH" "s = (uint_bits a + 7) div 8"
    and m: "m = (if s \<le> 3 then (GetLow64 a * 2 ^ (8 * (3 - s))) mod 2 ^ 32
                 else GetLow64 (uint_shr a (8 * (s - 3))) mod 2 ^ 32)"
  shows "m < 2 ^ 24 \<and> (if val a = 0 then s = 0 \<and> m = 0 else 2 ^ 16 \<le> m \<and> 0 < s) \<and>
    (if s \<le> 3 then m = val a * 256 ^ (3 - s) else m = val a div 256 ^ (s - 3))"
proof -
  have bl: "bit_length (val a) (uint_bits a)" using assms by (simp add: uint_bits_length)
  note b = bit_length_bytes [OF bl assms(2)]
  have z: "val a = 0 \<Longrightarrow> s = 0" using bl assms(2) by (simp add: bit_length_def)
  have p: "(2 :: nat) ^ (8 * k) = 256 ^ k" for k by (simp add: power_mult)
  show ?thesis
  proof (cases "s \<le> 3")
    case True
    have "val a * 256 ^ (3 - s) < 256 ^ s * 256 ^ (3 - s)" using b(1) by simp
    also have "\<dots> = 2 ^ 24" using True by (simp add: power_add [symmetric])
    finally have lt: "val a * 256 ^ (3 - s) < 2 ^ 24" .
    have "val a < 2 ^ 24" using lt by (rule le_less_trans [rotated]) simp
    then have "m = val a * 256 ^ (3 - s)"
      using True lt by (simp add: m p GetLow64_val [OF assms(1)])
    moreover have "2 ^ 16 \<le> val a * 256 ^ (3 - s) \<and> 0 < s" if "val a \<noteq> 0"
    proof -
      have s: "0 < s" "256 ^ (s - 1) \<le> val a" using b(2) that by simp_all
      have "2 ^ 16 = (256 :: nat) ^ (s - 1 + (3 - s))" using True s by simp
      also have "\<dots> \<le> val a * 256 ^ (3 - s)" unfolding power_add using s(2) by (rule mult_le_mono1)
      finally show ?thesis using s by simp
    qed
    ultimately show ?thesis using True lt z by simp
  next
    case False
    have lt: "val a div 256 ^ (s - 3) < 2 ^ 24"
    proof -
      have "256 ^ s = (256 :: nat) ^ (s - 3) * 256 ^ 3" using False by (intro pow256_split) simp
      with b(1) show ?thesis by (simp add: less_mult_imp_div_less)
    qed
    then have "m = val a div 256 ^ (s - 3)"
      using False assms(1) by (simp add: m p GetLow64_val val_uint_shr)
    moreover have "2 ^ 16 \<le> val a div 256 ^ (s - 3)"
    proof -
      have "256 ^ (s - 1) = (2 :: nat) ^ 16 * 256 ^ (s - 3)"
      proof -
        have "s - 1 = 2 + (s - 3)" using False by simp
        then show ?thesis by (simp only: power_add) simp
      qed
      moreover have "256 ^ (s - 1) \<le> val a" using b(2) z False by fastforce
      ultimately show ?thesis by (simp add: less_eq_div_iff_mult_less_eq)
    qed
    ultimately show ?thesis using False lt z by auto
  qed
qed

lemma GetCompact_rep:
  assumes "length a = WIDTH"
  shows "\<exists>s m. GetCompact a False = Some (m + 2 ^ 24 * s) \<and> compact_rep (val a) s m \<and> s \<le> 33"
proof -
  define s where "s = (uint_bits a + 7) div 8"
  define m where "m = (if s \<le> 3 then (GetLow64 a * 2 ^ (8 * (3 - s))) mod 2 ^ 32
                 else GetLow64 (uint_shr a (8 * (s - 3))) mod 2 ^ 32)"
  note mant = compact_mantissa [OF assms s_def m_def]
  have s: "s \<le> 32" using uint_bits_le [OF assms] by (simp add: s_def)
  have b: "bit m 23 \<longleftrightarrow> 2 ^ 23 \<le> m"
  proof -
    have "m div 2 ^ 23 < 2" using mant by (simp add: less_mult_imp_div_less)
    then have "odd (m div 2 ^ 23) \<longleftrightarrow> 1 \<le> m div 2 ^ 23" by (auto simp: less_2_cases_iff)
    also have "\<dots> \<longleftrightarrow> 2 ^ 23 \<le> m" by (simp add: less_eq_div_iff_mult_less_eq)
    finally show ?thesis by (simp add: bit_iff_odd)
  qed
  define s1 m1 where "s1 = (if bit m 23 then s + 1 else s)" and "m1 = (if bit m 23 then m div 2 ^ 8 else m)"
  have m1: "m1 < 2 ^ 23" using mant b by (auto simp: m1_def)
  have "GetCompact a False = Some (m1 OR push_bit 24 s1)"
    unfolding GetCompact_def Let_def s_def [symmetric] m_def [symmetric] and_bit_23
      s1_def [symmetric] m1_def [symmetric]
    using m1 s by (simp add: s1_def)
  then have "GetCompact a False = Some (m1 + 2 ^ 24 * s1)" using or_push_bit_24 [of m1 s1] m1 by simp
  moreover have "compact_rep (val a) s1 m1"
  proof (cases "bit m 23")
    case False
    with mant m1 show ?thesis by (auto simp: compact_rep_def s1_def m1_def split: if_splits)
  next
    case True
    then have "val a \<noteq> 0" using mant b by (auto split: if_splits)
    moreover have "2 ^ 15 \<le> m div 2 ^ 8" using True b by simp
    moreover have "m div 2 ^ 8 = (if Suc s \<le> 3 then val a * 256 ^ (3 - Suc s) else val a div 256 ^ (Suc s - 3))"
    proof -
      consider "s \<le> 2" | "s = 3" | "3 < s" by linarith
      then show ?thesis
      proof cases
        case 1
        then have "3 - s = Suc (3 - Suc s)" by simp
        with mant 1 show ?thesis by simp
      next
        case 3
        then have "Suc s - 3 = Suc (s - 3)" by simp
        with mant 3 show ?thesis by (simp add: div_mult2_eq [symmetric] mult.commute)
      qed (use mant in auto)
    qed
    ultimately show ?thesis using True m1 by (simp add: compact_rep_def s1_def m1_def)
  qed
  ultimately show ?thesis using s by (intro exI [of _ s1] exI [of _ m1]) (simp add: s1_def)
qed

lemma SetCompact_rep:
  assumes "compact_rep v s m" "v < 2 ^ 256" "s \<le> 33"
  shows "\<exists>w. SetCompact (m + 2 ^ 24 * s) = (w, False, False) \<and> length w = WIDTH \<and>
     val w = (if s \<le> 3 then v else v div 256 ^ (s - 3) * 256 ^ (s - 3))"
proof -
  let ?c = "m + 2 ^ 24 * s"
  have m: "m < 2 ^ 23" using assms by (simp add: compact_rep_def)
  have d: "?c div 2 ^ 24 = s" using m by simp
  have "?c = m + 2 ^ 23 * (2 * s)" by simp
  then have w: "?c mod 2 ^ 23 = m" using m by (metis mod_less mod_mult_self2)
  have nb: "\<not> bit ?c 23"
  proof -
    have "?c div 2 ^ 23 = 2 * s" using m by simp
    then show ?thesis by (simp add: bit_iff_odd)
  qed
  define nw where "nw = (if s \<le> 3 then m div 2 ^ (8 * (3 - s)) else m)"
  have S: "SetCompact ?c =
      (if s \<le> 3 then uint_of_u64 nw else uint_shl (uint_of_u64 nw) (8 * (s - 3)), False,
       nw \<noteq> 0 \<and> (s > 34 \<or> (nw > 0xff \<and> s > 33) \<or> (nw > 0xffff \<and> s > 32)))"
    unfolding SetCompact_def Let_def d and_mask_23 w and_bit_23 nw_def using nb by (simp only: simp_thms)
  show ?thesis
  proof (cases "s \<le> 3")
    case True
    then have v: "m = v * 256 ^ (3 - s)" using assms by (simp add: compact_rep_def)
    then have "v \<le> m" by simp
    moreover have "nw = v" using True v by (simp add: nw_def power_mult)
    ultimately show ?thesis unfolding S using True m by (simp add: val_uint_of_u64)
  next
    case False
    have le: "m * 256 ^ (s - 3) \<le> v" using assms False by (simp add: compact_rep_def)
    have ov: "m \<le> 0xffff" if "s = 33"
    proof -
      have "m * 256 ^ 30 < 2 ^ 16 * 256 ^ 30" using le assms that by simp
      then show ?thesis by simp
    qed
    let ?w = "uint_shl (uint_of_u64 m) (8 * (s - 3))"
    have wm: "val ?w = m * 256 ^ (s - 3)"
      using le assms m by (simp add: val_uint_shl val_uint_of_u64 WIDTH_def power_mult)
    have w: "val ?w = v div 256 ^ (s - 3) * 256 ^ (s - 3)"
      using wm assms(1) False by (simp only: compact_rep_def if_False)
    have nw: "nw = m" using False by (simp add: nw_def)
    have "(m \<noteq> 0 \<and> (s > 34 \<or> (m > 0xff \<and> s > 33) \<or> (m > 0xffff \<and> s > 32))) = False"
    proof (cases "s = 33")
      case True
      from ov [OF True] True show ?thesis by simp
    qed (use assms(3) in simp)
    then have "SetCompact ?c = (?w, False, False)" unfolding S nw by (simp only: False if_False)
    with w False show ?thesis by (intro exI [of _ ?w]) simp
  qed
qed

lemma compact_lossy:
  assumes "length a = WIDTH"
  shows "\<exists>c w. GetCompact a False = Some c \<and> c < 2 ^ 32 \<and> SetCompact c = (w, False, False) \<and>
     val w \<le> val a \<and> 2 ^ 15 * (val a - val w) \<le> val a \<and> GetCompact w False = Some c"
proof -
  obtain s m where sm: "GetCompact a False = Some (m + 2 ^ 24 * s)" "compact_rep (val a) s m" "s \<le> 33"
    using GetCompact_rep [OF assms] by blast
  have "val a < 2 ^ 256" using val_bound [of a] assms by (simp add: WIDTH_def)
  then obtain w where w: "SetCompact (m + 2 ^ 24 * s) = (w, False, False)" "length w = WIDTH"
      "val w = (if s \<le> 3 then val a else val a div 256 ^ (s - 3) * 256 ^ (s - 3))"
    using SetCompact_rep [OF sm(2) _ sm(3)] by blast
  have rep: "compact_rep (val w) s m"
    using sm(2) w(3) by (auto simp: compact_rep_def split: if_splits)
  obtain s' m' where "GetCompact w False = Some (m' + 2 ^ 24 * s')" "compact_rep (val w) s' m'"
    using GetCompact_rep [OF w(2)] by blast
  with rep have "GetCompact w False = Some (m + 2 ^ 24 * s)" using compact_rep_unique by blast
  moreover have "val w \<le> val a" using w(3) by simp
  moreover have "2 ^ 15 * (val a - val w) \<le> val a"
  proof (cases "s \<le> 3")
    case False
    define p where "p = (256 :: nat) ^ (s - 3)"
    have m: "2 ^ 15 \<le> val a div p" using sm(2) False by (auto simp: compact_rep_def p_def split: if_splits)
    have "val a - val w = val a mod p" using w(3) False by (simp add: p_def minus_div_mult_eq_mod)
    also have "\<dots> \<le> p" by (simp add: p_def less_imp_le)
    finally have "2 ^ 15 * (val a - val w) \<le> val a div p * p" using m by (intro mult_le_mono)
    also have "\<dots> \<le> val a" by simp
    finally show ?thesis .
  qed (use w(3) in simp)
  moreover have "m + 2 ^ 24 * s < 2 ^ 32" using sm(2,3) by (auto simp: compact_rep_def)
  ultimately show ?thesis using sm(1) w(1) by blast
qed

section \<open>Conversion to bytes\<close>

lemma le_val_ArithToUint256: "le_val (ArithToUint256 a) = val a"
proof (induction a)
  case (Cons x xs)
  then show ?case
    using unat_u32_lt [of x] by (simp add: ArithToUint256_def le_val_append)
qed (simp add: ArithToUint256_def)

lemma length_ArithToUint256: "length (ArithToUint256 a) = 4 * length a"
  by (induction a) (simp_all add: ArithToUint256_def)

lemma ArithToUint256_limb:
  "i < length a \<Longrightarrow> take 4 (drop (i * 4) (ArithToUint256 a)) = le_bytes 4 (unat (a ! i))"
proof (induction a arbitrary: i)
  case (Cons x xs)
  then show ?case by (cases i) (simp_all add: ArithToUint256_def)
qed simp

lemma UintToArith256_ArithToUint256:
  assumes "length a = WIDTH"
  shows "UintToArith256 (ArithToUint256 a) = a"
proof (rule nth_equalityI)
  fix i assume "i < length (UintToArith256 (ArithToUint256 a))"
  then have i: "i < WIDTH" by (simp add: UintToArith256_def)
  then show "UintToArith256 (ArithToUint256 a) ! i = a ! i"
    using assms unat_u32_lt [of "a ! i"] by (simp add: UintToArith256_def ArithToUint256_limb)
qed (simp add: UintToArith256_def assms)

section \<open>Properties\<close>

text \<open>
C32: The operators of the 256-bit arithmetic compute on naturals modulo \<open>2 ^ 256\<close>: addition, subtraction and negation wrap, multiplication
by a number and by a 32-bit factor wrap, shifts multiply and divide by powers of two, increment and decrement
wrap around, and \<open>CompareTo\<close> is the order of the numbers.
\<close>

theorem uint_arithmetic_refines:
  assumes "length a = WIDTH" "length b = WIDTH"
  shows "val (uint_add a b) = (val a + val b) mod 2 ^ 256 \<and>
    val (uint_sub a b) = (2 ^ 256 + val a - val b) mod 2 ^ 256 \<and>
    val (uint_neg a) = (2 ^ 256 - val a) mod 2 ^ 256 \<and>
    val (uint_inc a) = (val a + 1) mod 2 ^ 256 \<and>
    val (uint_dec a) = (2 ^ 256 + val a - 1) mod 2 ^ 256 \<and>
    val (uint_mul a b) = (val a * val b) mod 2 ^ 256 \<and>
    val (uint_mul32 a w) = (val a * unat w) mod 2 ^ 256 \<and>
    val (uint_shl a n) = (val a * 2 ^ n) mod 2 ^ 256 \<and>
    val (uint_shr a n) = val a div 2 ^ n \<and>
    CompareTo a b = sgn (int (val a) - int (val b))"
proof -
  have w: "32 * WIDTH = 256" by (simp add: WIDTH_def)
  have lt: "val a < 2 ^ 256" using val_bound [of a] assms w by simp
  have "val (uint_dec a) = (2 ^ 256 + val a - 1) mod 2 ^ 256"
  proof (cases "val a = 0")
    case False
    then have "2 ^ 256 + val a - 1 = (val a - 1) + 2 ^ 256" by simp
    then show ?thesis using False lt by (simp only: val_uint_dec mod_add_self2) simp
  qed (simp add: val_uint_dec assms WIDTH_def)
  moreover have "CompareTo a b = sgn (int (val a) - int (val b))"
    using assms by (simp add: CompareTo_val)
  ultimately show ?thesis
    using assms by (simp only: val_uint_add val_uint_sub val_uint_neg val_uint_inc uint_mul_correct
      val_uint_mul32 val_uint_shl val_uint_shr w add.commute [of "val a" "2 ^ 256"] simp_thms)
qed

theorem uint_arithmetic_refines_witness:
  "length (uint_of_u64 3) = WIDTH \<and> length (uint_of_u64 7) = WIDTH \<and>
   val (uint_sub (uint_of_u64 3) (uint_of_u64 7)) = 2 ^ 256 - 4 \<and>
   CompareTo (uint_of_u64 3) (uint_of_u64 7) = - 1"
  using uint_arithmetic_refines [of "uint_of_u64 3" "uint_of_u64 7"] by (simp add: val_uint_of_u64)

text \<open>
  Division is exact: it raises the division-by-zero error only for a zero divisor, and otherwise returns the
quotient rounded down.
\<close>

lemma uint_div_correct:
  assumes "length a = WIDTH" "length b = WIDTH"
  shows "map_option val (uint_div a b) = (if val b = 0 then None else Some (val a div val b))"
  using assms by (rule val_uint_div)

text \<open>
C31: The compact encoding of a target never trips an assertion and fits 32 bits. Decoding it raises neither the negative
nor the overflow flag, gives a target no larger than the original with a relative error of at most \<open>2 ^ -15\<close>,
and encoding that target again gives the same compact number.
\<close>

theorem compact_roundtrip:
  assumes "length a = WIDTH"
  shows "\<exists>c w. GetCompact a False = Some c \<and> c < 2 ^ 32 \<and> SetCompact c = (w, False, False) \<and>
     val w \<le> val a \<and> 2 ^ 15 * (val a - val w) \<le> val a \<and> GetCompact w False = Some c"
  using assms by (rule compact_lossy)

theorem compact_roundtrip_witness:
  "length (uint_of_u64 0x12345678) = WIDTH \<and>
   (\<exists>c w. GetCompact (uint_of_u64 0x12345678) False = Some c \<and> c < 2 ^ 32 \<and>
      SetCompact c = (w, False, False) \<and> val w \<le> 0x12345678 \<and>
      2 ^ 15 * (0x12345678 - val w) \<le> 0x12345678 \<and> GetCompact w False = Some c)"
  using compact_roundtrip [of "uint_of_u64 0x12345678"] by (simp add: val_uint_of_u64)

end
