(* ===== verification/Transaction.thy ===== *)
theory Transaction
  imports Serialize Hashing
begin

unbundle bit_operations_syntax

text \<open>
  Amounts (\<open>amount.h\<close>) and transactions (\<open>primitives/transaction.h\<close>, \<open>primitives/transaction.cpp\<close>): the
  data types with their wire formats, the transaction hash, and the predicates that classify
  coinbase and coinstake transactions. An amount is an integer in the range of \<open>int64_t\<close>; the code
  checks every amount before it adds it, so sums stay in that range. Unlike its ancestor, this
  program writes a time stamp \<open>nTime\<close> into transactions of version 1 and 2.
\<close>

section \<open>Amounts\<close>

type_synonym CAmount = int

definition COIN :: CAmount where
  "COIN = 100000000"

definition MAX_MONEY :: CAmount where
  "MAX_MONEY = 105000000 * COIN"

definition MoneyRange :: "CAmount \<Rightarrow> bool" where
  "MoneyRange v \<longleftrightarrow> 0 \<le> v \<and> v \<le> MAX_MONEY"

section \<open>Data\<close>

record COutPoint =
  op_hash :: bytes
  op_n :: u32

record CTxIn =
  prevout :: COutPoint
  scriptSig :: bytes
  nSequence :: u32

record CTxOut =
  nValue :: CAmount
  scriptPubKey :: bytes

record CTransaction =
  vin :: "CTxIn list"
  vout :: "CTxOut list"
  nVersion :: u16
  nType :: u16
  nLockTime :: u32
  nTime :: u32
  vExtraPayload :: bytes

abbreviation (input) TRANSACTION_NORMAL :: u16 where "TRANSACTION_NORMAL \<equiv> 0"
abbreviation (input) SEQUENCE_FINAL :: u32 where "SEQUENCE_FINAL \<equiv> 0xffffffff"

definition uint256_null :: bytes where
  "uint256_null = replicate 32 0"

definition NULL_INDEX :: u32 where
  "NULL_INDEX = 0xffffffff"

definition COutPoint_IsNull :: "COutPoint \<Rightarrow> bool" where
  "COutPoint_IsNull p \<longleftrightarrow> op_hash p = uint256_null \<and> op_n p = NULL_INDEX"

definition CTxOut_null :: CTxOut where
  "CTxOut_null = \<lparr>nValue = -1, scriptPubKey = []\<rparr>"

definition CTxOut_IsEmpty :: "CTxOut \<Rightarrow> bool" where
  "CTxOut_IsEmpty o' \<longleftrightarrow> nValue o' = 0 \<and> scriptPubKey o' = []"

definition IsCoinBase :: "CTransaction \<Rightarrow> bool" where
  "IsCoinBase tx \<longleftrightarrow> length (vin tx) = 1 \<and> COutPoint_IsNull (prevout (vin tx ! 0))"

definition IsCoinStake :: "CTransaction \<Rightarrow> bool" where
  "IsCoinStake tx \<longleftrightarrow>
     (if vin tx = [] then False
      else if COutPoint_IsNull (prevout (vin tx ! 0)) then False
      else length (vout tx) \<ge> 2 \<and> CTxOut_IsEmpty (vout tx ! 0))"

text \<open>\<open>GetValueOut\<close>; \<open>None\<close> is the exception for a value out of range.\<close>

fun value_out_loop :: "CAmount \<Rightarrow> CTxOut list \<Rightarrow> CAmount option" where
  "value_out_loop nValueOut [] = Some nValueOut"
| "value_out_loop nValueOut (tx_out # outs) =
     (if \<not> MoneyRange (nValue tx_out) \<or> \<not> MoneyRange (nValueOut + nValue tx_out) then None
      else value_out_loop (nValueOut + nValue tx_out) outs)"

definition GetValueOut :: "CTransaction \<Rightarrow> CAmount option" where
  "GetValueOut tx = value_out_loop 0 (vout tx)"

section \<open>Wire formats\<close>

definition ser_u32 :: "u32 \<Rightarrow> bytes" where
  "ser_u32 x = ser_writedata32 (unat x)"

definition unser_u32 :: "u32 reader" where
  "unser_u32 s = map_sum id (map_prod of_nat id) (ser_readdata32 s)"

definition ser_int64 :: "int \<Rightarrow> bytes" where
  "ser_int64 x = ser_writedata64 (nat (x mod 2 ^ 64))"

definition unser_int64 :: "int reader" where
  "unser_int64 s =
     map_sum id (map_prod (\<lambda>v. if v < 2 ^ 63 then int v else int v - 2 ^ 64) id) (ser_readdata64 s)"

definition ser_outpoint :: "COutPoint \<Rightarrow> bytes" where
  "ser_outpoint p = op_hash p @ ser_u32 (op_n p)"

definition unser_outpoint :: "COutPoint reader" where
  "unser_outpoint s =
     bindE (stream_read 32 s) (\<lambda>(h, s1).
     bindE (unser_u32 s1) (\<lambda>(k, s2).
     Inr (\<lparr>op_hash = h, op_n = k\<rparr>, s2)))"

definition ser_txin :: "CTxIn \<Rightarrow> bytes" where
  "ser_txin i = ser_outpoint (prevout i) @ ser_blob (scriptSig i) @ ser_u32 (nSequence i)"

definition unser_txin :: "CTxIn reader" where
  "unser_txin s =
     bindE (unser_outpoint s) (\<lambda>(p, s1).
     bindE (unser_blob s1) (\<lambda>(sc, s2).
     bindE (unser_u32 s2) (\<lambda>(q, s3).
     Inr (\<lparr>prevout = p, scriptSig = sc, nSequence = q\<rparr>, s3))))"

definition ser_txout :: "CTxOut \<Rightarrow> bytes" where
  "ser_txout o' = ser_int64 (nValue o') @ ser_blob (scriptPubKey o')"

definition unser_txout :: "CTxOut reader" where
  "unser_txout s =
     bindE (unser_int64 s) (\<lambda>(v, s1).
     bindE (unser_blob s1) (\<lambda>(sc, s2).
     Inr (\<lparr>nValue = v, scriptPubKey = sc\<rparr>, s2)))"

text \<open>
  The version word: \<open>nVersion\<close> is a signed 16-bit number, so it is sign-extended before the type is
  combined with it.
\<close>

definition n32bitVersion :: "u16 \<Rightarrow> u16 \<Rightarrow> u32" where
  "n32bitVersion v t = scast v OR push_bit 16 (ucast t)"

definition has_time :: "u16 \<Rightarrow> bool" where
  "has_time v \<longleftrightarrow> v = 1 \<or> v = 2"

definition has_payload :: "u16 \<Rightarrow> u16 \<Rightarrow> bool" where
  "has_payload v t \<longleftrightarrow> v = 3 \<and> t \<noteq> TRANSACTION_NORMAL"

definition SerializeTx :: "CTransaction \<Rightarrow> bytes" where
  "SerializeTx tx =
     ser_u32 (n32bitVersion (nVersion tx) (nType tx))
     @ (if has_time (nVersion tx) then ser_u32 (nTime tx) else [])
     @ ser_vector ser_txin (vin tx) @ ser_vector ser_txout (vout tx) @ ser_u32 (nLockTime tx)
     @ (if has_payload (nVersion tx) (nType tx) then ser_blob (vExtraPayload tx) else [])"

text \<open>
  Deserialization overwrites the fields of an existing \<open>CMutableTransaction\<close>; fields that are not on the
  wire keep the value they had in \<open>obj\<close>.
\<close>

definition UnserializeTx :: "CTransaction \<Rightarrow> CTransaction reader" where
  "UnserializeTx obj s =
     bindE (unser_u32 s) (\<lambda>(w, s1).
     let v = ucast w; t = ucast (drop_bit 16 w)
     in bindE (if has_time v then unser_u32 s1 else Inr (nTime obj, s1)) (\<lambda>(tm, s2).
     bindE (unser_vector unser_txin s2) (\<lambda>(ins, s3).
     bindE (unser_vector unser_txout s3) (\<lambda>(outs, s4).
     bindE (unser_u32 s4) (\<lambda>(lt, s5).
     bindE (if has_payload v t then unser_blob s5 else Inr (vExtraPayload obj, s5)) (\<lambda>(pl, s6).
     Inr (\<lparr>vin = ins, vout = outs, nVersion = v, nType = t, nLockTime = lt, nTime = tm,
           vExtraPayload = pl\<rparr>, s6)))))))"

definition GetHash :: "CTransaction \<Rightarrow> bytes" where
  "GetHash tx = HASH256 (SerializeTx tx)"

text \<open>
  \<open>CMutableTransaction(const CTransaction&)\<close> initialises every member except \<open>nTime\<close>, whose value in the copy
  is indeterminate (the argument \<open>garbage\<close>).
\<close>

definition CMutableTransaction_of :: "u32 \<Rightarrow> CTransaction \<Rightarrow> CTransaction" where
  "CMutableTransaction_of garbage tx =
     \<lparr>vin = vin tx, vout = vout tx, nVersion = nVersion tx, nType = nType tx, nLockTime = nLockTime tx,
      nTime = garbage, vExtraPayload = vExtraPayload tx\<rparr>"

definition GetTotalSize :: "CTransaction \<Rightarrow> nat" where
  "GetTotalSize tx = length (SerializeTx tx)"

section \<open>Codecs\<close>

interpretation u32_codec: canonical_codec ser_u32 unser_u32 "\<lambda>_. True"
proof
  fix x :: u32 and r
  have "unat x < 256 ^ 4" using unsigned_less [of x, where ?'a = nat] by simp
  then show "unser_u32 (ser_u32 x @ r) = Inr (x, r)"
    by (simp add: unser_u32_def ser_u32_def data32.unser_ser)
next
  fix s x r
  assume "unser_u32 s = Inr (x, r)"
  then obtain v where v: "ser_readdata32 s = Inr (v, r)" "x = of_nat v"
    by (cases "ser_readdata32 s") (auto simp: unser_u32_def)
  with data32.ser_unser [OF v(1)] show "s = ser_u32 x @ r \<and> True"
    by (simp add: ser_u32_def unat_of_nat)
qed

definition int64_ok :: "int \<Rightarrow> bool" where
  "int64_ok x \<longleftrightarrow> - (2 ^ 63) \<le> x \<and> x < 2 ^ 63"

interpretation int64_codec: canonical_codec ser_int64 unser_int64 int64_ok
proof
  fix x :: int and r
  assume x: "int64_ok x"
  define v where "v = nat (x mod 2 ^ 64)"
  have "x mod 2 ^ 64 = (if x < 0 then x + 2 ^ 64 else x)"
  proof (cases "x < 0")
    case True
    have "x mod 2 ^ 64 = (x + 2 ^ 64) mod 2 ^ 64" by (simp only: mod_add_self2)
    also have "\<dots> = x + 2 ^ 64" using x True by (intro mod_pos_pos_trivial) (simp_all add: int64_ok_def)
    finally show ?thesis using True by (simp only: if_True)
  qed (use x in \<open>simp add: int64_ok_def\<close>)
  then have "(if v < 2 ^ 63 then int v else int v - 2 ^ 64) = x" "v < 256 ^ 8"
    using x by (auto simp: v_def int64_ok_def nat_less_iff split: if_splits)
  then show "unser_int64 (ser_int64 x @ r) = Inr (x, r)"
    unfolding unser_int64_def ser_int64_def v_def [symmetric] by (simp add: data64.unser_ser)
next
  fix s x r
  assume "unser_int64 s = Inr (x, r)"
  then obtain v where v: "ser_readdata64 s = Inr (v, r)" "x = (if v < 2 ^ 63 then int v else int v - 2 ^ 64)"
    by (cases "ser_readdata64 s") (auto simp: unser_int64_def)
  from data64.ser_unser [OF v(1)] have s: "s = ser_writedata64 v @ r" "v < 2 ^ 64" by simp_all
  have "x mod 2 ^ 64 = int v mod 2 ^ 64" using v(2) by (simp add: mod_diff_right_eq [symmetric])
  also have "\<dots> = int v" using s(2) by (simp add: mod_pos_pos_trivial)
  finally have "nat (x mod 2 ^ 64) = v" by simp
  with s v(2) show "s = ser_int64 x @ r \<and> int64_ok x"
    by (auto simp: ser_int64_def int64_ok_def)
qed

definition outpoint_ok :: "COutPoint \<Rightarrow> bool" where
  "outpoint_ok p \<longleftrightarrow> length (op_hash p) = 32"

definition txin_ok :: "CTxIn \<Rightarrow> bool" where
  "txin_ok i \<longleftrightarrow> outpoint_ok (prevout i) \<and> length (scriptSig i) \<le> MAX_SIZE"

definition txout_ok :: "CTxOut \<Rightarrow> bool" where
  "txout_ok o' \<longleftrightarrow> int64_ok (nValue o') \<and> length (scriptPubKey o') \<le> MAX_SIZE"

lemmas base_codecs = u32_codec.unser_iff int64_codec.unser_iff blob.unser_iff stream_read_Inr

interpretation outpoint_codec: canonical_codec ser_outpoint unser_outpoint outpoint_ok
  by unfold_locales
    (auto simp: ser_outpoint_def unser_outpoint_def outpoint_ok_def stream_read_append u32_codec.unser_ser base_codecs)

interpretation txin_codec: canonical_codec ser_txin unser_txin txin_ok
  by unfold_locales
    (auto simp: ser_txin_def unser_txin_def txin_ok_def outpoint_codec.unser_ser blob.unser_ser
      u32_codec.unser_ser outpoint_codec.unser_iff base_codecs)

interpretation txout_codec: canonical_codec ser_txout unser_txout txout_ok
  by unfold_locales
    (auto simp: ser_txout_def unser_txout_def txout_ok_def int64_codec.unser_ser blob.unser_ser base_codecs)

interpretation txins_codec: canonical_codec "ser_vector ser_txin" "unser_vector unser_txin"
  "\<lambda>v. length v \<le> MAX_SIZE \<and> list_all txin_ok v"
  by (rule txin_codec.vector_canonical_codec)

interpretation txouts_codec: canonical_codec "ser_vector ser_txout" "unser_vector unser_txout"
  "\<lambda>v. length v \<le> MAX_SIZE \<and> list_all txout_ok v"
  by (rule txout_codec.vector_canonical_codec)

text \<open>A negative version number is sign-extended over the type; such a pair is recovered only for type \<open>0xffff\<close>.\<close>

definition version_ok :: "u16 \<Rightarrow> u16 \<Rightarrow> bool" where
  "version_ok v t \<longleftrightarrow> (bit v 15 \<longrightarrow> t = - 1)"

lemma bit_n32bitVersion:
  "bit (n32bitVersion v t) i \<longleftrightarrow>
     i < 32 \<and> (if i < 16 then bit v i else bit v 15 \<or> bit t (i - 16))"
  by (auto simp: n32bitVersion_def bit_simps)

lemma n32bitVersion_split:
  "ucast (n32bitVersion v t) = v"
  "version_ok v t \<Longrightarrow> ucast (drop_bit 16 (n32bitVersion v t)) = t"
proof -
  show "ucast (n32bitVersion v t) = v"
    by (rule bit_word_eqI) (simp add: bit_n32bitVersion bit_simps)
  assume "version_ok v t"
  then show "ucast (drop_bit 16 (n32bitVersion v t)) = t"
    by (intro bit_word_eqI) (auto simp: bit_n32bitVersion bit_simps version_ok_def)
qed

lemma n32bitVersion_join:
  "version_ok (ucast w) (ucast (drop_bit 16 w)) \<Longrightarrow> n32bitVersion (ucast w) (ucast (drop_bit 16 w)) = w"
proof (rule bit_word_eqI)
  fix i assume ok: "version_ok (ucast w) (ucast (drop_bit 16 w))" and i: "i < LENGTH(32)"
  have "bit w i" if "bit w 15" "16 \<le> i"
  proof -
    have "ucast (drop_bit 16 w) = (- 1 :: u16)" using ok that by (simp add: version_ok_def bit_simps)
    then have "bit (ucast (drop_bit 16 w) :: u16) (i - 16) = bit (- 1 :: u16) (i - 16)" by simp
    moreover have "i - 16 < 16" using i by simp
    ultimately show ?thesis using that by (simp add: bit_simps)
  qed
  then show "bit (n32bitVersion (ucast w) (ucast (drop_bit 16 w))) i = bit w i"
    using i by (auto simp: bit_n32bitVersion bit_simps)
qed

text \<open>
  What can be recovered from the wire: fields within their limits, and fields that are not written equal to
  those of the object that is read into.
\<close>

definition tx_ok :: "CTransaction \<Rightarrow> CTransaction \<Rightarrow> bool" where
  "tx_ok obj tx \<longleftrightarrow>
     length (vin tx) \<le> MAX_SIZE \<and> list_all txin_ok (vin tx) \<and>
     length (vout tx) \<le> MAX_SIZE \<and> list_all txout_ok (vout tx) \<and>
     (if has_payload (nVersion tx) (nType tx) then length (vExtraPayload tx) \<le> MAX_SIZE
      else vExtraPayload tx = vExtraPayload obj) \<and>
     (\<not> has_time (nVersion tx) \<longrightarrow> nTime tx = nTime obj)"

lemma UnserializeTx_Serialize:
  assumes "tx_ok obj tx" "version_ok (nVersion tx) (nType tx)"
  shows "UnserializeTx obj (SerializeTx tx @ r) = Inr (tx, r)"
  using assms
  by (cases tx)
    (auto simp: UnserializeTx_def SerializeTx_def tx_ok_def Let_def n32bitVersion_split
      u32_codec.unser_ser txins_codec.unser_ser txouts_codec.unser_ser blob.unser_ser)

lemma UnserializeTx_inv:
  assumes "UnserializeTx obj s = Inr (tx, r)" "version_ok (nVersion tx) (nType tx)"
  shows "s = SerializeTx tx @ r \<and> tx_ok obj tx"
  using assms
  by (auto simp: UnserializeTx_def SerializeTx_def tx_ok_def Let_def n32bitVersion_join
      txins_codec.unser_iff txouts_codec.unser_iff base_codecs split: if_splits)

lemma value_out_loop_range:
  "value_out_loop a outs = Some v \<Longrightarrow> MoneyRange a \<Longrightarrow>
     MoneyRange v \<and> v = a + sum_list (map nValue outs) \<and> list_all (\<lambda>o'. MoneyRange (nValue o')) outs"
  by (induction a outs rule: value_out_loop.induct) (auto split: if_splits)

lemma GetValueOut_range:
  "GetValueOut tx = Some v \<Longrightarrow>
     MoneyRange v \<and> v = sum_list (map nValue (vout tx)) \<and> list_all (\<lambda>o'. MoneyRange (nValue o')) (vout tx)"
  using value_out_loop_range [of 0 "vout tx" v] by (simp add: GetValueOut_def MoneyRange_def MAX_MONEY_def COIN_def)

text \<open>
  A version word with a negative version number and a type other than \<open>0xffff\<close> is accepted but written back as a
  different word.
\<close>

lemma negative_version_not_canonical:
  "\<exists>s tx. UnserializeTx obj s = Inr (tx, []) \<and> SerializeTx tx \<noteq> s"
proof -
  define tail where "tail = ser_vector ser_txin [] @ ser_vector ser_txout [] @ ser_u32 0"
  define tx where "tx = \<lparr>vin = [], vout = [], nVersion = 0x8000, nType = 0, nLockTime = 0,
    nTime = nTime obj, vExtraPayload = vExtraPayload obj\<rparr>"
  have "ucast (0x8000 :: u32) = (0x8000 :: u16)" "ucast (drop_bit 16 (0x8000 :: u32)) = (0 :: u16)" by simp_all
  then have "UnserializeTx obj (ser_u32 0x8000 @ tail) = Inr (tx, [])"
    by (simp add: UnserializeTx_def tail_def tx_def has_time_def has_payload_def u32_codec.unser_ser
        u32_codec.unser_ser [where r = "[]", simplified] txins_codec.unser_ser txouts_codec.unser_ser)
  moreover have "SerializeTx tx \<noteq> ser_u32 0x8000 @ tail"
  proof
    assume "SerializeTx tx = ser_u32 0x8000 @ tail"
    then have "n32bitVersion (nVersion tx) (nType tx) = 0x8000"
      unfolding SerializeTx_def using u32_codec.prefix_free by blast
    then have "n32bitVersion 0x8000 0 = 0x8000" by (simp only: tx_def CTransaction.select_convs)
    then have "bit (n32bitVersion 0x8000 0) 16 = bit (0x8000 :: u32) 16" by simp
    then show False by (simp add: bit_n32bitVersion)
  qed
  ultimately show ?thesis by blast
qed

section \<open>Properties\<close>

text \<open>
  Transactions round-trip. Deserializing succeeds with \<open>tx\<close> exactly on the bytes that \<open>tx\<close> serializes to, for every
transaction within the size limits whose version number is not negative; fields that are not on the wire (the time
stamp outside versions 1 and 2, the payload of ordinary transactions) come from the object that is read into.
\<close>

lemma tx_roundtrip:
  assumes "version_ok (nVersion tx) (nType tx)"
  shows "UnserializeTx obj s = Inr (tx, r) \<longleftrightarrow> tx_ok obj tx \<and> s = SerializeTx tx @ r"
  using UnserializeTx_inv UnserializeTx_Serialize assms by blast

definition sample_tx :: CTransaction where
  "sample_tx =
     \<lparr>vin = [\<lparr>prevout = \<lparr>op_hash = replicate 32 7, op_n = 1\<rparr>, scriptSig = [0x51], nSequence = 5\<rparr>],
      vout = [\<lparr>nValue = 42, scriptPubKey = [0x51]\<rparr>], nVersion = 2, nType = 0, nLockTime = 9, nTime = 1600000000,
      vExtraPayload = []\<rparr>"

lemma sample_tx_ok: "tx_ok sample_tx sample_tx"
  by (simp add: sample_tx_def tx_ok_def txin_ok_def txout_ok_def outpoint_ok_def int64_ok_def MAX_SIZE_def has_payload_def)

end
