(* ===== verification/SigHash.thy ===== *)
theory SigHash
  imports Transaction Interpreter
begin

unbundle bit_operations_syntax

text \<open>
  Signature hashes and the transaction signature checker (\<open>script/interpreter.cpp\<close>). The serializer
  \<open>CTransactionSignatureSerializer\<close> writes a modified transaction without building it; the reference
  \<open>SignatureHashOld\<close> of \<open>test/sighash_tests.cpp\<close> builds the modified copy and serializes that. Verification of
  ECDSA signatures (libsecp256k1) is a parameter of the checker.
\<close>

section \<open>The serializer\<close>

abbreviation (input) SIGHASH_NONE :: u32 where "SIGHASH_NONE \<equiv> 2"
abbreviation (input) SIGHASH_SINGLE :: u32 where "SIGHASH_SINGLE \<equiv> 3"
abbreviation (input) SIGHASH_ANYONECANPAY :: u32 where "SIGHASH_ANYONECANPAY \<equiv> 0x80"

definition fAnyoneCanPay :: "u32 \<Rightarrow> bool" where
  "fAnyoneCanPay nHashType \<longleftrightarrow> nHashType AND SIGHASH_ANYONECANPAY \<noteq> 0"

definition fHashSingle :: "u32 \<Rightarrow> bool" where
  "fHashSingle nHashType \<longleftrightarrow> nHashType AND 0x1f = SIGHASH_SINGLE"

definition fHashNone :: "u32 \<Rightarrow> bool" where
  "fHashNone nHashType \<longleftrightarrow> nHashType AND 0x1f = SIGHASH_NONE"

text \<open>Where a failing \<open>GetOp\<close> leaves the iterator: behind the opcode and a length field that was read.\<close>

fun failed_pc :: "bytes \<Rightarrow> bytes" where
  "failed_pc [] = []"
| "failed_pc (b # pc) =
     (let k = (if unat b = OP_PUSHDATA1 then 1 else if unat b = OP_PUSHDATA2 then 2
               else if unat b = OP_PUSHDATA4 then 4 else 0)
      in if length pc < k then pc else drop k pc)"

function nCodeSeparators :: "bytes \<Rightarrow> nat" where
  "nCodeSeparators it =
     (case GetScriptOp it of
        None \<Rightarrow> 0
      | Some (opcode, _, it1) \<Rightarrow> (if opcode = OP_CODESEPARATOR then 1 else 0) + nCodeSeparators it1)"
  by pat_completeness auto
termination by (relation "measure length") auto

text \<open>The second loop: write the stretches between separators; \<open>itBegin\<close> is where the current one starts.\<close>

function separator_loop :: "bytes \<Rightarrow> bytes \<Rightarrow> bytes" where
  "separator_loop itBegin it =
     (case GetScriptOp it of
        None \<Rightarrow> if itBegin \<noteq> [] then take (length itBegin - length (failed_pc it)) itBegin else []
      | Some (opcode, _, it1) \<Rightarrow>
          if opcode = OP_CODESEPARATOR
          then take (length itBegin - length it1 - 1) itBegin @ separator_loop it1 it1
          else separator_loop itBegin it1)"
  by pat_completeness auto
termination by (relation "measure (length \<circ> snd)") auto

declare nCodeSeparators.simps [simp del] separator_loop.simps [simp del]

definition SerializeScriptCode :: "bytes \<Rightarrow> bytes" where
  "SerializeScriptCode scriptCode =
     WriteCompactSize (length scriptCode - nCodeSeparators scriptCode) @ separator_loop scriptCode scriptCode"

definition SerializeInput :: "bytes \<Rightarrow> CTransaction \<Rightarrow> nat \<Rightarrow> u32 \<Rightarrow> nat \<Rightarrow> bytes" where
  "SerializeInput scriptCode txTo nIn nHashType i =
     (let nInput = (if fAnyoneCanPay nHashType then nIn else i)
      in ser_outpoint (prevout (vin txTo ! nInput))
         @ (if nInput \<noteq> nIn then ser_blob [] else SerializeScriptCode scriptCode)
         @ (if nInput \<noteq> nIn \<and> (fHashSingle nHashType \<or> fHashNone nHashType) then ser_u32 0
            else ser_u32 (nSequence (vin txTo ! nInput))))"

definition SerializeOutput :: "CTransaction \<Rightarrow> nat \<Rightarrow> u32 \<Rightarrow> nat \<Rightarrow> bytes" where
  "SerializeOutput txTo nIn nHashType nOutput =
     (if fHashSingle nHashType \<and> nOutput \<noteq> nIn then ser_txout CTxOut_null else ser_txout (vout txTo ! nOutput))"

definition SerializeSig :: "bytes \<Rightarrow> CTransaction \<Rightarrow> nat \<Rightarrow> u32 \<Rightarrow> bytes" where
  "SerializeSig scriptCode txTo nIn nHashType =
     (let nInputs = (if fAnyoneCanPay nHashType then 1 else length (vin txTo));
          nOutputs = (if fHashNone nHashType then 0 else if fHashSingle nHashType then nIn + 1 else length (vout txTo))
      in ser_u32 (n32bitVersion (nVersion txTo) (nType txTo))
         @ WriteCompactSize nInputs @ concat (map (SerializeInput scriptCode txTo nIn nHashType) [0..<nInputs])
         @ WriteCompactSize nOutputs @ concat (map (SerializeOutput txTo nIn nHashType) [0..<nOutputs])
         @ ser_u32 (nLockTime txTo)
         @ (if has_payload (nVersion txTo) (nType txTo) then ser_blob (vExtraPayload txTo) else []))"

definition uint256_one :: bytes where
  "uint256_one = 1 # replicate 31 0"

definition sighash_message :: "bytes \<Rightarrow> CTransaction \<Rightarrow> nat \<Rightarrow> u32 \<Rightarrow> bytes" where
  "sighash_message scriptCode txTo nIn nHashType = SerializeSig scriptCode txTo nIn nHashType @ ser_u32 nHashType"

text \<open>\<open>None\<close> is the failed assertion on the input index.\<close>

definition SignatureHash :: "bytes \<Rightarrow> CTransaction \<Rightarrow> nat \<Rightarrow> u32 \<Rightarrow> bytes option" where
  "SignatureHash scriptCode txTo nIn nHashType =
     (if \<not> nIn < length (vin txTo) then None
      else if fHashSingle nHashType \<and> nIn \<ge> length (vout txTo) then Some uint256_one
      else Some (HASH256 (sighash_message scriptCode txTo nIn nHashType)))"

section \<open>The signature checker\<close>

definition CPubKey_GetLen :: "byte \<Rightarrow> nat" where
  "CPubKey_GetLen chHeader =
     (if chHeader = 2 \<or> chHeader = 3 then 33
      else if chHeader = 4 \<or> chHeader = 6 \<or> chHeader = 7 then 65
      else 0)"

text \<open>A \<open>CPubKey\<close> built from a byte vector; \<open>None\<close> is the invalid key.\<close>

definition CPubKey_Set :: "bytes \<Rightarrow> bytes option" where
  "CPubKey_Set v =
     (let len = (if v = [] then 0 else CPubKey_GetLen (hd v))
      in if len \<noteq> 0 \<and> len = length v then Some v else None)"

definition tx_CheckSig ::
  "(bytes \<Rightarrow> bytes \<Rightarrow> bytes \<Rightarrow> bool) \<Rightarrow> CTransaction \<Rightarrow> nat \<Rightarrow> bytes \<Rightarrow> bytes \<Rightarrow> bytes \<Rightarrow> bool option" where
  "tx_CheckSig verify txTo nIn vchSigIn vchPubKey scriptCode =
     (case CPubKey_Set vchPubKey of
        None \<Rightarrow> Some False
      | Some pubkey \<Rightarrow>
          if vchSigIn = [] then Some False
          else map_option (\<lambda>sighash. verify pubkey sighash (butlast vchSigIn))
                 (SignatureHash scriptCode txTo nIn (ucast (last vchSigIn))))"

definition tx_CheckLockTime :: "CTransaction \<Rightarrow> nat \<Rightarrow> int \<Rightarrow> bool" where
  "tx_CheckLockTime txTo nIn lockTime =
     (if \<not> ((uint (nLockTime txTo) < int LOCKTIME_THRESHOLD \<and> lockTime < int LOCKTIME_THRESHOLD) \<or>
             (uint (nLockTime txTo) \<ge> int LOCKTIME_THRESHOLD \<and> lockTime \<ge> int LOCKTIME_THRESHOLD)) then False
      else if lockTime > uint (nLockTime txTo) then False
      else if SEQUENCE_FINAL = nSequence (vin txTo ! nIn) then False
      else True)"

definition SEQUENCE_LOCKTIME_DISABLE :: u32 where
  "SEQUENCE_LOCKTIME_DISABLE = push_bit 31 1"

definition SEQUENCE_LOCKTIME_TYPE_FLAG :: u32 where
  "SEQUENCE_LOCKTIME_TYPE_FLAG = push_bit 22 1"

definition SEQUENCE_LOCKTIME_MASK :: u32 where
  "SEQUENCE_LOCKTIME_MASK = 0x0000ffff"

definition tx_CheckSequence :: "CTransaction \<Rightarrow> nat \<Rightarrow> int \<Rightarrow> bool" where
  "tx_CheckSequence txTo nIn sq =
     (let txToSequence = uint (nSequence (vin txTo ! nIn));
          nLockTimeMask = uint (SEQUENCE_LOCKTIME_TYPE_FLAG OR SEQUENCE_LOCKTIME_MASK);
          txToSequenceMasked = txToSequence AND nLockTimeMask;
          nSequenceMasked = sq AND nLockTimeMask;
          typ = uint SEQUENCE_LOCKTIME_TYPE_FLAG
      in if (scast (nVersion txTo) :: u32) < 2 then False
         else if txToSequence AND uint SEQUENCE_LOCKTIME_DISABLE \<noteq> 0 then False
         else if \<not> ((txToSequenceMasked < typ \<and> nSequenceMasked < typ) \<or>
                     (txToSequenceMasked \<ge> typ \<and> nSequenceMasked \<ge> typ)) then False
         else if nSequenceMasked > txToSequenceMasked then False
         else True)"

text \<open>
  The checker that \<open>VerifyScript\<close> is called with for input \<open>nIn\<close> of \<open>txTo\<close>; the two entry points of
  libsecp256k1 are \<open>lowS\<close> and \<open>verify\<close> (key, message hash, signature).
\<close>

definition TransactionSignatureChecker ::
  "(bytes \<Rightarrow> bool) \<Rightarrow> (bytes \<Rightarrow> bytes \<Rightarrow> bytes \<Rightarrow> bool) \<Rightarrow> CTransaction \<Rightarrow> nat \<Rightarrow> sig_checker" where
  "TransactionSignatureChecker lowS verify txTo nIn =
     \<lparr>CheckSig = (\<lambda>vchSig vchPubKey scriptCode. tx_CheckSig verify txTo nIn vchSig vchPubKey scriptCode = Some True),
      CheckLockTime = tx_CheckLockTime txTo nIn,
      CheckSequence = tx_CheckSequence txTo nIn,
      CheckLowS = lowS,
      VerifyHash = (\<lambda>pubkey h sig. case CPubKey_Set pubkey of None \<Rightarrow> False | Some k \<Rightarrow> verify k h sig)\<rparr>"

section \<open>The reference: a modified copy\<close>

definition SignatureHashOld :: "u32 \<Rightarrow> bytes \<Rightarrow> CTransaction \<Rightarrow> nat \<Rightarrow> u32 \<Rightarrow> bytes" where
  "SignatureHashOld garbage scriptCode0 txTo nIn nHashType =
     (if nIn \<ge> length (vin txTo) then uint256_one
      else if nHashType AND 0x1f = SIGHASH_SINGLE \<and> nIn \<ge> length (vout txTo) then uint256_one
      else
        let tx0 = CMutableTransaction_of garbage txTo;
            scriptCode = fst (FindAndDelete scriptCode0 [of_nat OP_CODESEPARATOR]);
            vin1 = (map (scriptSig_update (\<lambda>_. [])) (vin tx0))[nIn := (vin tx0 ! nIn)\<lparr>scriptSig := scriptCode\<rparr>];
            others = map (\<lambda>(i, txin). if i \<noteq> nIn then txin\<lparr>nSequence := 0\<rparr> else txin) (enumerate 0 vin1);
            (vin2, vout2) =
              (if nHashType AND 0x1f = SIGHASH_NONE then (others, [])
               else if nHashType AND 0x1f = SIGHASH_SINGLE
               then (others, replicate nIn CTxOut_null @ [vout tx0 ! nIn])
               else (vin1, vout tx0));
            vin3 = (if nHashType AND SIGHASH_ANYONECANPAY \<noteq> 0 then [vin2 ! nIn] else vin2)
        in HASH256 (SerializeTx (tx0\<lparr>vin := vin3, vout := vout2\<rparr>) @ ser_u32 nHashType))"

section \<open>Scripts without separators\<close>

text \<open>\<open>decodable\<close>: the script splits into instructions up to its end.\<close>

function decodable :: "bytes \<Rightarrow> bool" where
  "decodable pc =
     (pc = [] \<or> (case GetScriptOp pc of None \<Rightarrow> False | Some (_, _, pc1) \<Rightarrow> decodable pc1))"
  by pat_completeness auto
termination by (relation "measure length") auto

function strip_separators :: "bytes \<Rightarrow> bytes" where
  "strip_separators pc =
     (case GetScriptOp pc of
        None \<Rightarrow> pc
      | Some (opcode, _, pc1) \<Rightarrow>
          (if opcode = OP_CODESEPARATOR then [] else take (length pc - length pc1) pc) @ strip_separators pc1)"
  by pat_completeness auto
termination by (relation "measure length") auto

declare decodable.simps [simp del] strip_separators.simps [simp del]

lemma GetScriptOp_suffix:
  "GetScriptOp pc = Some (opcode, v, pc1) \<Longrightarrow> \<exists>h. pc = h @ pc1 \<and> h \<noteq> []"
  by (drule GetScriptOp_rest) (metis Cons_eq_appendI append.assoc list.distinct(1))

lemma unat_of_nat_byte_sep: "unat (of_nat OP_CODESEPARATOR :: byte) = OP_CODESEPARATOR"
  by simp

lemma GetScriptOp_separator:
  "GetScriptOp (of_nat OP_CODESEPARATOR # r) = Some (OP_CODESEPARATOR, [], r)"
  by simp

lemma GetScriptOp_CODESEPARATOR:
  "GetScriptOp pc = Some (OP_CODESEPARATOR, v, pc1) \<Longrightarrow> pc = of_nat OP_CODESEPARATOR # pc1"
proof -
  assume op: "GetScriptOp pc = Some (OP_CODESEPARATOR, v, pc1)"
  then obtain b r where pc: "pc = b # r" by (cases pc) auto
  with op have "unat b = OP_CODESEPARATOR" "r = pc1"
    by (auto simp: Let_def split: if_splits)
  then show ?thesis using pc by (metis word_unat_eq_iff unat_of_nat_byte_sep)
qed

lemma length_strip_separators:
  "length (strip_separators pc) + nCodeSeparators pc = length pc"
proof (induction pc rule: strip_separators.induct)
  case (1 pc)
  show ?case
  proof (cases "GetScriptOp pc")
    case None
    then show ?thesis by (simp add: strip_separators.simps [of pc] nCodeSeparators.simps [of pc])
  next
    case (Some a)
    then obtain opcode v pc1 where op: "GetScriptOp pc = Some (opcode, v, pc1)" by (cases a) auto
    from 1 [OF op refl refl] have IH: "length (strip_separators pc1) + nCodeSeparators pc1 = length pc1" .
    show ?thesis
    proof (cases "opcode = OP_CODESEPARATOR")
      case True
      then have "pc = of_nat OP_CODESEPARATOR # pc1" using op GetScriptOp_CODESEPARATOR by blast
      then have "length pc = Suc (length pc1)" by simp
      with op IH True show ?thesis
        by (simp add: strip_separators.simps [of pc] nCodeSeparators.simps [of pc])
    next
      case False
      have "length pc1 < length pc" using op by (rule GetScriptOp_rest_less)
      with op IH False show ?thesis
        by (simp add: strip_separators.simps [of pc] nCodeSeparators.simps [of pc] del: GetScriptOp_rest_less)
    qed
  qed
qed

lemma separator_loop_strip:
  "decodable it \<Longrightarrow> itBegin = w @ it \<Longrightarrow> separator_loop itBegin it = w @ strip_separators it"
proof (induction it arbitrary: itBegin w rule: strip_separators.induct)
  case (1 it)
  show ?case
  proof (cases "GetScriptOp it")
    case None
    with "1.prems" show ?thesis
      by (auto simp: decodable.simps [of it] strip_separators.simps [of "[]"] separator_loop.simps [of _ "[]"])
  next
    case (Some a)
    then obtain opcode v it1 where op: "GetScriptOp it = Some (opcode, v, it1)" by (cases a) auto
    then obtain h where h: "it = h @ it1" using GetScriptOp_suffix by blast
    from op "1.prems" have d: "decodable it1" by (auto simp: decodable.simps [of it])
    show ?thesis
    proof (cases "opcode = OP_CODESEPARATOR")
      case True
      then have "it = of_nat OP_CODESEPARATOR # it1" using op GetScriptOp_CODESEPARATOR by blast
      then have "take (length itBegin - length it1 - 1) itBegin = w" using "1.prems" by simp
      then show ?thesis
        using True op "1.IH" [OF op refl refl d, of it1 "[]"]
        by (simp add: strip_separators.simps [of it] separator_loop.simps [of _ it])
    next
      case False
      have "strip_separators it = take (length it - length it1) it @ strip_separators it1"
        using op False by (simp add: strip_separators.simps [of it])
      moreover have "separator_loop itBegin it = separator_loop itBegin it1"
        using op False by (simp add: separator_loop.simps [of _ it])
      ultimately show ?thesis
        using "1.IH" [OF op refl refl d, of itBegin "w @ h"] "1.prems" h by simp
    qed
  qed
qed

lemma SerializeScriptCode_strip:
  "decodable sc \<Longrightarrow> SerializeScriptCode sc = ser_blob (strip_separators sc)"
proof -
  assume d: "decodable sc"
  have "length sc - nCodeSeparators sc = length (strip_separators sc)"
    using length_strip_separators [of sc] by linarith
  then show ?thesis
    using separator_loop_strip [OF d, of sc "[]"] by (simp add: SerializeScriptCode_def ser_blob_def)
qed

lemma strip_separators_Cons: "strip_separators (of_nat OP_CODESEPARATOR # r) = strip_separators r"
  by (subst strip_separators.simps) (simp only: GetScriptOp_separator, simp)

lemma skip_matches_single:
  "skip_matches [x] [] = ([], 0)"
  "skip_matches [x] (b # pc) = (if b = x then map_prod id Suc (skip_matches [x] pc) else (b # pc, 0))"
  by (subst skip_matches.simps, simp)+

lemma skip_matches_separator:
  "strip_separators (fst (skip_matches [of_nat OP_CODESEPARATOR] pc)) = strip_separators pc \<and>
   (snd (skip_matches [of_nat OP_CODESEPARATOR] pc) = 0 \<longrightarrow> fst (skip_matches [of_nat OP_CODESEPARATOR] pc) = pc) \<and>
   fst (skip_matches [of_nat OP_CODESEPARATOR] pc) \<noteq> of_nat OP_CODESEPARATOR # r"
proof (induction pc arbitrary: r)
  case Nil
  then show ?case by (simp add: skip_matches_single)
next
  case (Cons b pc)
  then show ?case
    using strip_separators_Cons [of pc] by (cases "b = of_nat OP_CODESEPARATOR") (auto simp: skip_matches_single)
qed

lemma find_delete_separator:
  "find_delete_loop [of_nat OP_CODESEPARATOR] pc = (res, pc3, m) \<Longrightarrow>
     res @ pc3 = strip_separators pc \<and> (m = 0 \<longrightarrow> strip_separators pc = pc)"
proof (induction "[of_nat OP_CODESEPARATOR :: byte]" pc arbitrary: res pc3 m rule: find_delete_loop.induct)
  case (1 pc)
  obtain pc2 n where sk: "skip_matches [of_nat OP_CODESEPARATOR] pc = (pc2, n)" by fastforce
  have pc2: "strip_separators pc = strip_separators pc2" "n = 0 \<longrightarrow> pc2 = pc"
      "\<And>r. pc2 \<noteq> of_nat OP_CODESEPARATOR # r"
    using skip_matches_separator [of pc] unfolding sk by auto
  show ?case
  proof (cases "GetScriptOp pc2")
    case None
    with "1.prems" sk pc2 show ?thesis
      by (auto simp: find_delete_loop.simps [of _ pc] strip_separators.simps [of pc2])
  next
    case (Some a)
    then obtain opcode v pc1 where op: "GetScriptOp pc2 = Some (opcode, v, pc1)" by (cases a) auto
    obtain h where h: "pc2 = h @ pc1" using GetScriptOp_suffix [OF op] by blast
    have ne: "opcode \<noteq> OP_CODESEPARATOR" using op pc2(3) GetScriptOp_CODESEPARATOR by blast
    obtain res1 m1 where l: "find_delete_loop [of_nat OP_CODESEPARATOR] pc1 = (res1, pc3, m1)"
        "res = h @ res1" "m = n + m1"
      using "1.prems" sk op h by (auto simp: find_delete_loop.simps [of _ pc] split: prod.splits)
    from "1.hyps" [OF sk [symmetric] refl op refl refl l(1)]
    have "res1 @ pc3 = strip_separators pc1" "m1 = 0 \<longrightarrow> strip_separators pc1 = pc1" by auto
    moreover have "take (length pc2 - length pc1) pc2 = h" using h by simp
    then have "strip_separators pc2 = h @ strip_separators pc1"
      unfolding strip_separators.simps [of pc2] using op ne by simp
    ultimately show ?thesis using l(2,3) pc2(1,2) h by auto
  qed
qed

lemma FindAndDelete_separator: "fst (FindAndDelete sc [of_nat OP_CODESEPARATOR]) = strip_separators sc"
  using find_delete_separator [of sc]
  by (auto simp: FindAndDelete_def split: prod.splits)

section \<open>The modified copy\<close>

definition sighash_txin :: "bytes \<Rightarrow> CTransaction \<Rightarrow> nat \<Rightarrow> u32 \<Rightarrow> nat \<Rightarrow> CTxIn" where
  "sighash_txin sc tx nIn ht i =
     (if i = nIn then (vin tx ! nIn)\<lparr>scriptSig := strip_separators sc\<rparr>
      else if fHashSingle ht \<or> fHashNone ht then (vin tx ! i)\<lparr>scriptSig := [], nSequence := 0\<rparr>
      else (vin tx ! i)\<lparr>scriptSig := []\<rparr>)"

definition sighash_vin :: "bytes \<Rightarrow> CTransaction \<Rightarrow> nat \<Rightarrow> u32 \<Rightarrow> CTxIn list" where
  "sighash_vin sc tx nIn ht =
     (if fAnyoneCanPay ht then [sighash_txin sc tx nIn ht nIn]
      else map (sighash_txin sc tx nIn ht) [0..<length (vin tx)])"

definition sighash_vout :: "CTransaction \<Rightarrow> nat \<Rightarrow> u32 \<Rightarrow> CTxOut list" where
  "sighash_vout tx nIn ht =
     (if fHashNone ht then []
      else if fHashSingle ht then replicate nIn CTxOut_null @ [vout tx ! nIn]
      else vout tx)"

definition sighash_payload :: "CTransaction \<Rightarrow> bytes" where
  "sighash_payload tx = (if has_payload (nVersion tx) (nType tx) then ser_blob (vExtraPayload tx) else [])"

lemma SerializeInput_copy:
  "decodable sc \<Longrightarrow> SerializeInput sc tx nIn ht i =
     ser_txin (sighash_txin sc tx nIn ht (if fAnyoneCanPay ht then nIn else i))"
  by (auto simp: SerializeInput_def sighash_txin_def ser_txin_def SerializeScriptCode_strip Let_def)

lemma map_SerializeInput:
  "decodable sc \<Longrightarrow>
     map (SerializeInput sc tx nIn ht) [0..<if fAnyoneCanPay ht then 1 else length (vin tx)]
       = map ser_txin (sighash_vin sc tx nIn ht)"
  by (simp add: SerializeInput_copy sighash_vin_def)

lemma map_SerializeOutput:
  "map (SerializeOutput tx nIn ht)
       [0..<if fHashNone ht then 0 else if fHashSingle ht then nIn + 1 else length (vout tx)]
     = map ser_txout (sighash_vout tx nIn ht)"
proof (cases "fHashNone ht \<or> fHashSingle ht")
  case True
  moreover have "map (SerializeOutput tx nIn ht) [0..<nIn] = replicate nIn (ser_txout CTxOut_null)" if "fHashSingle ht"
    using that by (intro nth_equalityI) (simp_all add: SerializeOutput_def)
  ultimately show ?thesis by (auto simp: sighash_vout_def SerializeOutput_def)
next
  case False
  then show ?thesis by (intro nth_equalityI) (simp_all add: SerializeOutput_def sighash_vout_def)
qed

lemma length_sighash_vin: "length (sighash_vin sc tx nIn ht) = (if fAnyoneCanPay ht then 1 else length (vin tx))"
  by (simp add: sighash_vin_def)

lemma length_sighash_vout:
  "length (sighash_vout tx nIn ht) =
     (if fHashNone ht then 0 else if fHashSingle ht then nIn + 1 else length (vout tx))"
  by (simp add: sighash_vout_def)

lemma SerializeSig_copy:
  assumes "decodable sc"
  shows "SerializeSig sc tx nIn ht =
    ser_u32 (n32bitVersion (nVersion tx) (nType tx)) @ ser_vector ser_txin (sighash_vin sc tx nIn ht)
    @ ser_vector ser_txout (sighash_vout tx nIn ht) @ ser_u32 (nLockTime tx) @ sighash_payload tx"
  unfolding SerializeSig_def Let_def map_SerializeInput [OF assms] map_SerializeOutput
    ser_vector_def length_sighash_vin length_sighash_vout sighash_payload_def
  by (simp only: append.assoc)

lemma Old_vin:
  fixes vin1 others :: "CTxIn list"
  assumes "nIn < length (vin tx)"
    and "vin1 = (map (scriptSig_update (\<lambda>_. [])) (vin tx))[nIn := (vin tx ! nIn)\<lparr>scriptSig := strip_separators sc\<rparr>]"
    and "others = map (\<lambda>(i, txin). if i \<noteq> nIn then txin\<lparr>nSequence := 0\<rparr> else txin) (enumerate 0 vin1)"
    and "vin2 = (if fHashSingle ht \<or> fHashNone ht then others else vin1)"
  shows "(if fAnyoneCanPay ht then [vin2 ! nIn] else vin2) = sighash_vin sc tx nIn ht"
proof -
  have "vin2 = map (sighash_txin sc tx nIn ht) [0..<length (vin tx)]"
    using assms by (intro nth_equalityI) (auto simp: sighash_txin_def nth_list_update nth_enumerate_eq)
  then show ?thesis using assms(1) by (simp add: sighash_vin_def)
qed

text \<open>The message with a time stamp behind the version, where the transaction serializer writes it.\<close>

definition stamped :: "u32 \<Rightarrow> bytes \<Rightarrow> bytes" where
  "stamped t m = take 4 m @ ser_u32 t @ drop 4 m"

lemma stamped_neq: "stamped t m \<noteq> m"
proof
  assume "stamped t m = m"
  then have "length (stamped t m) = length m" by simp
  then show False by (simp add: stamped_def ser_u32_def len_simps)
qed

lemma SignatureHashOld_message:
  assumes "nIn < length (vin tx)" "decodable sc" "\<not> (fHashSingle ht \<and> length (vout tx) \<le> nIn)"
  shows "SignatureHashOld garbage sc tx nIn ht =
    HASH256 (if has_time (nVersion tx) then stamped garbage (sighash_message sc tx nIn ht) else sighash_message sc tx nIn ht)"
proof -
  define vin1 where "vin1 = (map (scriptSig_update (\<lambda>_. [])) (vin tx))[nIn := (vin tx ! nIn)\<lparr>scriptSig := strip_separators sc\<rparr>]"
  define others where "others = map (\<lambda>(i, txin). if i \<noteq> nIn then txin\<lparr>nSequence := 0\<rparr> else txin) (enumerate 0 vin1)"
  have "SignatureHashOld garbage sc tx nIn ht =
      HASH256 (SerializeTx ((CMutableTransaction_of garbage tx)
        \<lparr>vin := sighash_vin sc tx nIn ht, vout := sighash_vout tx nIn ht\<rparr>) @ ser_u32 ht)"
    using assms Old_vin [OF assms(1) vin1_def others_def refl, of ht]
    unfolding SignatureHashOld_def Let_def FindAndDelete_separator
    by (auto simp: CMutableTransaction_of_def vin1_def [symmetric] others_def [symmetric] sighash_vout_def
        fHashSingle_def [symmetric] fHashNone_def [symmetric] fAnyoneCanPay_def [symmetric])
  moreover have "length (ser_u32 x) = 4" for x by (simp add: ser_u32_def len_simps)
  ultimately show ?thesis
    using assms
    by (cases "has_payload (nVersion tx) (nType tx)")
      (auto simp: sighash_message_def SerializeSig_copy SerializeTx_def CMutableTransaction_of_def sighash_payload_def stamped_def)
qed

section \<open>What a signature commits to\<close>






section \<open>Properties\<close>

text \<open>
C6: When the in-place signature serializer agrees with the reference of the tests, which builds a modified copy of the transaction. For an
input of the transaction and a script code that splits into instructions, \<open>SignatureHash\<close> returns the hash \<open>SignatureHashOld\<close>
computes, for every hash type, exactly if the version carries no time stamp (it does in versions 1 and 2) or the hash type is
\<open>SINGLE\<close> without a matching output: otherwise the reference hashes the message with a time stamp inserted, and the two hashes differ unless
\<open>HASH256\<close> collides on these two messages. The stamp is the member \<open>nTime\<close> of the copy, which its constructor leaves uninitialized.
\<close>

theorem SignatureHash_reference:
  assumes "nIn < length (vin tx)" "decodable sc"
    and "has_time (nVersion tx) \<Longrightarrow> inj_on HASH256 {sighash_message sc tx nIn ht, stamped garbage (sighash_message sc tx nIn ht)}"
  shows "SignatureHash sc tx nIn ht = Some (SignatureHashOld garbage sc tx nIn ht) \<longleftrightarrow>
    \<not> has_time (nVersion tx) \<or> fHashSingle ht \<and> length (vout tx) \<le> nIn"
proof (cases "fHashSingle ht \<and> length (vout tx) \<le> nIn")
  case True
  with assms(1) show ?thesis by (simp add: SignatureHash_def SignatureHashOld_def fHashSingle_def)
next
  case False
  let ?m = "sighash_message sc tx nIn ht"
  have "SignatureHash sc tx nIn ht = Some (HASH256 ?m)" using False assms(1) by (auto simp: SignatureHash_def)
  moreover have "HASH256 ?m \<noteq> HASH256 (stamped garbage ?m)" if "has_time (nVersion tx)"
    using inj_onD [OF assms(3) [OF that], of ?m "stamped garbage ?m"] stamped_neq [of garbage ?m] by auto
  ultimately show ?thesis using False SignatureHashOld_message [OF assms(1,2) False, of garbage] by auto
qed

theorem SignatureHash_reference_witness:
  "decodable [0x51, of_nat OP_CODESEPARATOR, 0xac] \<and>
   SignatureHash [0x51, of_nat OP_CODESEPARATOR, 0xac] (sample_tx\<lparr>nVersion := 4\<rparr>) 0 1
     = Some (SignatureHashOld 0 [0x51, of_nat OP_CODESEPARATOR, 0xac] (sample_tx\<lparr>nVersion := 4\<rparr>) 0 1)"
proof -
  have d: "decodable [0x51, of_nat OP_CODESEPARATOR, 0xac]" by code_simp
  moreover have "0 < length (vin (sample_tx\<lparr>nVersion := 4\<rparr>))" "\<not> has_time (nVersion (sample_tx\<lparr>nVersion := 4\<rparr>))"
    by (simp_all add: sample_tx_def has_time_def)
  ultimately show ?thesis using SignatureHash_reference by blast
qed



lemma SerializeSig_nTime_scripts:
  assumes n: "nIn < length (vin tx)"
    and tx': "tx' = tx\<lparr>nTime := t, vin := map (scriptSig_update f) (vin tx)\<rparr>"
  shows "SerializeSig sc tx' nIn ht = SerializeSig sc tx nIn ht"
proof -
  have ins: "map (SerializeInput sc tx' nIn ht) [0..<if fAnyoneCanPay ht then 1 else length (vin tx)]
      = map (SerializeInput sc tx nIn ht) [0..<if fAnyoneCanPay ht then 1 else length (vin tx)]"
  proof (intro map_cong refl)
    fix i assume "i \<in> set [0..<if fAnyoneCanPay ht then 1 else length (vin tx)]"
    then have "i < length (vin tx)" using n by (auto split: if_splits)
    with n show "SerializeInput sc tx' nIn ht i = SerializeInput sc tx nIn ht i"
      by (simp add: SerializeInput_def Let_def tx')
  qed
  have outs: "SerializeOutput tx' nIn ht = SerializeOutput tx nIn ht"
    by (simp add: fun_eq_iff SerializeOutput_def tx')
  have "length (vin tx') = length (vin tx)" by (simp add: tx')
  then show ?thesis unfolding SerializeSig_def Let_def outs by (simp only: ins) (simp add: tx')
qed

text \<open>
C39: The time stamp is not signed. Changing \<open>nTime\<close> of a version 1 or 2 transaction (and rewriting the signature scripts in
any way) leaves every signature hash as it was, although the transaction serializes, and so hashes, differently.
\<close>

theorem nTime_is_not_signed:
  assumes "has_time (nVersion tx)" "t \<noteq> nTime tx"
  shows "SignatureHash sc (tx\<lparr>nTime := t, vin := map (scriptSig_update f) (vin tx)\<rparr>) nIn ht = SignatureHash sc tx nIn ht \<and>
    SerializeTx (tx\<lparr>nTime := t\<rparr>) \<noteq> SerializeTx tx"
proof
  show "SignatureHash sc (tx\<lparr>nTime := t, vin := map (scriptSig_update f) (vin tx)\<rparr>) nIn ht = SignatureHash sc tx nIn ht"
    using SerializeSig_nTime_scripts [OF _ refl] by (simp add: SignatureHash_def sighash_message_def)
  show "SerializeTx (tx\<lparr>nTime := t\<rparr>) \<noteq> SerializeTx tx"
  proof
    assume "SerializeTx (tx\<lparr>nTime := t\<rparr>) = SerializeTx tx"
    then have "ser_u32 t = ser_u32 (nTime tx)" using assms(1) by (simp add: SerializeTx_def)
    then show False using u32_codec.ser_inj assms(2) by blast
  qed
qed

theorem nTime_is_not_signed_witness:
  "has_time (nVersion sample_tx) \<and>
   SignatureHash [0x51] (sample_tx\<lparr>nTime := 0, vin := map (scriptSig_update (\<lambda>_. [])) (vin sample_tx)\<rparr>) 0 1
     = SignatureHash [0x51] sample_tx 0 1 \<and>
   SerializeTx (sample_tx\<lparr>nTime := 0\<rparr>) \<noteq> SerializeTx sample_tx"
proof -
  have "has_time (nVersion sample_tx)" "0 \<noteq> nTime sample_tx" by (simp_all add: sample_tx_def has_time_def)
  with nTime_is_not_signed show ?thesis by blast
qed

end
