(* ===== verification/Coins.thy ===== *)
theory Coins
  imports Transaction Script "HOL-Library.AList"
begin

text \<open>
  The coins views (\<open>coins.h\<close>, \<open>coins.cpp\<close>, \<open>txdb.cpp\<close>): the unspent outputs are kept in a database
  (\<open>CCoinsViewDB\<close>) below a stack of write-back caches (\<open>CCoinsViewCache\<close>). The virtual functions of a view are
  a record \<open>view_ops\<close> on the state of that view; a cache over a view is a view again, whose state is the
  pair of the cache and the view below. The \<open>const\<close> functions fill the cache, so they return the state as
  well. An \<open>unordered_map\<close> is an association list with distinct keys; its order is the order of iteration.
  The memory that a script occupies is the parameter \<open>usage\<close>. LevelDB is modelled by its
  documented behaviour: a batch of writes is applied atomically.
\<close>

section \<open>Coins\<close>

record Coin =
  coin_out :: CTxOut
  coin_fCoinBase :: bool
  coin_fCoinStake :: bool
  coin_nHeight :: nat

definition coinEmpty :: Coin where
  "coinEmpty = \<lparr>coin_out = CTxOut_null, coin_fCoinBase = False, coin_fCoinStake = False, coin_nHeight = 0\<rparr>"

definition IsSpent :: "Coin \<Rightarrow> bool" where
  "IsSpent c \<longleftrightarrow> nValue (coin_out c) = -1"

definition Coin_Clear :: "Coin \<Rightarrow> Coin" where
  "Coin_Clear c = c\<lparr>coin_out := CTxOut_null, coin_fCoinBase := False, coin_fCoinStake := False, coin_nHeight := 0\<rparr>"

record CCoinsCacheEntry =
  entry_coin :: Coin
  DIRTY :: bool
  FRESH :: bool

type_synonym CCoinsMap = "(COutPoint \<times> CCoinsCacheEntry) list"

datatype coins_error = OverwriteUnspent | FreshMisapplied | AssertionFailed

record 'b view_ops =
  vGetCoin :: "COutPoint \<Rightarrow> 'b \<Rightarrow> Coin option \<times> 'b"
  vGetBestBlock :: "'b \<Rightarrow> bytes \<times> 'b"
  vBatchWrite :: "CCoinsMap \<Rightarrow> bytes \<Rightarrow> 'b \<Rightarrow> coins_error + bool \<times> 'b"

section \<open>The cache\<close>

record CCoinsViewCache =
  hashBlock :: bytes
  cacheCoins :: CCoinsMap
  cachedCoinsUsage :: nat

type_synonym 'b cached = "CCoinsViewCache \<times> 'b"

definition CCoinsViewCache_new :: CCoinsViewCache where
  "CCoinsViewCache_new = \<lparr>hashBlock = uint256_null, cacheCoins = [], cachedCoinsUsage = 0\<rparr>"

definition coin_usage :: "(bytes \<Rightarrow> nat) \<Rightarrow> Coin \<Rightarrow> nat" where
  "coin_usage usage c = usage (scriptPubKey (coin_out c))"

definition FetchCoin ::
  "(bytes \<Rightarrow> nat) \<Rightarrow> 'b view_ops \<Rightarrow> COutPoint \<Rightarrow> 'b cached \<Rightarrow> CCoinsCacheEntry option \<times> 'b cached" where
  "FetchCoin usage ops outpoint s =
     (let (c, b) = s
      in case map_of (cacheCoins c) outpoint of
           Some e \<Rightarrow> (Some e, s)
         | None \<Rightarrow>
             (case vGetCoin ops outpoint b of
                (None, b1) \<Rightarrow> (None, (c, b1))
              | (Some tmp, b1) \<Rightarrow>
                  let e = \<lparr>entry_coin = tmp, DIRTY = False, FRESH = IsSpent tmp\<rparr>
                  in (Some e, (c\<lparr>cacheCoins := AList.update outpoint e (cacheCoins c),
                                 cachedCoinsUsage := cachedCoinsUsage c + coin_usage usage tmp\<rparr>, b1))))"

definition GetCoin :: "(bytes \<Rightarrow> nat) \<Rightarrow> 'b view_ops \<Rightarrow> COutPoint \<Rightarrow> 'b cached \<Rightarrow> Coin option \<times> 'b cached" where
  "GetCoin usage ops outpoint s =
     (case FetchCoin usage ops outpoint s of
        (Some e, s1) \<Rightarrow> (if IsSpent (entry_coin e) then None else Some (entry_coin e), s1)
      | (None, s1) \<Rightarrow> (None, s1))"

definition AccessCoin :: "(bytes \<Rightarrow> nat) \<Rightarrow> 'b view_ops \<Rightarrow> COutPoint \<Rightarrow> 'b cached \<Rightarrow> Coin \<times> 'b cached" where
  "AccessCoin usage ops outpoint s =
     (case FetchCoin usage ops outpoint s of
        (Some e, s1) \<Rightarrow> (entry_coin e, s1)
      | (None, s1) \<Rightarrow> (coinEmpty, s1))"

definition HaveCoin :: "(bytes \<Rightarrow> nat) \<Rightarrow> 'b view_ops \<Rightarrow> COutPoint \<Rightarrow> 'b cached \<Rightarrow> bool \<times> 'b cached" where
  "HaveCoin usage ops outpoint s =
     (case FetchCoin usage ops outpoint s of
        (Some e, s1) \<Rightarrow> (\<not> IsSpent (entry_coin e), s1)
      | (None, s1) \<Rightarrow> (False, s1))"

definition HaveCoinInCache :: "COutPoint \<Rightarrow> CCoinsViewCache \<Rightarrow> bool" where
  "HaveCoinInCache outpoint c =
     (case map_of (cacheCoins c) outpoint of Some e \<Rightarrow> \<not> IsSpent (entry_coin e) | None \<Rightarrow> False)"

definition AddCoin ::
  "(bytes \<Rightarrow> nat) \<Rightarrow> COutPoint \<Rightarrow> Coin \<Rightarrow> bool \<Rightarrow> CCoinsViewCache \<Rightarrow> coins_error + CCoinsViewCache" where
  "AddCoin usage outpoint coin possible_overwrite c =
     (if IsSpent coin then Inl AssertionFailed
      else if IsUnspendable (scriptPubKey (coin_out coin)) then Inr c
      else
        let it = map_of (cacheCoins c) outpoint;
            e = (case it of Some e \<Rightarrow> e | None \<Rightarrow> \<lparr>entry_coin = coinEmpty, DIRTY = False, FRESH = False\<rparr>);
            u = (case it of Some e \<Rightarrow> cachedCoinsUsage c - coin_usage usage (entry_coin e) | None \<Rightarrow> cachedCoinsUsage c)
        in if \<not> possible_overwrite \<and> \<not> IsSpent (entry_coin e) then Inl OverwriteUnspent
           else
             let fresh = (\<not> possible_overwrite \<and> \<not> DIRTY e);
                 e1 = \<lparr>entry_coin = coin, DIRTY = True, FRESH = FRESH e \<or> fresh\<rparr>
             in Inr (c\<lparr>cacheCoins := AList.update outpoint e1 (cacheCoins c),
                      cachedCoinsUsage := u + coin_usage usage coin\<rparr>))"

text \<open>\<open>SpendCoin\<close> returns whether an entry was found and the coin that was moved out of it.\<close>

definition SpendCoin ::
  "(bytes \<Rightarrow> nat) \<Rightarrow> 'b view_ops \<Rightarrow> COutPoint \<Rightarrow> 'b cached \<Rightarrow> Coin option \<times> 'b cached" where
  "SpendCoin usage ops outpoint s =
     (case FetchCoin usage ops outpoint s of
        (None, s1) \<Rightarrow> (None, s1)
      | (Some e, (c, b)) \<Rightarrow>
          (Some (entry_coin e),
           (c\<lparr>cachedCoinsUsage := cachedCoinsUsage c - coin_usage usage (entry_coin e),
              cacheCoins :=
                (if FRESH e then AList.delete outpoint (cacheCoins c)
                 else AList.update outpoint (e\<lparr>DIRTY := True, entry_coin := Coin_Clear (entry_coin e)\<rparr>) (cacheCoins c))\<rparr>, b)))"

definition GetBestBlock :: "'b view_ops \<Rightarrow> 'b cached \<Rightarrow> bytes \<times> 'b cached" where
  "GetBestBlock ops s =
     (let (c, b) = s
      in if hashBlock c = uint256_null
         then (case vGetBestBlock ops b of (h, b1) \<Rightarrow> (h, (c\<lparr>hashBlock := h\<rparr>, b1)))
         else (hashBlock c, s))"

definition SetBestBlock :: "bytes \<Rightarrow> CCoinsViewCache \<Rightarrow> CCoinsViewCache" where
  "SetBestBlock h c = c\<lparr>hashBlock := h\<rparr>"

text \<open>One iteration of the loop of \<open>BatchWrite\<close>, for the child entry \<open>e\<close> of \<open>outpoint\<close>.\<close>

definition batch_write_entry ::
  "(bytes \<Rightarrow> nat) \<Rightarrow> COutPoint \<Rightarrow> CCoinsCacheEntry \<Rightarrow> CCoinsViewCache \<Rightarrow> coins_error + CCoinsViewCache" where
  "batch_write_entry usage outpoint e c =
     (if \<not> DIRTY e then Inr c
      else case map_of (cacheCoins c) outpoint of
        None \<Rightarrow>
          if \<not> (FRESH e \<and> IsSpent (entry_coin e))
          then Inr (c\<lparr>cacheCoins := AList.update outpoint \<lparr>entry_coin = entry_coin e, DIRTY = True, FRESH = FRESH e\<rparr> (cacheCoins c),
                     cachedCoinsUsage := cachedCoinsUsage c + coin_usage usage (entry_coin e)\<rparr>)
          else Inr c
      | Some itUs \<Rightarrow>
          if FRESH e \<and> \<not> IsSpent (entry_coin itUs) then Inl FreshMisapplied
          else if FRESH itUs \<and> IsSpent (entry_coin e)
          then Inr (c\<lparr>cacheCoins := AList.delete outpoint (cacheCoins c),
                     cachedCoinsUsage := cachedCoinsUsage c - coin_usage usage (entry_coin itUs)\<rparr>)
          else Inr (c\<lparr>cacheCoins := AList.update outpoint (itUs\<lparr>entry_coin := entry_coin e, DIRTY := True\<rparr>) (cacheCoins c),
                     cachedCoinsUsage := cachedCoinsUsage c - coin_usage usage (entry_coin itUs) + coin_usage usage (entry_coin e)\<rparr>))"

fun batch_write_loop ::
  "(bytes \<Rightarrow> nat) \<Rightarrow> CCoinsMap \<Rightarrow> CCoinsViewCache \<Rightarrow> coins_error + CCoinsViewCache" where
  "batch_write_loop usage [] c = Inr c"
| "batch_write_loop usage ((outpoint, e) # m) c = bindE (batch_write_entry usage outpoint e c) (batch_write_loop usage m)"

definition BatchWrite ::
  "(bytes \<Rightarrow> nat) \<Rightarrow> CCoinsMap \<Rightarrow> bytes \<Rightarrow> CCoinsViewCache \<Rightarrow> coins_error + bool \<times> CCoinsViewCache" where
  "BatchWrite usage mapCoins hashBlockIn c =
     bindE (batch_write_loop usage mapCoins c) (\<lambda>c1. Inr (True, c1\<lparr>hashBlock := hashBlockIn\<rparr>))"

definition Flush :: "'b view_ops \<Rightarrow> 'b cached \<Rightarrow> coins_error + bool \<times> 'b cached" where
  "Flush ops s =
     (let (c, b) = s
      in bindE (vBatchWrite ops (cacheCoins c) (hashBlock c) b)
           (\<lambda>(fOk, b1). Inr (fOk, (c\<lparr>cacheCoins := [], cachedCoinsUsage := 0\<rparr>, b1))))"

definition Uncache :: "(bytes \<Rightarrow> nat) \<Rightarrow> COutPoint \<Rightarrow> CCoinsViewCache \<Rightarrow> CCoinsViewCache" where
  "Uncache usage outpoint c =
     (case map_of (cacheCoins c) outpoint of
        Some e \<Rightarrow>
          if \<not> DIRTY e \<and> \<not> FRESH e
          then c\<lparr>cacheCoins := AList.delete outpoint (cacheCoins c),
                 cachedCoinsUsage := cachedCoinsUsage c - coin_usage usage (entry_coin e)\<rparr>
          else c
      | None \<Rightarrow> c)"

definition GetCacheSize :: "CCoinsViewCache \<Rightarrow> nat" where
  "GetCacheSize c = length (cacheCoins c)"

text \<open>A cache over a view is a view.\<close>

definition CCoinsViewCache_ops :: "(bytes \<Rightarrow> nat) \<Rightarrow> 'b view_ops \<Rightarrow> 'b cached view_ops" where
  "CCoinsViewCache_ops usage ops =
     \<lparr>vGetCoin = GetCoin usage ops,
      vGetBestBlock = GetBestBlock ops,
      vBatchWrite = (\<lambda>m h (c, b). bindE (BatchWrite usage m h c) (\<lambda>(r, c1). Inr (r, (c1, b))))\<rparr>"

section \<open>Transactions and the cache\<close>

text \<open>\<open>AddCoins\<close>: the loop over the outputs of a transaction.\<close>

fun add_coins_loop ::
  "(bytes \<Rightarrow> nat) \<Rightarrow> 'b view_ops \<Rightarrow> bytes \<Rightarrow> bool \<Rightarrow> bool \<Rightarrow> nat \<Rightarrow> bool \<Rightarrow> nat \<Rightarrow> CTxOut list \<Rightarrow>
   'b cached \<Rightarrow> coins_error + 'b cached" where
  "add_coins_loop usage ops txid fCoinbase fCoinstake height chk i [] s = Inr s"
| "add_coins_loop usage ops txid fCoinbase fCoinstake height chk i (o' # outs) s =
     (let p = \<lparr>op_hash = txid, op_n = of_nat i\<rparr>;
          (overwrite, s1) = (if chk then HaveCoin usage ops p s else (fCoinbase, s));
          coin = \<lparr>coin_out = o', coin_fCoinBase = fCoinbase, coin_fCoinStake = fCoinstake, coin_nHeight = height\<rparr>
      in bindE (AddCoin usage p coin overwrite (fst s1))
           (\<lambda>c. add_coins_loop usage ops txid fCoinbase fCoinstake height chk (i + 1) outs (c, snd s1)))"

definition AddCoins ::
  "(bytes \<Rightarrow> nat) \<Rightarrow> 'b view_ops \<Rightarrow> CTransaction \<Rightarrow> nat \<Rightarrow> bool \<Rightarrow> 'b cached \<Rightarrow> coins_error + 'b cached" where
  "AddCoins usage ops tx height check_for_overwrite s =
     add_coins_loop usage ops (GetHash tx) (IsCoinBase tx) (IsCoinStake tx) height check_for_overwrite 0 (vout tx) s"

fun value_in_loop ::
  "(bytes \<Rightarrow> nat) \<Rightarrow> 'b view_ops \<Rightarrow> CTxIn list \<Rightarrow> CAmount \<Rightarrow> 'b cached \<Rightarrow> CAmount \<times> 'b cached" where
  "value_in_loop usage ops [] nResult s = (nResult, s)"
| "value_in_loop usage ops (i # ins) nResult s =
     (case AccessCoin usage ops (prevout i) s of
        (coin, s1) \<Rightarrow> value_in_loop usage ops ins (nResult + nValue (coin_out coin)) s1)"

definition GetValueIn :: "(bytes \<Rightarrow> nat) \<Rightarrow> 'b view_ops \<Rightarrow> CTransaction \<Rightarrow> 'b cached \<Rightarrow> CAmount \<times> 'b cached" where
  "GetValueIn usage ops tx s = (if IsCoinBase tx then (0, s) else value_in_loop usage ops (vin tx) 0 s)"

fun have_inputs_loop ::
  "(bytes \<Rightarrow> nat) \<Rightarrow> 'b view_ops \<Rightarrow> CTxIn list \<Rightarrow> 'b cached \<Rightarrow> bool \<times> 'b cached" where
  "have_inputs_loop usage ops [] s = (True, s)"
| "have_inputs_loop usage ops (i # ins) s =
     (case HaveCoin usage ops (prevout i) s of
        (False, s1) \<Rightarrow> (False, s1)
      | (True, s1) \<Rightarrow> have_inputs_loop usage ops ins s1)"

definition HaveInputs :: "(bytes \<Rightarrow> nat) \<Rightarrow> 'b view_ops \<Rightarrow> CTransaction \<Rightarrow> 'b cached \<Rightarrow> bool \<times> 'b cached" where
  "HaveInputs usage ops tx s = (if IsCoinBase tx then (True, s) else have_inputs_loop usage ops (vin tx) s)"

text \<open>
  \<open>AccessByTxid\<close>: scan the outputs of a transaction for an unspent one; \<open>k\<close> is the number of
  indices left below \<open>MAX_OUTPUTS_PER_BLOCK\<close>.
\<close>

definition MAX_OUTPUTS_PER_BLOCK :: nat where
  "MAX_OUTPUTS_PER_BLOCK = 6000000 div length (ser_txout CTxOut_null)"

fun access_by_txid_loop ::
  "(bytes \<Rightarrow> nat) \<Rightarrow> 'b view_ops \<Rightarrow> bytes \<Rightarrow> nat \<Rightarrow> nat \<Rightarrow> 'b cached \<Rightarrow> Coin \<times> 'b cached" where
  "access_by_txid_loop usage ops txid n 0 s = (coinEmpty, s)"
| "access_by_txid_loop usage ops txid n (Suc k) s =
     (case AccessCoin usage ops \<lparr>op_hash = txid, op_n = of_nat n\<rparr> s of
        (alternate, s1) \<Rightarrow>
          if \<not> IsSpent alternate then (alternate, s1) else access_by_txid_loop usage ops txid (n + 1) k s1)"

definition AccessByTxid :: "(bytes \<Rightarrow> nat) \<Rightarrow> 'b view_ops \<Rightarrow> bytes \<Rightarrow> 'b cached \<Rightarrow> Coin \<times> 'b cached" where
  "AccessByTxid usage ops txid s = access_by_txid_loop usage ops txid 0 MAX_OUTPUTS_PER_BLOCK s"

section \<open>The database\<close>

record CCoinsViewDB =
  db_coins :: "COutPoint \<Rightarrow> Coin option"
  db_best_block :: "bytes option"
  db_head_blocks :: "bytes list"

datatype db_op =
    EraseCoin COutPoint
  | WriteCoin COutPoint Coin
  | EraseBestBlock
  | WriteBestBlock bytes
  | EraseHeadBlocks
  | WriteHeadBlocks "bytes list"

text \<open>The database holds the coins themselves; that writing them to bytes and reading them back loses nothing is shown in \<open>Compressor\<close>.\<close>

primrec db_apply :: "db_op \<Rightarrow> CCoinsViewDB \<Rightarrow> CCoinsViewDB" where
  "db_apply (EraseCoin p) d = d\<lparr>db_coins := (db_coins d)(p := None)\<rparr>"
| "db_apply (WriteCoin p c) d = d\<lparr>db_coins := (db_coins d)(p := Some c)\<rparr>"
| "db_apply EraseBestBlock d = d\<lparr>db_best_block := None\<rparr>"
| "db_apply (WriteBestBlock h) d = d\<lparr>db_best_block := Some h\<rparr>"
| "db_apply EraseHeadBlocks d = d\<lparr>db_head_blocks := []\<rparr>"
| "db_apply (WriteHeadBlocks heads) d = d\<lparr>db_head_blocks := heads\<rparr>"

definition WriteBatch :: "db_op list \<Rightarrow> CCoinsViewDB \<Rightarrow> CCoinsViewDB" where
  "WriteBatch batch d = foldl (\<lambda>d op. db_apply op d) d batch"

definition DB_GetBestBlock :: "CCoinsViewDB \<Rightarrow> bytes" where
  "DB_GetBestBlock d = (case db_best_block d of None \<Rightarrow> uint256_null | Some h \<Rightarrow> h)"

text \<open>
  The loop of \<open>CCoinsViewDB::BatchWrite\<close> as the list of batches it writes; \<open>full\<close> is the test whether the size
  estimate of the pending batch exceeds \<open>-dbbatchsize\<close>.
\<close>

fun db_batches :: "(db_op list \<Rightarrow> bool) \<Rightarrow> bytes \<Rightarrow> db_op list \<Rightarrow> CCoinsMap \<Rightarrow> db_op list list" where
  "db_batches full h batch [] = [batch @ [EraseHeadBlocks, WriteBestBlock h]]"
| "db_batches full h batch ((p, e) # m) =
     (let batch1 = batch @ (if DIRTY e then
                              (if IsSpent (entry_coin e) then [EraseCoin p] else [WriteCoin p (entry_coin e)])
                            else [])
      in if full batch1 then batch1 # db_batches full h [] m else db_batches full h batch1 m)"

definition DB_write_batches ::
  "(db_op list \<Rightarrow> bool) \<Rightarrow> CCoinsMap \<Rightarrow> bytes \<Rightarrow> CCoinsViewDB \<Rightarrow> coins_error + db_op list list" where
  "DB_write_batches full m h d =
     (if h = uint256_null then Inl AssertionFailed
      else
        let old_tip = DB_GetBestBlock d; old_heads = db_head_blocks d
        in if old_tip = uint256_null \<and> length old_heads = 2 \<and> old_heads ! 0 \<noteq> h then Inl AssertionFailed
           else
             let old = (if old_tip = uint256_null \<and> length old_heads = 2 then old_heads ! 1 else old_tip)
             in Inr (db_batches full h [EraseBestBlock, WriteHeadBlocks [h, old]] m))"

definition DB_BatchWrite ::
  "(db_op list \<Rightarrow> bool) \<Rightarrow> CCoinsMap \<Rightarrow> bytes \<Rightarrow> CCoinsViewDB \<Rightarrow> coins_error + bool \<times> CCoinsViewDB" where
  "DB_BatchWrite full m h d =
     bindE (DB_write_batches full m h d) (\<lambda>bs. Inr (True, foldl (\<lambda>d b. WriteBatch b d) d bs))"

definition CCoinsViewDB_ops :: "(db_op list \<Rightarrow> bool) \<Rightarrow> CCoinsViewDB view_ops" where
  "CCoinsViewDB_ops full =
     \<lparr>vGetCoin = (\<lambda>p d. (db_coins d p, d)),
      vGetBestBlock = (\<lambda>d. (DB_GetBestBlock d, d)),
      vBatchWrite = DB_BatchWrite full\<rparr>"

section \<open>The contract of a view\<close>

text \<open>
  Abstractly a view is the map of the unspent coins. \<open>batch_view\<close> is what writing a child cache must do to that
  map; \<open>fresh_ok\<close> is what the child owes: a coin marked fresh does not exist below.
\<close>

definition batch_view :: "CCoinsMap \<Rightarrow> (COutPoint \<Rightarrow> Coin option) \<Rightarrow> COutPoint \<Rightarrow> Coin option" where
  "batch_view m v p =
     (case map_of m p of
        Some e \<Rightarrow> if DIRTY e then (if IsSpent (entry_coin e) then None else Some (entry_coin e)) else v p
      | None \<Rightarrow> v p)"

definition fresh_ok :: "CCoinsMap \<Rightarrow> (COutPoint \<Rightarrow> Coin option) \<Rightarrow> bool" where
  "fresh_ok m v \<longleftrightarrow> (\<forall>p e. map_of m p = Some e \<longrightarrow> DIRTY e \<longrightarrow> FRESH e \<longrightarrow> v p = None)"

locale coins_view =
  fixes ops :: "'b view_ops"
    and view :: "'b \<Rightarrow> COutPoint \<Rightarrow> Coin option"
    and vinv :: "'b \<Rightarrow> bool"
  assumes get_coin: "vinv b \<Longrightarrow> vGetCoin ops p b = (r, b') \<Longrightarrow> r = view b p \<and> view b' = view b \<and> vinv b'"
    and view_unspent: "vinv b \<Longrightarrow> view b p = Some coin \<Longrightarrow> \<not> IsSpent coin"
    and best_block: "vinv b \<Longrightarrow> vGetBestBlock ops b = (h, b') \<Longrightarrow> view b' = view b \<and> vinv b'"
    and batch_write: "vinv b \<Longrightarrow> distinct (map fst m) \<Longrightarrow> fresh_ok m (view b) \<Longrightarrow> h \<noteq> uint256_null \<Longrightarrow>
      \<exists>b'. vBatchWrite ops m h b = Inr (True, b') \<and> view b' = batch_view m (view b) \<and> vinv b'"

text \<open>
  The abstraction of a cache over the map \<open>v\<close> of the view below, and its invariant: an entry that is not dirty agrees
  with the view below, a fresh entry is unspent and dirty and its coin does not exist below, and the memory counter is
  the sum over the entries.
\<close>

definition entry_view :: "CCoinsCacheEntry \<Rightarrow> Coin option" where
  "entry_view e = (if IsSpent (entry_coin e) then None else Some (entry_coin e))"

definition cache_view :: "CCoinsMap \<Rightarrow> (COutPoint \<Rightarrow> Coin option) \<Rightarrow> COutPoint \<Rightarrow> Coin option" where
  "cache_view m v p = (case map_of m p of Some e \<Rightarrow> entry_view e | None \<Rightarrow> v p)"

definition entry_ok :: "Coin option \<Rightarrow> CCoinsCacheEntry \<Rightarrow> bool" where
  "entry_ok below e \<longleftrightarrow>
     (\<not> DIRTY e \<longrightarrow> \<not> IsSpent (entry_coin e) \<and> below = Some (entry_coin e)) \<and>
     (FRESH e \<longrightarrow> DIRTY e \<and> \<not> IsSpent (entry_coin e) \<and> below = None)"

definition map_usage :: "(bytes \<Rightarrow> nat) \<Rightarrow> CCoinsMap \<Rightarrow> nat" where
  "map_usage usage m = sum_list (map (\<lambda>(p, e). coin_usage usage (entry_coin e)) m)"

definition cache_ok :: "(bytes \<Rightarrow> nat) \<Rightarrow> (COutPoint \<Rightarrow> Coin option) \<Rightarrow> CCoinsViewCache \<Rightarrow> bool" where
  "cache_ok usage v c \<longleftrightarrow>
     distinct (map fst (cacheCoins c)) \<and>
     (\<forall>p e. map_of (cacheCoins c) p = Some e \<longrightarrow> entry_ok (v p) e) \<and>
     cachedCoinsUsage c = map_usage usage (cacheCoins c)"

lemma map_usage_update:
  "distinct (map fst m) \<Longrightarrow>
     map_usage usage (AList.update p e m) + (case map_of m p of Some e0 \<Rightarrow> coin_usage usage (entry_coin e0) | None \<Rightarrow> 0)
       = map_usage usage m + coin_usage usage (entry_coin e)"
  by (induction m) (auto simp: map_usage_def)

lemma map_usage_delete:
  "distinct (map fst m) \<Longrightarrow>
     map_usage usage (AList.delete p m) + (case map_of m p of Some e0 \<Rightarrow> coin_usage usage (entry_coin e0) | None \<Rightarrow> 0)
       = map_usage usage m"
proof (induction m)
  case (Cons a m)
  show ?case
  proof (cases "fst a = p")
    case True
    then have "map_of m p = None" using Cons.prems by (auto simp: map_of_eq_None_iff)
    with True Cons show ?thesis by (cases a) (auto simp: map_usage_def)
  qed (use Cons in \<open>cases a; auto simp: map_usage_def\<close>)
qed (simp add: map_usage_def)

lemma map_usage_ge: "map_of m p = Some e \<Longrightarrow> coin_usage usage (entry_coin e) \<le> map_usage usage m"
  by (induction m) (auto simp: map_usage_def split: if_splits)

lemma distinct_map_fst_update: "distinct (map fst m) \<Longrightarrow> distinct (map fst (AList.update p e m))"
  by (rule distinct_update)

text \<open>Replacing, adding and removing an entry keeps the invariant when the new entry is fine.\<close>

lemma cache_ok_update:
  assumes "cache_ok usage v c" "entry_ok (v p) e"
    and "u = cachedCoinsUsage c - (case map_of (cacheCoins c) p of Some e0 \<Rightarrow> coin_usage usage (entry_coin e0) | None \<Rightarrow> 0)
        + coin_usage usage (entry_coin e)"
  shows "cache_ok usage v (c\<lparr>cacheCoins := AList.update p e (cacheCoins c), cachedCoinsUsage := u\<rparr>)"
proof -
  have d: "distinct (map fst (cacheCoins c))" using assms(1) by (simp add: cache_ok_def)
  have "u = map_usage usage (AList.update p e (cacheCoins c))"
    using map_usage_update [OF d, of usage p e] map_usage_ge [of "cacheCoins c" p _ usage] assms(1,3)
    by (auto simp: cache_ok_def split: option.splits)
  with assms(1,2) d show ?thesis
    by (auto simp: cache_ok_def update_conv' distinct_update)
qed

lemma cache_ok_delete:
  assumes "cache_ok usage v c"
    and "u = cachedCoinsUsage c - (case map_of (cacheCoins c) p of Some e0 \<Rightarrow> coin_usage usage (entry_coin e0) | None \<Rightarrow> 0)"
  shows "cache_ok usage v (c\<lparr>cacheCoins := AList.delete p (cacheCoins c), cachedCoinsUsage := u\<rparr>)"
proof -
  have d: "distinct (map fst (cacheCoins c))" using assms(1) by (simp add: cache_ok_def)
  have "u = map_usage usage (AList.delete p (cacheCoins c))"
    using map_usage_delete [OF d, of usage p] assms by (auto simp: cache_ok_def split: option.splits)
  with assms(1) d show ?thesis
    by (auto simp: cache_ok_def delete_conv' distinct_delete)
qed

lemma cache_view_update: "cache_view (AList.update p e m) v = (cache_view m v)(p := entry_view e)"
  by (rule ext) (simp add: cache_view_def update_conv')

lemma cache_view_Nil [simp]: "cache_view [] v = v"
  by (rule ext) (simp add: cache_view_def)

lemma cache_view_delete: "cache_view (AList.delete p m) v = (cache_view m v)(p := v p)"
  by (rule ext) (simp add: cache_view_def delete_conv')

definition cached_view :: "('b \<Rightarrow> COutPoint \<Rightarrow> Coin option) \<Rightarrow> 'b cached \<Rightarrow> COutPoint \<Rightarrow> Coin option" where
  "cached_view view s = cache_view (cacheCoins (fst s)) (view (snd s))"

definition cached_inv ::
  "(bytes \<Rightarrow> nat) \<Rightarrow> ('b \<Rightarrow> COutPoint \<Rightarrow> Coin option) \<Rightarrow> ('b \<Rightarrow> bool) \<Rightarrow> 'b cached \<Rightarrow> bool" where
  "cached_inv usage view vinv s \<longleftrightarrow> vinv (snd s) \<and> cache_ok usage (view (snd s)) (fst s)"

lemma coinEmpty_spent [simp]: "IsSpent coinEmpty" "IsSpent (Coin_Clear c)"
  by (simp_all add: IsSpent_def coinEmpty_def Coin_Clear_def CTxOut_null_def)

lemma cache_ok_entry: "cache_ok usage v c \<Longrightarrow> map_of (cacheCoins c) p = Some e \<Longrightarrow> entry_ok (v p) e"
  by (simp add: cache_ok_def)

lemma cache_ok_hashBlock [simp]: "cache_ok usage v (c\<lparr>hashBlock := h\<rparr>) = cache_ok usage v c"
  by (simp add: cache_ok_def)

lemma cache_ok_empty: "cache_ok usage v (c\<lparr>cacheCoins := [], cachedCoinsUsage := 0\<rparr>)"
  by (simp add: cache_ok_def map_usage_def)

lemma AddCoin_correct:
  assumes ok: "cache_ok usage v c" and "\<not> IsSpent coin"
    and pre: "overwrite \<or> cache_view (cacheCoins c) v p = None"
  shows "\<exists>c'. AddCoin usage p coin overwrite c = Inr c' \<and> cache_ok usage v c' \<and>
    cache_view (cacheCoins c') v =
      (if IsUnspendable (scriptPubKey (coin_out coin)) then cache_view (cacheCoins c) v
       else (cache_view (cacheCoins c) v)(p := Some coin))"
proof (cases "IsUnspendable (scriptPubKey (coin_out coin))")
  case True
  with assms show ?thesis by (simp add: AddCoin_def)
next
  case False
  show ?thesis
  proof (cases "map_of (cacheCoins c) p")
    case None
    let ?e = "\<lparr>entry_coin = coin, DIRTY = True, FRESH = \<not> overwrite\<rparr>"
    have "entry_ok (v p) ?e" using pre None assms(2) by (auto simp: entry_ok_def cache_view_def)
    from cache_ok_update [OF ok this refl] None False assms(2) show ?thesis
      by (auto simp: AddCoin_def Let_def cache_view_update entry_view_def)
  next
    case (Some e0)
    let ?e = "\<lparr>entry_coin = coin, DIRTY = True, FRESH = FRESH e0 \<or> (\<not> overwrite \<and> \<not> DIRTY e0)\<rparr>"
    have e0: "entry_ok (v p) e0" using ok Some by (rule cache_ok_entry)
    have sp: "\<not> overwrite \<Longrightarrow> IsSpent (entry_coin e0)"
      using pre Some by (simp add: cache_view_def entry_view_def split: if_splits)
    then have "entry_ok (v p) ?e" using e0 assms(2) by (auto simp: entry_ok_def)
    from cache_ok_update [OF ok this refl] Some False sp assms(2) show ?thesis
      by (auto simp: AddCoin_def Let_def cache_view_update entry_view_def)
  qed
qed

lemma batch_write_entry_correct:
  assumes ok: "cache_ok usage v c" and fr: "DIRTY e \<Longrightarrow> FRESH e \<Longrightarrow> cache_view (cacheCoins c) v p = None"
  shows "\<exists>c'. batch_write_entry usage p e c = Inr c' \<and> cache_ok usage v c' \<and>
    cache_view (cacheCoins c') v =
      (if DIRTY e then (cache_view (cacheCoins c) v)(p := entry_view e) else cache_view (cacheCoins c) v)"
proof (cases "DIRTY e")
  case False
  with ok show ?thesis by (simp add: batch_write_entry_def)
next
  case True
  show ?thesis
  proof (cases "map_of (cacheCoins c) p")
    case None
    show ?thesis
    proof (cases "FRESH e \<and> IsSpent (entry_coin e)")
      case True
      with ok None fr \<open>DIRTY e\<close> show ?thesis
        by (auto simp: batch_write_entry_def cache_view_def entry_view_def fun_eq_iff)
    next
      case False
      let ?e = "\<lparr>entry_coin = entry_coin e, DIRTY = True, FRESH = FRESH e\<rparr>"
      have "entry_ok (v p) ?e" using False fr \<open>DIRTY e\<close> None by (auto simp: entry_ok_def cache_view_def)
      from cache_ok_update [OF ok this refl] None False \<open>DIRTY e\<close> show ?thesis
        by (auto simp: batch_write_entry_def cache_view_update entry_view_def)
    qed
  next
    case (Some e0)
    have e0: "entry_ok (v p) e0" using ok Some by (rule cache_ok_entry)
    have sp: "FRESH e \<Longrightarrow> IsSpent (entry_coin e0)"
      using fr True Some by (simp add: cache_view_def entry_view_def split: if_splits)
    show ?thesis
    proof (cases "FRESH e0 \<and> IsSpent (entry_coin e)")
      case True
      with e0 have "v p = None" "\<not> IsSpent (entry_coin e0)" by (auto simp: entry_ok_def)
      with True cache_ok_delete [OF ok refl, of p] Some \<open>DIRTY e\<close> sp show ?thesis
        by (auto simp: batch_write_entry_def cache_view_delete entry_view_def)
    next
      case False
      let ?e = "e0\<lparr>entry_coin := entry_coin e, DIRTY := True\<rparr>"
      have "entry_ok (v p) ?e" using False e0 by (auto simp: entry_ok_def)
      from cache_ok_update [OF ok this refl] Some False \<open>DIRTY e\<close> sp show ?thesis
        by (auto simp: batch_write_entry_def cache_view_update entry_view_def)
    qed
  qed
qed

lemma batch_write_loop_correct:
  assumes "cache_ok usage v c" "distinct (map fst m)" "fresh_ok m (cache_view (cacheCoins c) v)"
  shows "\<exists>c'. batch_write_loop usage m c = Inr c' \<and> cache_ok usage v c' \<and>
    cache_view (cacheCoins c') v = batch_view m (cache_view (cacheCoins c) v)"
  using assms
proof (induction m arbitrary: c)
  case Nil
  then show ?case by (simp add: batch_view_def fun_eq_iff)
next
  case (Cons a m)
  obtain p e where a: "a = (p, e)" by fastforce
  have "DIRTY e \<Longrightarrow> FRESH e \<Longrightarrow> cache_view (cacheCoins c) v p = None"
    using Cons.prems(3) a by (auto simp: fresh_ok_def)
  from batch_write_entry_correct [OF Cons.prems(1) this] obtain c1 where
    c1: "batch_write_entry usage p e c = Inr c1" "cache_ok usage v c1"
      "cache_view (cacheCoins c1) v =
        (if DIRTY e then (cache_view (cacheCoins c) v)(p := entry_view e) else cache_view (cacheCoins c) v)" by blast
  have p: "p \<notin> fst ` set m" "map_of m p = None" "distinct (map fst m)"
    using Cons.prems(2) a by (auto simp: map_of_eq_None_iff)
  have "fresh_ok m (cache_view (cacheCoins c1) v)"
    using Cons.prems(3) p a unfolding c1(3) by (auto simp: fresh_ok_def split: if_splits)
  from Cons.IH [OF c1(2) p(3) this] obtain c' where
    "batch_write_loop usage m c1 = Inr c'" "cache_ok usage v c'"
    "cache_view (cacheCoins c') v = batch_view m (cache_view (cacheCoins c1) v)" by blast
  moreover have "batch_view m (cache_view (cacheCoins c1) v) = batch_view (a # m) (cache_view (cacheCoins c) v)"
    using p(2) a unfolding c1(3) by (auto simp: fun_eq_iff batch_view_def entry_view_def split: option.splits)
  ultimately show ?case using c1(1) a by simp
qed

context coins_view
begin

lemma FetchCoin_correct:
  assumes "cached_inv usage view vinv s" "FetchCoin usage ops p s = (r, s')"
  shows "cached_inv usage view vinv s' \<and> cached_view view s' = cached_view view s \<and>
    map_of (cacheCoins (fst s')) p = r \<and> cached_view view s p = (case r of None \<Rightarrow> None | Some e \<Rightarrow> entry_view e)"
proof -
  obtain c b where s: "s = (c, b)" by fastforce
  have b: "vinv b" and ok: "cache_ok usage (view b) c" using assms(1) by (simp_all add: s cached_inv_def)
  show ?thesis
  proof (cases "map_of (cacheCoins c) p")
    case (Some e)
    with assms(2) have "r = Some e" "s' = s" by (simp_all add: s FetchCoin_def)
    with assms(1) Some show ?thesis by (simp add: s cached_view_def cache_view_def)
  next
    case None
    obtain r0 b1 where g: "vGetCoin ops p b = (r0, b1)" by fastforce
    from get_coin [OF b g] have r0: "r0 = view b p" "view b1 = view b" "vinv b1" by auto
    show ?thesis
    proof (cases r0)
      case None
      with \<open>map_of (cacheCoins c) p = None\<close> assms g r0 ok show ?thesis
        by (auto simp: s FetchCoin_def cached_view_def cache_view_def cached_inv_def)
    next
      case (Some coin)
      have u: "\<not> IsSpent coin" using view_unspent [OF b, of p coin] r0(1) Some by simp
      let ?e = "\<lparr>entry_coin = coin, DIRTY = False, FRESH = IsSpent coin\<rparr>"
      have "entry_ok (view b p) ?e" using u r0(1) Some by (simp add: entry_ok_def)
      note upd = cache_ok_update [OF ok this refl]
      have e: "entry_view ?e = cache_view (cacheCoins c) (view b) p"
        using \<open>map_of (cacheCoins c) p = None\<close> u r0(1) Some by (simp add: entry_view_def cache_view_def)
      then have "cache_view (AList.update p ?e (cacheCoins c)) (view b) = cache_view (cacheCoins c) (view b)"
        by (simp only: cache_view_update fun_upd_triv)
      with upd e \<open>map_of (cacheCoins c) p = None\<close> assms(2) g Some r0(2,3) show ?thesis
        by (auto simp: s FetchCoin_def Let_def cached_view_def cached_inv_def update_conv')
    qed
  qed
qed

lemma GetCoin_correct:
  assumes "cached_inv usage view vinv s" "GetCoin usage ops p s = (r, s')"
  shows "r = cached_view view s p \<and> cached_view view s' = cached_view view s \<and> cached_inv usage view vinv s'"
  using assms FetchCoin_correct [OF assms(1)]
  by (auto simp: GetCoin_def entry_view_def split: prod.splits option.splits)

lemma AccessCoin_correct:
  assumes "cached_inv usage view vinv s" "AccessCoin usage ops p s = (coin, s')"
  shows "cached_view view s' = cached_view view s \<and> cached_inv usage view vinv s' \<and>
    (if IsSpent coin then cached_view view s p = None else cached_view view s p = Some coin)"
  using assms FetchCoin_correct [OF assms(1)]
  by (auto simp: AccessCoin_def entry_view_def split: prod.splits option.splits)

lemma HaveCoin_correct:
  assumes "cached_inv usage view vinv s" "HaveCoin usage ops p s = (r, s')"
  shows "r = (cached_view view s p \<noteq> None) \<and> cached_view view s' = cached_view view s \<and> cached_inv usage view vinv s'"
  using assms FetchCoin_correct [OF assms(1)]
  by (auto simp: HaveCoin_def entry_view_def split: prod.splits option.splits)

lemma SpendCoin_correct:
  assumes inv: "cached_inv usage view vinv s" and us: "usage [] = 0" and sp: "SpendCoin usage ops p s = (r, s')"
  shows "cached_inv usage view vinv s' \<and> cached_view view s' = (cached_view view s)(p := None) \<and>
    (\<forall>coin. cached_view view s p = Some coin \<longrightarrow> r = Some coin) \<and>
    (\<forall>coin. r = Some coin \<longrightarrow> \<not> IsSpent coin \<longrightarrow> cached_view view s p = Some coin)"
proof -
  obtain re c b where f: "FetchCoin usage ops p s = (re, (c, b))" by (metis prod_cases3)
  note fc = FetchCoin_correct [OF inv f]
  show ?thesis
  proof (cases re)
    case None
    with fc sp f show ?thesis by (auto simp: SpendCoin_def fun_eq_iff)
  next
    case (Some e)
    have ok: "cache_ok usage (view b) c" and b: "vinv b" and m: "map_of (cacheCoins c) p = Some e"
      and v: "cached_view view s = cache_view (cacheCoins c) (view b)"
      using fc Some by (auto simp: cached_inv_def cached_view_def)
    have e: "entry_ok (view b p) e" using ok m by (rule cache_ok_entry)
    let ?u = "cachedCoinsUsage c - coin_usage usage (entry_coin e)"
    let ?e = "e\<lparr>DIRTY := True, entry_coin := Coin_Clear (entry_coin e)\<rparr>"
    let ?m = "if FRESH e then AList.delete p (cacheCoins c) else AList.update p ?e (cacheCoins c)"
    have s': "s' = (c\<lparr>cacheCoins := ?m, cachedCoinsUsage := ?u\<rparr>, b)" "r = Some (entry_coin e)"
      using sp f Some by (auto simp: SpendCoin_def)
    have "coin_usage usage (Coin_Clear (entry_coin e)) = 0"
      by (simp add: coin_usage_def Coin_Clear_def CTxOut_null_def us)
    then have "cache_ok usage (view b) (c\<lparr>cacheCoins := ?m, cachedCoinsUsage := ?u\<rparr>)"
      using cache_ok_update [OF ok, of p ?e ?u] cache_ok_delete [OF ok, of ?u p] m by (auto simp: entry_ok_def)
    moreover have "cache_view ?m (view b) = (cache_view (cacheCoins c) (view b))(p := None)"
      using e by (auto simp: cache_view_update cache_view_delete entry_view_def entry_ok_def)
    moreover have "cached_view view s p = entry_view e" using fc Some by simp
    ultimately show ?thesis
      using s' v b by (auto simp: cached_inv_def cached_view_def entry_view_def split: if_splits)
  qed
qed

lemma Uncache_correct:
  assumes "cached_inv usage view vinv (c, b)"
  shows "cached_inv usage view vinv (Uncache usage p c, b) \<and>
    cached_view view (Uncache usage p c, b) = cached_view view (c, b)"
proof (cases "map_of (cacheCoins c) p")
  case None
  with assms show ?thesis by (simp add: Uncache_def)
next
  case (Some e)
  have ok: "cache_ok usage (view b) c" using assms by (simp add: cached_inv_def)
  have "entry_ok (view b p) e" using ok Some by (rule cache_ok_entry)
  with cache_ok_delete [OF ok refl, of p] Some assms show ?thesis
    by (auto simp: Uncache_def cached_inv_def cached_view_def cache_view_def entry_ok_def delete_conv'
        entry_view_def fun_eq_iff)
qed

lemma GetBestBlock_correct:
  assumes "cached_inv usage view vinv s" "GetBestBlock ops s = (h, s')"
  shows "cached_view view s' = cached_view view s \<and> cached_inv usage view vinv s'"
proof -
  obtain c b where s: "s = (c, b)" by fastforce
  obtain h0 b1 where g: "vGetBestBlock ops b = (h0, b1)" by fastforce
  with best_block [of b h0 b1] assms show ?thesis
    by (auto simp: s GetBestBlock_def cached_inv_def cached_view_def split: if_splits)
qed

lemma Flush_correct:
  assumes inv: "cached_inv usage view vinv (c, b)" and h: "hashBlock c \<noteq> uint256_null"
  shows "\<exists>b'. Flush ops (c, b) = Inr (True, (c\<lparr>cacheCoins := [], cachedCoinsUsage := 0\<rparr>, b')) \<and>
    view b' = cached_view view (c, b) \<and> cached_inv usage view vinv (c\<lparr>cacheCoins := [], cachedCoinsUsage := 0\<rparr>, b')"
proof -
  have b: "vinv b" and ok: "cache_ok usage (view b) c" using inv by (simp_all add: cached_inv_def)
  have fr: "fresh_ok (cacheCoins c) (view b)" and d: "distinct (map fst (cacheCoins c))"
    using ok by (auto simp: fresh_ok_def cache_ok_def entry_ok_def)
  have "batch_view (cacheCoins c) (view b) = cached_view view (c, b)"
    using cache_ok_entry [OF ok]
    by (auto simp: fun_eq_iff batch_view_def cached_view_def cache_view_def entry_view_def entry_ok_def split: option.splits)
  with batch_write [OF b d fr h] show ?thesis
    by (auto simp: Flush_def cached_inv_def cache_ok_empty)
qed

text \<open>A cache over a view that keeps the contract keeps the contract.\<close>

lemma cache_is_view:
  "coins_view (CCoinsViewCache_ops usage ops) (cached_view view) (cached_inv usage view vinv)"
proof
  fix s p coin
  assume "cached_inv usage view vinv s" "cached_view view s p = Some coin"
  then show "\<not> IsSpent coin"
    using view_unspent [of "snd s" p coin]
    by (auto simp: cached_view_def cache_view_def entry_view_def cached_inv_def split: option.splits if_splits)
next
  fix s and m :: CCoinsMap and h :: bytes
  assume a: "cached_inv usage view vinv s" "distinct (map fst m)" "fresh_ok m (cached_view view s)"
  obtain c b where s: "s = (c, b)" by fastforce
  from a have "cache_ok usage (view b) c" "fresh_ok m (cache_view (cacheCoins c) (view b))"
    by (simp_all add: s cached_inv_def cached_view_def)
  from batch_write_loop_correct [OF this(1) a(2) this(2)] a(1)
  show "\<exists>s'. vBatchWrite (CCoinsViewCache_ops usage ops) m h s = Inr (True, s') \<and>
      cached_view view s' = batch_view m (cached_view view s) \<and> cached_inv usage view vinv s'"
    by (auto simp: s CCoinsViewCache_ops_def BatchWrite_def cached_inv_def cached_view_def)
qed (auto simp: CCoinsViewCache_ops_def dest: GetCoin_correct GetBestBlock_correct)

end

section \<open>The database keeps the contract\<close>

definition coin_ops :: "COutPoint \<times> CCoinsCacheEntry \<Rightarrow> db_op list" where
  "coin_ops pe =
     (if DIRTY (snd pe)
      then (if IsSpent (entry_coin (snd pe)) then [EraseCoin (fst pe)] else [WriteCoin (fst pe) (entry_coin (snd pe))])
      else [])"

definition write_all :: "db_op list list \<Rightarrow> CCoinsViewDB \<Rightarrow> CCoinsViewDB" where
  "write_all bs d = foldl (\<lambda>d b. WriteBatch b d) d bs"

lemma write_all_concat: "write_all bs d = WriteBatch (concat bs) d"
  by (induction bs arbitrary: d) (simp_all add: write_all_def WriteBatch_def)

lemma WriteBatch_append: "WriteBatch (xs @ ys) d = WriteBatch ys (WriteBatch xs d)"
  by (simp add: WriteBatch_def)

lemma db_batches_Cons:
  "db_batches full h batch (pe # m) =
     (if full (batch @ coin_ops pe) then (batch @ coin_ops pe) # db_batches full h [] m
      else db_batches full h (batch @ coin_ops pe) m)"
  by (cases pe) (simp add: coin_ops_def Let_def)

lemma concat_db_batches:
  "concat (db_batches full h batch m) = batch @ concat (map coin_ops m) @ [EraseHeadBlocks, WriteBestBlock h]"
  by (induction m arbitrary: batch) (simp_all add: db_batches_Cons del: db_batches.simps(2))

lemma take_db_batches:
  "0 < k \<Longrightarrow> k < length (db_batches full h batch m) \<Longrightarrow>
     \<exists>j. concat (take k (db_batches full h batch m)) = batch @ concat (map coin_ops (take j m))"
proof (induction m arbitrary: batch k)
  case (Cons pe m)
  show ?case
  proof (cases "full (batch @ coin_ops pe)")
    case False
    then obtain j where "concat (take k (db_batches full h (batch @ coin_ops pe) m))
        = (batch @ coin_ops pe) @ concat (map coin_ops (take j m))"
      using Cons.IH [of k "batch @ coin_ops pe"] Cons.prems by (auto simp: db_batches_Cons simp del: db_batches.simps(2))
    with False show ?thesis
      by (intro exI [of _ "Suc j"]) (simp add: db_batches_Cons del: db_batches.simps(2))
  next
    case True
    obtain k' where k: "k = Suc k'" using Cons.prems(1) by (cases k) auto
    have "\<exists>j. concat (take k' (db_batches full h [] m)) = concat (map coin_ops (take j m))"
    proof (cases "k' = 0")
      case True
      then show ?thesis by (intro exI [of _ 0]) simp
    next
      case False
      then show ?thesis
        using Cons.IH [of k' "[]"] Cons.prems True k by (simp add: db_batches_Cons del: db_batches.simps(2))
    qed
    then obtain j where "concat (take k' (db_batches full h [] m)) = concat (map coin_ops (take j m))" by blast
    with True k show ?thesis
      by (intro exI [of _ "Suc j"]) (simp add: db_batches_Cons del: db_batches.simps(2))
  qed
qed simp

lemma WriteBatch_coins:
  assumes "distinct (map fst m)"
  shows "WriteBatch (concat (map coin_ops m)) d = d\<lparr>db_coins := batch_view m (db_coins d)\<rparr>"
  using assms
proof (induction m arbitrary: d)
  case Nil
  have "batch_view [] (db_coins d) = db_coins d" by (simp add: batch_view_def fun_eq_iff)
  then show ?case by (simp add: WriteBatch_def)
next
  case (Cons pe m)
  obtain p e where pe: "pe = (p, e)" by fastforce
  have p: "map_of m p = None" using Cons.prems pe by (auto simp: map_of_eq_None_iff)
  define v where "v = batch_view [pe] (db_coins d)"
  have "WriteBatch (coin_ops pe) d = d\<lparr>db_coins := v\<rparr>"
    by (auto simp: v_def pe coin_ops_def WriteBatch_def batch_view_def fun_eq_iff intro!: CCoinsViewDB.equality)
  moreover have "batch_view m v = batch_view (pe # m) (db_coins d)"
    using p by (auto simp: fun_eq_iff v_def pe batch_view_def split: option.splits)
  ultimately show ?case using Cons by (simp add: WriteBatch_append)
qed

definition db_inv :: "CCoinsViewDB \<Rightarrow> bool" where
  "db_inv d \<longleftrightarrow> (\<forall>p coin. db_coins d p = Some coin \<longrightarrow> \<not> IsSpent coin) \<and> db_head_blocks d = []"

lemma DB_BatchWrite_consistent:
  assumes "distinct (map fst m)" "h \<noteq> uint256_null" "length (db_head_blocks d) = 2 \<longrightarrow> db_head_blocks d ! 0 = h"
  shows "DB_BatchWrite full m h d =
    Inr (True, \<lparr>db_coins = batch_view m (db_coins d), db_best_block = Some h, db_head_blocks = []\<rparr>)"
proof -
  define old where "old = (if DB_GetBestBlock d = uint256_null \<and> length (db_head_blocks d) = 2 then db_head_blocks d ! 1
     else DB_GetBestBlock d)"
  have "DB_write_batches full m h d = Inr (db_batches full h [EraseBestBlock, WriteHeadBlocks [h, old]] m)"
    using assms(2,3) by (auto simp: DB_write_batches_def Let_def old_def)
  moreover have "write_all (db_batches full h [EraseBestBlock, WriteHeadBlocks [h, old]] m) d
      = \<lparr>db_coins = batch_view m (db_coins d), db_best_block = Some h, db_head_blocks = []\<rparr>"
    unfolding write_all_concat concat_db_batches WriteBatch_append WriteBatch_coins [OF assms(1)]
    by (simp add: WriteBatch_def)
  ultimately show ?thesis by (simp add: DB_BatchWrite_def write_all_def)
qed

interpretation coins_db: coins_view "CCoinsViewDB_ops full" db_coins db_inv for full
proof
  fix d and m :: CCoinsMap and h :: bytes
  assume a: "db_inv d" "distinct (map fst m)" "h \<noteq> uint256_null"
  then have "DB_BatchWrite full m h d =
      Inr (True, \<lparr>db_coins = batch_view m (db_coins d), db_best_block = Some h, db_head_blocks = []\<rparr>)"
    by (intro DB_BatchWrite_consistent) (simp_all add: db_inv_def)
  moreover have "db_inv \<lparr>db_coins = batch_view m (db_coins d), db_best_block = Some h, db_head_blocks = []\<rparr>"
    using a(1) by (auto simp: db_inv_def batch_view_def split: option.splits if_splits)
  ultimately show "\<exists>d'. vBatchWrite (CCoinsViewDB_ops full) m h d = Inr (True, d') \<and>
      db_coins d' = batch_view m (db_coins d) \<and> db_inv d'"
    by (simp add: CCoinsViewDB_ops_def)
qed (auto simp: CCoinsViewDB_ops_def db_inv_def)

interpretation coins_tip: coins_view "CCoinsViewCache_ops usage (CCoinsViewDB_ops full)" "cached_view db_coins"
  "cached_inv usage db_coins db_inv" for usage full
  by (rule coins_db.cache_is_view)

section \<open>Sequences of operations\<close>

datatype coins_op =
    OpGet COutPoint
  | OpAdd COutPoint Coin bool
  | OpSpend COutPoint
  | OpUncache COutPoint
  | OpSetBestBlock bytes
  | OpGetBestBlock
  | OpFlush

primrec run_op :: "(bytes \<Rightarrow> nat) \<Rightarrow> 'b view_ops \<Rightarrow> coins_op \<Rightarrow> 'b cached \<Rightarrow> coins_error + 'b cached" where
  "run_op usage ops (OpGet p) s = Inr (snd (GetCoin usage ops p s))"
| "run_op usage ops (OpAdd p coin overwrite) s =
     bindE (AddCoin usage p coin overwrite (fst s)) (\<lambda>c. Inr (c, snd s))"
| "run_op usage ops (OpSpend p) s = Inr (snd (SpendCoin usage ops p s))"
| "run_op usage ops (OpUncache p) s = Inr (Uncache usage p (fst s), snd s)"
| "run_op usage ops (OpSetBestBlock h) s = Inr (SetBestBlock h (fst s), snd s)"
| "run_op usage ops OpGetBestBlock s = Inr (snd (GetBestBlock ops s))"
| "run_op usage ops OpFlush s = bindE (Flush ops s) (\<lambda>(_, s1). Inr s1)"

fun run_ops :: "(bytes \<Rightarrow> nat) \<Rightarrow> 'b view_ops \<Rightarrow> coins_op list \<Rightarrow> 'b cached \<Rightarrow> coins_error + 'b cached" where
  "run_ops usage ops [] s = Inr s"
| "run_ops usage ops (op # xs) s = bindE (run_op usage ops op s) (run_ops usage ops xs)"

text \<open>
  The specification: a map of unspent coins. \<open>spec_pre\<close> is what the callers owe: only unspent coins are added, a coin is
  overwritten only where that was announced.
\<close>

primrec spec_op :: "coins_op \<Rightarrow> (COutPoint \<Rightarrow> Coin option) \<Rightarrow> COutPoint \<Rightarrow> Coin option" where
  "spec_op (OpGet p) v = v"
| "spec_op (OpAdd p coin overwrite) v =
     (if IsUnspendable (scriptPubKey (coin_out coin)) then v else v(p := Some coin))"
| "spec_op (OpSpend p) v = v(p := None)"
| "spec_op (OpUncache p) v = v"
| "spec_op (OpSetBestBlock h) v = v"
| "spec_op OpGetBestBlock v = v"
| "spec_op OpFlush v = v"

primrec spec_pre :: "coins_op \<Rightarrow> (COutPoint \<Rightarrow> Coin option) \<Rightarrow> bool" where
  "spec_pre (OpGet p) v = True"
| "spec_pre (OpAdd p coin overwrite) v = (\<not> IsSpent coin \<and> (overwrite \<or> v p = None))"
| "spec_pre (OpSpend p) v = True"
| "spec_pre (OpUncache p) v = True"
| "spec_pre (OpSetBestBlock h) v = (h \<noteq> uint256_null)"
| "spec_pre OpGetBestBlock v = True"
| "spec_pre OpFlush v = True"

fun spec_run :: "coins_op list \<Rightarrow> (COutPoint \<Rightarrow> Coin option) \<Rightarrow> COutPoint \<Rightarrow> Coin option" where
  "spec_run [] v = v"
| "spec_run (op # xs) v = spec_run xs (spec_op op v)"

fun spec_ok :: "coins_op list \<Rightarrow> (COutPoint \<Rightarrow> Coin option) \<Rightarrow> bool" where
  "spec_ok [] v = True"
| "spec_ok (op # xs) v = (spec_pre op v \<and> spec_ok xs (spec_op op v))"

context coins_view
begin

lemma hashBlock_ops:
  "hashBlock (fst (snd (FetchCoin usage ops p s))) = hashBlock (fst s)"
  "hashBlock (fst (snd (GetCoin usage ops p s))) = hashBlock (fst s)"
  "hashBlock (fst (snd (SpendCoin usage ops p s))) = hashBlock (fst s)"
proof -
  show f: "hashBlock (fst (snd (FetchCoin usage ops p s))) = hashBlock (fst s)"
    by (simp add: FetchCoin_def Let_def split: prod.splits option.splits)
  obtain e c b where fc: "FetchCoin usage ops p s = (e, (c, b))" by (rule prod_cases3)
  with f show "hashBlock (fst (snd (GetCoin usage ops p s))) = hashBlock (fst s)"
    "hashBlock (fst (snd (SpendCoin usage ops p s))) = hashBlock (fst s)"
    by (cases e; simp add: GetCoin_def SpendCoin_def fc)+
qed

lemma run_op_correct:
  assumes inv: "cached_inv usage view vinv s" and "hashBlock (fst s) \<noteq> uint256_null"
    and pre: "spec_pre op (cached_view view s)" and us: "usage [] = 0"
  shows "\<exists>s'. run_op usage ops op s = Inr s' \<and> cached_inv usage view vinv s' \<and> hashBlock (fst s') \<noteq> uint256_null \<and>
    cached_view view s' = spec_op op (cached_view view s)"
proof -
  obtain c b where s: "s = (c, b)" by fastforce
  show ?thesis
  proof (cases op)
    case (OpGet p)
    obtain r s' where g: "GetCoin usage ops p s = (r, s')" by (rule prod.exhaust)
    then have "hashBlock (fst s') = hashBlock (fst s)" using hashBlock_ops(2) [of usage p s] by simp
    with GetCoin_correct [OF inv g] assms(2) OpGet g show ?thesis by simp
  next
    case (OpAdd p coin ow)
    have "cache_ok usage (view b) c" using inv by (simp add: s cached_inv_def)
    with AddCoin_correct [OF this, of coin ow p] pre OpAdd obtain c' where
      c': "AddCoin usage p coin ow c = Inr c'" "cache_ok usage (view b) c'"
        "cache_view (cacheCoins c') (view b) = spec_op op (cached_view view s)"
      by (auto simp: s cached_view_def split: if_splits)
    moreover have "hashBlock c' = hashBlock c"
      using c'(1) by (auto simp: AddCoin_def Let_def split: if_splits)
    ultimately show ?thesis using OpAdd inv assms(2) by (simp add: s cached_inv_def cached_view_def)
  next
    case (OpSpend p)
    obtain r s' where g: "SpendCoin usage ops p s = (r, s')" by (rule prod.exhaust)
    then have "hashBlock (fst s') = hashBlock (fst s)" using hashBlock_ops(3) [of usage p s] by simp
    moreover have "cached_inv usage view vinv s'" "cached_view view s' = (cached_view view s)(p := None)"
      using SpendCoin_correct [OF inv us g] by blast+
    ultimately show ?thesis using assms(2) OpSpend g by simp
  next
    case (OpUncache p)
    have "hashBlock (Uncache usage p c) = hashBlock c" by (simp add: Uncache_def split: option.splits)
    with Uncache_correct [of usage c b p] inv assms(2) OpUncache show ?thesis by (simp add: s)
  next
    case (OpSetBestBlock h)
    with inv pre show ?thesis by (simp add: s SetBestBlock_def cached_inv_def cached_view_def)
  next
    case OpGetBestBlock
    with inv assms(2) show ?thesis by (simp add: s GetBestBlock_def)
  next
    case OpFlush
    with Flush_correct [of usage c b] inv assms(2) show ?thesis
      by (auto simp: s cached_view_def cache_view_def)
  qed
qed

lemma run_ops_correct:
  assumes "cached_inv usage view vinv s" "hashBlock (fst s) \<noteq> uint256_null"
    and "spec_ok xs (cached_view view s)" "usage [] = 0"
  shows "\<exists>s'. run_ops usage ops xs s = Inr s' \<and> cached_inv usage view vinv s' \<and> hashBlock (fst s') \<noteq> uint256_null \<and>
    cached_view view s' = spec_run xs (cached_view view s)"
  using assms
proof (induction xs arbitrary: s)
  case (Cons op xs)
  from Cons.prems run_op_correct [of usage s op] obtain s1 where
    "run_op usage ops op s = Inr s1" "cached_inv usage view vinv s1" "hashBlock (fst s1) \<noteq> uint256_null"
    "cached_view view s1 = spec_op op (cached_view view s)" by auto
  with Cons.IH [of s1] Cons.prems show ?case by simp
qed simp

lemma have_inputs_loop_correct:
  assumes "cached_inv usage view vinv s" "have_inputs_loop usage ops ins s = (r, s')"
  shows "r = (\<forall>i \<in> set ins. cached_view view s (prevout i) \<noteq> None) \<and> cached_view view s' = cached_view view s \<and>
    cached_inv usage view vinv s'"
  using assms
proof (induction ins arbitrary: s)
  case (Cons i ins)
  obtain r1 s1 where h: "HaveCoin usage ops (prevout i) s = (r1, s1)" by (rule prod.exhaust)
  from HaveCoin_correct [OF Cons.prems(1) h] have
    h1: "r1 = (cached_view view s (prevout i) \<noteq> None)" "cached_view view s1 = cached_view view s"
      "cached_inv usage view vinv s1" by auto
  show ?case
  proof (cases r1)
    case True
    with Cons.prems(2) h have "have_inputs_loop usage ops ins s1 = (r, s')" by simp
    from Cons.IH [OF h1(3) this] h1 True show ?thesis by simp
  next
    case False
    with Cons.prems(2) h h1 show ?thesis by simp
  qed
qed simp

lemma HaveInputs_correct:
  assumes "cached_inv usage view vinv s" "HaveInputs usage ops tx s = (r, s')"
  shows "r = (IsCoinBase tx \<or> (\<forall>i \<in> set (vin tx). cached_view view s (prevout i) \<noteq> None)) \<and>
    cached_view view s' = cached_view view s \<and> cached_inv usage view vinv s'"
  using assms have_inputs_loop_correct [OF assms(1), of "vin tx" r s'] by (auto simp: HaveInputs_def split: if_splits)

end

section \<open>Properties\<close>

lemma new_cache_ok: "cache_ok usage v (SetBestBlock h CCoinsViewCache_new)"
  by (simp add: cache_ok_def CCoinsViewCache_new_def map_usage_def SetBestBlock_def)

text \<open>The two caches that \<open>ConnectBlock\<close> works on: the per-block cache over the tip cache over the database.\<close>

definition coins_stack :: "bytes \<Rightarrow> CCoinsViewDB \<Rightarrow> CCoinsViewDB cached cached" where
  "coins_stack h d = (SetBestBlock h CCoinsViewCache_new, (SetBestBlock h CCoinsViewCache_new, d))"

lemma coins_stack_inv:
  "db_inv d \<Longrightarrow> cached_inv usage (cached_view db_coins) (cached_inv usage db_coins db_inv) (coins_stack h d)"
  "cached_view (cached_view db_coins) (coins_stack h d) = db_coins d"
proof -
  show "db_inv d \<Longrightarrow> cached_inv usage (cached_view db_coins) (cached_inv usage db_coins db_inv) (coins_stack h d)"
    by (simp add: cached_inv_def coins_stack_def new_cache_ok)
  show "cached_view (cached_view db_coins) (coins_stack h d) = db_coins d"
    by (simp add: coins_stack_def cached_view_def SetBestBlock_def CCoinsViewCache_new_def)
qed

text \<open>
C5: The stack of coins caches refines a plain map. Every sequence of operations on the per-block cache over the tip cache over
the database, flushes included, that adds only unspent coins and overwrites only where announced runs without
exception, and afterwards \<open>GetCoin\<close> returns for every outpoint the coin that the map has after the same operations.
\<close>

theorem coins_stack_refines:
  assumes "db_inv d" "h \<noteq> uint256_null" "usage [] = 0" "spec_ok xs (db_coins d)"
  shows "\<exists>s. run_ops usage (CCoinsViewCache_ops usage (CCoinsViewDB_ops full)) xs (coins_stack h d) = Inr s \<and>
    (\<forall>p. fst (GetCoin usage (CCoinsViewCache_ops usage (CCoinsViewDB_ops full)) p s) = spec_run xs (db_coins d) p)"
proof -
  have "hashBlock (fst (coins_stack h d)) \<noteq> uint256_null" using assms(2) by (simp add: coins_stack_def SetBestBlock_def)
  from coins_tip.run_ops_correct [OF coins_stack_inv(1) [OF assms(1)] this, where xs = xs and full = full and usage = usage] assms(3,4) obtain s where
    s: "run_ops usage (CCoinsViewCache_ops usage (CCoinsViewDB_ops full)) xs (coins_stack h d) = Inr s"
      "cached_inv usage (cached_view db_coins) (cached_inv usage db_coins db_inv) s"
      "cached_view (cached_view db_coins) s = spec_run xs (db_coins d)"
    by (auto simp: coins_stack_inv(2))
  have "fst (GetCoin usage (CCoinsViewCache_ops usage (CCoinsViewDB_ops full)) p s) = spec_run xs (db_coins d) p" for p
    using coins_tip.GetCoin_correct [OF s(2), of full p]
    by (cases "GetCoin usage (CCoinsViewCache_ops usage (CCoinsViewDB_ops full)) p s") (simp add: s(3))
  with s(1) show ?thesis by blast
qed

definition sample_coin :: Coin where
  "sample_coin = \<lparr>coin_out = \<lparr>nValue = 7, scriptPubKey = [0x51]\<rparr>, coin_fCoinBase = False, coin_fCoinStake = False,
     coin_nHeight = 3\<rparr>"

definition sample_point :: COutPoint where
  "sample_point = \<lparr>op_hash = replicate 32 1, op_n = 0\<rparr>"

definition sample_db :: CCoinsViewDB where
  "sample_db = \<lparr>db_coins = (\<lambda>_. None), db_best_block = None, db_head_blocks = []\<rparr>"

definition sample_ops :: "coins_op list" where
  "sample_ops = [OpAdd sample_point sample_coin False, OpFlush, OpSpend sample_point, OpFlush,
     OpAdd sample_point sample_coin False]"

theorem coins_stack_refines_witness:
  "db_inv sample_db \<and> spec_ok sample_ops (db_coins sample_db) \<and>
   (\<exists>s. run_ops length (CCoinsViewCache_ops length (CCoinsViewDB_ops (\<lambda>b. length b > 1))) sample_ops
          (coins_stack (replicate 32 1) sample_db) = Inr s \<and>
     fst (GetCoin length (CCoinsViewCache_ops length (CCoinsViewDB_ops (\<lambda>b. length b > 1))) sample_point s) = Some sample_coin)"
proof -
  have h: "replicate 32 1 \<noteq> uint256_null" by (simp add: uint256_null_def)
  have d: "db_inv sample_db" by (simp add: db_inv_def sample_db_def)
  have ok: "spec_ok sample_ops (db_coins sample_db)" "spec_run sample_ops (db_coins sample_db) sample_point = Some sample_coin"
    by (simp_all add: sample_ops_def sample_db_def IsSpent_def sample_coin_def IsUnspendable_def MAX_SCRIPT_SIZE_def)
  show ?thesis using coins_stack_refines [OF d h, of length sample_ops] ok d by fastforce
qed

text \<open>
C8: In every state that such a sequence reaches, the flags and counters of the per-block cache are consistent: keys are unique, an
entry that is not dirty equals the coin of the cache below, a fresh entry is dirty and unspent and unknown below, and the
memory counter is the sum of the memory of the cached coins.
\<close>

theorem coins_cache_consistent:
  assumes "db_inv d" "h \<noteq> uint256_null" "usage [] = 0" "spec_ok xs (db_coins d)"
    and "run_ops usage (CCoinsViewCache_ops usage (CCoinsViewDB_ops full)) xs (coins_stack h d) = Inr (c, b)"
  shows "cache_ok usage (cached_view db_coins b) c \<and> cache_ok usage (db_coins (snd b)) (fst b) \<and> db_inv (snd b)"
proof -
  have "hashBlock (fst (coins_stack h d)) \<noteq> uint256_null" using assms(2) by (simp add: coins_stack_def SetBestBlock_def)
  from coins_tip.run_ops_correct [OF coins_stack_inv(1) [OF assms(1)] this, where xs = xs and full = full and usage = usage] assms(3,4,5)
  show ?thesis by (auto simp: coins_stack_inv(2) cached_inv_def)
qed

theorem coins_cache_consistent_witness:
  "\<exists>c b. run_ops length (CCoinsViewCache_ops length (CCoinsViewDB_ops (\<lambda>b. length b > 1))) sample_ops
          (coins_stack (replicate 32 1) sample_db) = Inr (c, b) \<and>
     cache_ok length (cached_view db_coins b) c \<and> cachedCoinsUsage c = 1"
proof -
  have h: "replicate 32 1 \<noteq> uint256_null" by (simp add: uint256_null_def)
  have d: "db_inv sample_db" by (simp add: db_inv_def sample_db_def)
  have ok: "spec_ok sample_ops (db_coins sample_db)"
    by (simp add: sample_ops_def sample_db_def IsSpent_def sample_coin_def IsUnspendable_def MAX_SCRIPT_SIZE_def)
  let ?r = "run_ops length (CCoinsViewCache_ops length (CCoinsViewDB_ops (\<lambda>b. length b > 1))) sample_ops
          (coins_stack (replicate 32 1) sample_db)"
  have r: "(case ?r of Inr (c, b) \<Rightarrow> cachedCoinsUsage c = 1 | Inl _ \<Rightarrow> False)" by code_simp
  then obtain c b where cb: "?r = Inr (c, b)" "cachedCoinsUsage c = 1"
    by (cases ?r) auto
  from coins_cache_consistent [OF d h _ ok cb(1)] cb show ?thesis by auto
qed

lemma map_of_take:
  assumes "distinct (map fst m)" "map_of (take j m) p = Some e"
  shows "map_of m p = Some e"
  using assms map_of_SomeD [OF assms(2)] by (auto dest: in_set_takeD)

lemma batch_view_take:
  assumes "distinct (map fst m)"
  shows "batch_view m (batch_view (take j m) v) = batch_view m v"
    "batch_view (take j m) v p = v p \<or> batch_view (take j m) v p = batch_view m v p"
  using map_of_take [OF assms, of j] by (auto simp: fun_eq_iff batch_view_def split: option.splits)

lemma partial_batches:
  assumes "distinct (map fst m)" "db_head_blocks d = []" "DB_write_batches full m h d = Inr bs" "0 < k" "k < length bs"
  obtains j where "write_all (take k bs) d =
    \<lparr>db_coins = batch_view (take j m) (db_coins d), db_best_block = None, db_head_blocks = [h, DB_GetBestBlock d]\<rparr>"
proof -
  have bs: "bs = db_batches full h [EraseBestBlock, WriteHeadBlocks [h, DB_GetBestBlock d]] m"
    using assms(2,3) by (auto simp: DB_write_batches_def Let_def split: if_splits)
  obtain j where "concat (take k bs) = [EraseBestBlock, WriteHeadBlocks [h, DB_GetBestBlock d]] @ concat (map coin_ops (take j m))"
    using take_db_batches assms(4,5) unfolding bs by blast
  moreover have "distinct (map fst (take j m))" using assms(1) by (simp add: take_map [symmetric])
  ultimately have "write_all (take k bs) d =
    \<lparr>db_coins = batch_view (take j m) (db_coins d), db_best_block = None, db_head_blocks = [h, DB_GetBestBlock d]\<rparr>"
    by (simp only: write_all_concat WriteBatch_append WriteBatch_coins) (simp add: WriteBatch_def)
  then show thesis by (rule that)
qed

text \<open>
C10: Writing the coins to the database survives a crash between any two of its batches. The database then either is unchanged or
names the new and the old tip as its head blocks; every coin has its old or its new value; and repeating the write,
whatever its batch sizes, produces exactly the database that the uninterrupted write produces.
\<close>

theorem db_crash_safe:
  assumes "distinct (map fst m)" "db_head_blocks d = []" "DB_write_batches full m h d = Inr bs" "k < length bs"
  shows "(write_all (take k bs) d = d \<or>
      db_best_block (write_all (take k bs) d) = None \<and>
      db_head_blocks (write_all (take k bs) d) = [h, DB_GetBestBlock d]) \<and>
    (\<forall>p. db_coins (write_all (take k bs) d) p \<in> {db_coins d p, batch_view m (db_coins d) p}) \<and>
    DB_BatchWrite full' m h (write_all (take k bs) d) = Inr (True, write_all bs d)"
proof -
  have h: "h \<noteq> uint256_null" using assms(3) by (auto simp: DB_write_batches_def)
  let ?new = "\<lparr>db_coins = batch_view m (db_coins d), db_best_block = Some h, db_head_blocks = []\<rparr>"
  have "DB_BatchWrite full m h d = Inr (True, ?new)"
    using assms(1,2) h by (intro DB_BatchWrite_consistent) simp_all
  then have new: "write_all bs d = ?new" using assms(3) by (simp add: DB_BatchWrite_def write_all_def)
  show ?thesis
  proof (cases "k = 0")
    case True
    then have "write_all (take k bs) d = d" by (simp add: write_all_def)
    with DB_BatchWrite_consistent [OF assms(1) h, of d full'] assms(2) show ?thesis by (simp add: new)
  next
    case False
    then obtain j where j: "write_all (take k bs) d =
        \<lparr>db_coins = batch_view (take j m) (db_coins d), db_best_block = None, db_head_blocks = [h, DB_GetBestBlock d]\<rparr>"
      using partial_batches [OF assms(1-3) _ assms(4)] by blast
    have "DB_BatchWrite full' m h (write_all (take k bs) d) = Inr (True, ?new)"
      using DB_BatchWrite_consistent [OF assms(1) h, of "write_all (take k bs) d" full']
      by (simp add: j batch_view_take(1) [OF assms(1)])
    with batch_view_take(2) [OF assms(1), of j "db_coins d"] show ?thesis
      unfolding new j by simp
  qed
qed

theorem db_crash_safe_witness:
  "let m = [(sample_point, \<lparr>entry_coin = sample_coin, DIRTY = True, FRESH = True\<rparr>)]; h = replicate 32 1;
       bs = [[EraseBestBlock, WriteHeadBlocks [h, uint256_null], WriteCoin sample_point sample_coin],
             [EraseHeadBlocks, WriteBestBlock h]]
   in DB_write_batches (\<lambda>b. length b > 1) m h sample_db = Inr bs \<and>
      DB_BatchWrite (\<lambda>_. False) m h (write_all (take 1 bs) sample_db) = Inr (True, write_all bs sample_db)"
proof -
  let ?m = "[(sample_point, \<lparr>entry_coin = sample_coin, DIRTY = True, FRESH = True\<rparr>)]"
  let ?h = "replicate 32 1 :: bytes"
  let ?bs = "[[EraseBestBlock, WriteHeadBlocks [?h, uint256_null], WriteCoin sample_point sample_coin],
     [EraseHeadBlocks, WriteBestBlock ?h]]"
  have "DB_write_batches (\<lambda>b. length b > 1) ?m ?h sample_db = Inr ?bs"
    by (simp add: DB_write_batches_def sample_db_def DB_GetBestBlock_def uint256_null_def IsSpent_def sample_coin_def)
  moreover have "db_head_blocks sample_db = []" by (simp add: sample_db_def)
  ultimately show ?thesis
    using db_crash_safe [of ?m sample_db "\<lambda>b. length b > 1" ?h ?bs 1 "\<lambda>_. False"] by (simp add: Let_def)
qed

end
