(* ===== verification/Chain.thy ===== *)
theory Chain
  imports ArithUint256
begin

unbundle bit_operations_syntax

text \<open>
  The block index and the active chain (\<open>chain.h\<close>, \<open>chain.cpp\<close>): skip-list ancestors, median time past, the
  work a block proves, the vector of the active chain with \<open>SetTip\<close>, \<open>FindFork\<close> and the block locator. A
  \<open>CBlockIndex*\<close> is a value of the recursive type \<open>CBlockIndex\<close>, a null pointer is \<open>None\<close>. Entries are never
  changed once they are linked and there is one entry per block hash, so equal values stand for equal pointers.
\<close>

section \<open>Block index entries\<close>

record block_info =
  bi_hash :: bytes
  bi_nHeight :: int
  bi_nVersion :: u32
  bi_nTime :: u32
  bi_nBits :: u32
  bi_nNonce :: u32
  bi_nFlags :: u32
  bi_nChainWork :: base_uint
  bi_nTimeMax :: u32

datatype CBlockIndex = CBlockIndex (info: block_info) (pprev: "CBlockIndex option") (pskip: "CBlockIndex option")

abbreviation nHeight :: "CBlockIndex \<Rightarrow> int" where
  "nHeight b \<equiv> bi_nHeight (info b)"

definition GetBlockTime :: "CBlockIndex \<Rightarrow> int" where
  "GetBlockTime b = uint (bi_nTime (info b))"

definition GetBlockTimeMax :: "CBlockIndex \<Rightarrow> int" where
  "GetBlockTimeMax b = uint (bi_nTimeMax (info b))"

definition IsProofOfStake :: "CBlockIndex \<Rightarrow> bool" where
  "IsProofOfStake b \<longleftrightarrow> bi_nFlags (info b) AND 1 \<noteq> 0 \<or> bi_nVersion (info b) AND 0x10000000 \<noteq> 0"

datatype chain_error = AssertFailed

section \<open>Ancestors\<close>

definition InvertLowestOne :: "int \<Rightarrow> int" where
  "InvertLowestOne n = n AND (n - 1)"

definition GetSkipHeight :: "int \<Rightarrow> int" where
  "GetSkipHeight height =
     (if height < 2 then 0
      else if height AND 1 \<noteq> 0 then InvertLowestOne (InvertLowestOne (height - 1)) + 1
      else InvertLowestOne height)"

lemma InvertLowestOne_bounds:
  assumes "0 \<le> n"
  shows "0 \<le> InvertLowestOne n" "0 < n \<Longrightarrow> InvertLowestOne n < n" "InvertLowestOne n \<le> n"
proof -
  show "0 \<le> InvertLowestOne n" using assms by (simp add: InvertLowestOne_def)
  show lt: "InvertLowestOne n < n" if "0 < n"
    using AND_upper2 [of "n - 1" n] that by (simp add: InvertLowestOne_def)
  show "InvertLowestOne n \<le> n" using assms lt by (cases "n = 0") (simp_all add: InvertLowestOne_def)
qed

lemma GetSkipHeight_bounds:
  "0 < h \<Longrightarrow> 0 \<le> GetSkipHeight h \<and> GetSkipHeight h < h"
proof -
  assume h: "0 < h"
  have nn: "0 \<le> InvertLowestOne (h - 1)" "InvertLowestOne (h - 1) \<le> h - 1"
    using h InvertLowestOne_bounds [of "h - 1"] by simp_all
  have "InvertLowestOne (InvertLowestOne (h - 1)) + 1 < h" if "2 \<le> h"
  proof (cases "InvertLowestOne (h - 1) = 0")
    case True
    with that show ?thesis by (simp add: InvertLowestOne_def [of 0])
  next
    case False
    then show ?thesis using nn InvertLowestOne_bounds(2) [of "InvertLowestOne (h - 1)"] by simp
  qed
  with h nn show ?thesis
    using InvertLowestOne_bounds [of h] InvertLowestOne_bounds(1) [of "InvertLowestOne (h - 1)"]
    by (auto simp: GetSkipHeight_def)
qed

lemma GetSkipHeight_less: "0 \<le> k \<Longrightarrow> k < h \<Longrightarrow> GetSkipHeight h < h"
  using GetSkipHeight_bounds [of h] by simp

text \<open>The loop of \<open>GetAncestor\<close>, from the entry \<open>walk\<close> at height \<open>heightWalk\<close>.\<close>

definition follow_skip :: "int \<Rightarrow> int \<Rightarrow> bool" where
  "follow_skip heightWalk height \<longleftrightarrow>
     (let heightSkip = GetSkipHeight heightWalk; heightSkipPrev = GetSkipHeight (heightWalk - 1)
      in heightSkip = height \<or>
         (heightSkip > height \<and> \<not> (heightSkipPrev < heightSkip - 2 \<and> heightSkipPrev \<ge> height)))"

function ancestor_loop :: "int \<Rightarrow> CBlockIndex \<Rightarrow> int \<Rightarrow> chain_error + CBlockIndex" where
  "ancestor_loop height walk heightWalk =
     (if heightWalk > height \<and> 0 \<le> height then
        (case pskip walk of
           Some q \<Rightarrow>
             if follow_skip heightWalk height then ancestor_loop height q (GetSkipHeight heightWalk)
             else (case pprev walk of None \<Rightarrow> Inl AssertFailed | Some p \<Rightarrow> ancestor_loop height p (heightWalk - 1))
         | None \<Rightarrow> (case pprev walk of None \<Rightarrow> Inl AssertFailed | Some p \<Rightarrow> ancestor_loop height p (heightWalk - 1)))
      else Inr walk)"
  by pat_completeness auto
termination
  by (relation "measure (\<lambda>(_, _, heightWalk). nat heightWalk)") (auto simp: GetSkipHeight_less)

declare ancestor_loop.simps [simp del]

definition GetAncestor :: "int \<Rightarrow> CBlockIndex \<Rightarrow> chain_error + CBlockIndex option" where
  "GetAncestor height b =
     (if height > nHeight b \<or> height < 0 then Inr None
      else bindE (ancestor_loop height b (nHeight b)) (\<lambda>a. Inr (Some a)))"

definition BuildSkip :: "CBlockIndex \<Rightarrow> chain_error + CBlockIndex" where
  "BuildSkip b =
     (case pprev b of
        None \<Rightarrow> Inr b
      | Some p \<Rightarrow>
          bindE (GetAncestor (GetSkipHeight (nHeight b)) p) (\<lambda>q. Inr (CBlockIndex (info b) (pprev b) q)))"

section \<open>Times and work\<close>

fun block_times :: "nat \<Rightarrow> CBlockIndex option \<Rightarrow> int list" where
  "block_times (Suc i) (Some b) = GetBlockTime b # block_times i (pprev b)"
| "block_times _ _ = []"

definition nMedianTimeSpan :: nat where
  "nMedianTimeSpan = 11"

definition GetMedianTimePast :: "CBlockIndex \<Rightarrow> int" where
  "GetMedianTimePast b =
     (let pmedian = sort (block_times nMedianTimeSpan (Some b)) in pmedian ! (length pmedian div 2))"

definition GetBlockProof :: "CBlockIndex \<Rightarrow> base_uint option" where
  "GetBlockProof b =
     (let (bnTarget, fNegative, fOverflow) = SetCompact (unat (bi_nBits (info b)))
      in if fNegative \<or> fOverflow \<or> EqualTo bnTarget 0 then Some (uint_of_u64 0)
         else map_option (\<lambda>q. uint_add q (uint_of_u64 1))
                (uint_div (uint_not bnTarget) (uint_add bnTarget (uint_of_u64 1))))"

text \<open>\<open>None\<close> is the division by zero of a tip that proves no work; the conversion of the 64-bit result wraps.\<close>

definition GetBlockProofEquivalentTime :: "nat \<Rightarrow> CBlockIndex \<Rightarrow> CBlockIndex \<Rightarrow> CBlockIndex \<Rightarrow> int option" where
  "GetBlockProofEquivalentTime nPowTargetSpacing to from tip =
     (let (r, sign) =
            (if CompareTo (bi_nChainWork (info to)) (bi_nChainWork (info from)) > 0
             then (uint_sub (bi_nChainWork (info to)) (bi_nChainWork (info from)), 1)
             else (uint_sub (bi_nChainWork (info from)) (bi_nChainWork (info to)), -1))
      in Option.bind (GetBlockProof tip) (\<lambda>bnProof.
         map_option (\<lambda>r. if uint_bits r > 63 then sign * (2 ^ 63 - 1) else sign * int (GetLow64 r))
           (uint_div (uint_mul r (uint_of_u64 nPowTargetSpacing)) bnProof)))"

section \<open>Branches\<close>

fun same_height_walk :: "CBlockIndex \<Rightarrow> CBlockIndex \<Rightarrow> chain_error + CBlockIndex option" where
  "same_height_walk (CBlockIndex i p s) pb =
     (if CBlockIndex i p s = pb then Inr (Some pb)
      else case (p, pprev pb) of
             (Some pa1, Some pb1) \<Rightarrow> same_height_walk pa1 pb1
           | (None, None) \<Rightarrow> Inr None
           | _ \<Rightarrow> Inl AssertFailed)"

definition LastCommonAncestor :: "CBlockIndex \<Rightarrow> CBlockIndex \<Rightarrow> chain_error + CBlockIndex option" where
  "LastCommonAncestor pa pb =
     (let walk = (\<lambda>a b. case (a, b) of
                     (Some a1, Some b1) \<Rightarrow> same_height_walk a1 b1
                   | (None, None) \<Rightarrow> Inr None
                   | _ \<Rightarrow> Inl AssertFailed)
      in if nHeight pa > nHeight pb
         then bindE (GetAncestor (nHeight pb) pa) (\<lambda>pa1. walk pa1 (Some pb))
         else if nHeight pb > nHeight pa
         then bindE (GetAncestor (nHeight pa) pb) (\<lambda>pb1. walk (Some pa) pb1)
         else walk (Some pa) (Some pb))"

fun GetLastBlockIndex :: "CBlockIndex \<Rightarrow> bool \<Rightarrow> CBlockIndex" where
  "GetLastBlockIndex (CBlockIndex i p s) fProofOfStake =
     (case p of
        Some q \<Rightarrow> if IsProofOfStake (CBlockIndex i p s) \<noteq> fProofOfStake then GetLastBlockIndex q fProofOfStake
                  else CBlockIndex i p s
      | None \<Rightarrow> CBlockIndex i p s)"

section \<open>The active chain\<close>

type_synonym CChain = "CBlockIndex option list"

definition chain_at :: "CChain \<Rightarrow> int \<Rightarrow> CBlockIndex option" where
  "chain_at vChain h = (if h < 0 \<or> h \<ge> int (length vChain) then None else vChain ! nat h)"

definition Tip :: "CChain \<Rightarrow> CBlockIndex option" where
  "Tip vChain = (if length vChain > 0 then vChain ! (length vChain - 1) else None)"

definition Height :: "CChain \<Rightarrow> int" where
  "Height vChain = int (length vChain) - 1"

definition Contains :: "CChain \<Rightarrow> CBlockIndex \<Rightarrow> bool" where
  "Contains vChain pindex \<longleftrightarrow> chain_at vChain (nHeight pindex) = Some pindex"

definition chain_Next :: "CChain \<Rightarrow> CBlockIndex \<Rightarrow> CBlockIndex option" where
  "chain_Next vChain pindex = (if Contains vChain pindex then chain_at vChain (nHeight pindex + 1) else None)"

definition vector_resize :: "'a \<Rightarrow> nat \<Rightarrow> 'a list \<Rightarrow> 'a list" where
  "vector_resize x n v = (if n \<le> length v then take n v else v @ replicate (n - length v) x)"

fun set_tip_loop :: "CBlockIndex \<Rightarrow> CChain \<Rightarrow> CChain" where
  "set_tip_loop (CBlockIndex i p s) vChain =
     (let h = nat (bi_nHeight i); pindex = CBlockIndex i p s
      in if vChain ! h \<noteq> Some pindex
         then (case p of None \<Rightarrow> vChain[h := Some pindex] | Some q \<Rightarrow> set_tip_loop q (vChain[h := Some pindex]))
         else vChain)"

definition SetTip :: "CBlockIndex option \<Rightarrow> CChain \<Rightarrow> CChain" where
  "SetTip pindex vChain =
     (case pindex of
        None \<Rightarrow> []
      | Some b \<Rightarrow> set_tip_loop b (vector_resize None (nat (nHeight b + 1)) vChain))"

fun find_fork_loop :: "CChain \<Rightarrow> CBlockIndex \<Rightarrow> CBlockIndex option" where
  "find_fork_loop vChain (CBlockIndex i p s) =
     (if Contains vChain (CBlockIndex i p s) then Some (CBlockIndex i p s)
      else case p of None \<Rightarrow> None | Some q \<Rightarrow> find_fork_loop vChain q)"

definition FindFork :: "CChain \<Rightarrow> CBlockIndex option \<Rightarrow> chain_error + CBlockIndex option" where
  "FindFork vChain pindex =
     (case pindex of
        None \<Rightarrow> Inr None
      | Some b \<Rightarrow>
          bindE (if nHeight b > Height vChain then GetAncestor (Height vChain) b else Inr (Some b))
            (\<lambda>r. Inr (case r of None \<Rightarrow> None | Some b1 \<Rightarrow> find_fork_loop vChain b1)))"

text \<open>
  \<open>GetLocator\<close>: hashes at exponentially growing distances. \<open>nHave\<close> is the number of hashes already collected.
  The next entry is looked up in the vector for a block of the chain and through the skip list otherwise. The
  number of iterations is bounded by \<open>fuel\<close>; the height of the block is enough.
\<close>

definition locator_next :: "CChain \<Rightarrow> int \<Rightarrow> CBlockIndex \<Rightarrow> chain_error + CBlockIndex option" where
  "locator_next vChain nStep b =
     (let h = max (nHeight b - nStep) 0
      in if Contains vChain b then Inr (chain_at vChain h) else GetAncestor h b)"

fun locator_loop :: "nat \<Rightarrow> CChain \<Rightarrow> int \<Rightarrow> nat \<Rightarrow> CBlockIndex option \<Rightarrow> (chain_error + bytes list) option" where
  "locator_loop fuel vChain nStep nHave None = Some (Inr [])"
| "locator_loop 0 vChain nStep nHave (Some b) = None"
| "locator_loop (Suc fuel) vChain nStep nHave (Some b) =
     (if nHeight b = 0 then Some (Inr [bi_hash (info b)])
      else case locator_next vChain nStep b of
             Inl e \<Rightarrow> Some (Inl e)
           | Inr nxt \<Rightarrow>
               map_option (map_sum id (Cons (bi_hash (info b))))
                 (locator_loop fuel vChain (if nHave + 1 > 10 then nStep * 2 else nStep) (nHave + 1) nxt))"

definition GetLocator :: "nat \<Rightarrow> CChain \<Rightarrow> CBlockIndex option \<Rightarrow> (chain_error + bytes list) option" where
  "GetLocator fuel vChain pindex =
     locator_loop fuel vChain 1 0 (case pindex of None \<Rightarrow> Tip vChain | Some b \<Rightarrow> Some b)"

section \<open>Ancestors by walking back\<close>

fun walk_back :: "nat \<Rightarrow> CBlockIndex \<Rightarrow> CBlockIndex option" where
  "walk_back 0 b = Some b"
| "walk_back (Suc k) b = Option.bind (pprev b) (walk_back k)"

definition ancestor_at :: "int \<Rightarrow> CBlockIndex \<Rightarrow> CBlockIndex option" where
  "ancestor_at h b = walk_back (nat (nHeight b - h)) b"

text \<open>The invariant of linked entries: heights count up from the genesis block, and a skip pointer is the right ancestor.\<close>

fun index_ok :: "CBlockIndex \<Rightarrow> bool" where
  "index_ok (CBlockIndex i p s) \<longleftrightarrow>
     (case p of
        None \<Rightarrow> bi_nHeight i = 0 \<and> s = None
      | Some q \<Rightarrow> index_ok q \<and> bi_nHeight i = nHeight q + 1 \<and> (s = None \<or> s = ancestor_at (GetSkipHeight (bi_nHeight i)) q))"

lemma index_ok_height: "index_ok b \<Longrightarrow> 0 \<le> nHeight b"
  by (induction b rule: index_ok.induct) (auto split: option.splits)

lemma index_ok_pprev:
  assumes "index_ok b" "0 < nHeight b"
  obtains p where "pprev b = Some p" "index_ok p" "nHeight b = nHeight p + 1"
    "pskip b = None \<or> pskip b = ancestor_at (GetSkipHeight (nHeight b)) p"
  using assms by (cases b) (auto split: option.splits)

lemma walk_back_add: "walk_back (j + k) b = Option.bind (walk_back j b) (walk_back k)"
  by (induction j arbitrary: b) (auto split: Option.bind_splits)

lemma walk_back_index_ok:
  "index_ok b \<Longrightarrow> int k \<le> nHeight b \<Longrightarrow>
     \<exists>a. walk_back k b = Some a \<and> index_ok a \<and> nHeight a = nHeight b - int k"
proof (induction k arbitrary: b)
  case (Suc k)
  then obtain p where "pprev b = Some p" "index_ok p" "nHeight b = nHeight p + 1" by (auto elim: index_ok_pprev)
  with Suc.IH [of p] Suc.prems(2) show ?case by auto
qed simp

lemma ancestor_at_ok:
  assumes "index_ok b" "0 \<le> h" "h \<le> nHeight b"
  obtains a where "ancestor_at h b = Some a" "index_ok a" "nHeight a = h"
  using walk_back_index_ok [of b "nat (nHeight b - h)"] assms by (auto simp: ancestor_at_def)

lemma ancestor_at_Some:
  assumes "index_ok b" "0 \<le> h" "h \<le> nHeight b" "ancestor_at h b = Some a"
  shows "index_ok a \<and> nHeight a = h"
proof -
  obtain a' where "ancestor_at h b = Some a'" "index_ok a'" "nHeight a' = h"
    using assms(1-3) by (rule ancestor_at_ok)
  with assms(4) show ?thesis by simp
qed

lemma ancestor_at_self [simp]: "ancestor_at (nHeight b) b = Some b"
  by (simp add: ancestor_at_def)

lemma ancestor_at_trans:
  assumes "index_ok b" "ancestor_at h b = Some a" "h \<le> nHeight b" "k \<le> h" "nHeight a = h"
  shows "ancestor_at k b = ancestor_at k a"
proof -
  have "nat (nHeight b - k) = nat (nHeight b - h) + nat (h - k)" using assms(3,4) by simp
  then show ?thesis using assms(2,5) by (simp add: ancestor_at_def walk_back_add)
qed

lemma ancestor_at_pprev:
  assumes "pprev b = Some p" "nHeight b = nHeight p + 1" "h \<le> nHeight p"
  shows "ancestor_at h b = ancestor_at h p"
proof -
  have "nat (nHeight b - h) = Suc (nat (nHeight p - h))" using assms(2,3) by simp
  then show ?thesis using assms(1) by (simp add: ancestor_at_def)
qed

lemma ancestor_loop_correct:
  "index_ok b \<Longrightarrow> hw = nHeight b \<Longrightarrow> 0 \<le> h \<Longrightarrow> h \<le> hw \<Longrightarrow>
     \<exists>a. ancestor_loop h b hw = Inr a \<and> ancestor_at h b = Some a"
proof (induction h b hw rule: ancestor_loop.induct)
  case (1 h b hw)
  show ?case
  proof (cases "hw > h")
    case False
    then have "ancestor_loop h b hw = Inr b" by (subst ancestor_loop.simps) simp
    moreover have "h = nHeight b" using False "1.prems" by simp
    ultimately show ?thesis by simp
  next
    case True
    with "1.prems" obtain p where p: "pprev b = Some p" "index_ok p" "nHeight b = nHeight p + 1"
        "pskip b = None \<or> pskip b = ancestor_at (GetSkipHeight (nHeight b)) p" by (auto elim: index_ok_pprev)
    have prev: "ancestor_at h b = ancestor_at h p"
      using p(1,3) True "1.prems" by (intro ancestor_at_pprev) simp_all
    show ?thesis
    proof (cases "\<exists>q. pskip b = Some q \<and> follow_skip hw h")
      case True
      then obtain q where q: "pskip b = Some q" "follow_skip hw h" by blast
      have sk: "0 \<le> GetSkipHeight hw" "GetSkipHeight hw < hw" "h \<le> GetSkipHeight hw"
        using GetSkipHeight_bounds [of hw] \<open>hw > h\<close> "1.prems" q(2) by (auto simp: follow_skip_def Let_def)
      have qp: "ancestor_at (GetSkipHeight hw) p = Some q" using p(4) q(1) "1.prems" by auto
      then have q1: "index_ok q" "nHeight q = GetSkipHeight hw"
        using ancestor_at_ok [of p "GetSkipHeight hw"] p sk "1.prems" by auto
      have "ancestor_at h p = ancestor_at h q"
        using ancestor_at_trans [OF p(2) qp _ sk(3)] q1 sk p(3) "1.prems" by simp
      moreover have "ancestor_loop h b hw = ancestor_loop h q (GetSkipHeight hw)"
        using q \<open>hw > h\<close> "1.prems"(3) by (subst ancestor_loop.simps) simp
      ultimately show ?thesis
        using "1.IH"(2) [OF _ q] \<open>hw > h\<close> "1.prems" q1 sk prev by simp
    next
      case no: False
      have loop: "ancestor_loop h b hw = ancestor_loop h p (hw - 1)"
        using no \<open>hw > h\<close> "1.prems"(3) p(1) by (subst ancestor_loop.simps) (auto split: option.splits)
      have "\<exists>a. ancestor_loop h p (hw - 1) = Inr a \<and> ancestor_at h p = Some a"
      proof (cases "pskip b")
        case None
        with "1.IH"(1) [OF _ None p(1)] \<open>hw > h\<close> "1.prems" p show ?thesis by simp
      next
        case (Some q)
        with "1.IH"(3) [OF _ Some _ p(1)] no \<open>hw > h\<close> "1.prems" p show ?thesis by simp
      qed
      with loop prev show ?thesis by simp
    qed
  qed
qed

lemma GetAncestor_ancestor_at:
  assumes "index_ok b"
  shows "GetAncestor h b = Inr (if h > nHeight b \<or> h < 0 then None else ancestor_at h b)"
  using ancestor_loop_correct [OF assms refl, of h] by (auto simp: GetAncestor_def)

lemma BuildSkip_ok:
  assumes "index_ok p" "nHeight b = nHeight p + 1" "pprev b = Some p"
  shows "\<exists>b'. BuildSkip b = Inr b' \<and> index_ok b' \<and> info b' = info b \<and> pprev b' = Some p \<and>
    pskip b' = ancestor_at (GetSkipHeight (nHeight b)) p"
proof -
  have h: "0 < nHeight b" using index_ok_height [OF assms(1)] assms(2) by simp
  then have "GetAncestor (GetSkipHeight (nHeight b)) p = Inr (ancestor_at (GetSkipHeight (nHeight b)) p)"
    using GetAncestor_ancestor_at [OF assms(1)] GetSkipHeight_bounds [OF h] assms(2) by simp
  with assms show ?thesis by (auto simp: BuildSkip_def)
qed

section \<open>The active chain vector\<close>

text \<open>Every entry of the vector is the ancestor of the tip at its height.\<close>

definition chain_ok :: "CChain \<Rightarrow> bool" where
  "chain_ok vChain \<longleftrightarrow>
     (vChain \<noteq> [] \<longrightarrow>
        (\<exists>t. index_ok t \<and> nHeight t = int (length vChain) - 1 \<and>
           (\<forall>i < length vChain. vChain ! i = ancestor_at (int i) t)))"

lemma length_set_tip_loop [simp]: "length (set_tip_loop b v) = length v"
  by (induction b v rule: set_tip_loop.induct) (auto simp: Let_def split: option.splits)

lemma set_tip_loop_above: "index_ok b \<Longrightarrow> nHeight b < int i \<Longrightarrow> set_tip_loop b v ! i = v ! i"
proof (induction b v arbitrary: i rule: set_tip_loop.induct)
  case (1 j p s v)
  have ne: "nat (bi_nHeight j) \<noteq> i" using "1.prems" index_ok_height [OF "1.prems"(1)] by auto
  show ?case
  proof (cases p)
    case None
    with ne show ?thesis by (simp add: Let_def)
  next
    case (Some q)
    then have "index_ok q" "nHeight q < int i" using "1.prems" by simp_all
    with "1.IH" [OF refl refl _ Some, of i] Some ne show ?thesis by (simp add: Let_def)
  qed
qed

lemma set_tip_loop_ancestors:
  assumes "index_ok b" "nat (nHeight b) < length v"
    and "\<And>i a j. i \<le> nat (nHeight b) \<Longrightarrow> v ! i = Some a \<Longrightarrow> j \<le> i \<Longrightarrow> v ! j = ancestor_at (int j) a"
  shows "i \<le> nat (nHeight b) \<Longrightarrow> set_tip_loop b v ! i = ancestor_at (int i) b"
  using assms
proof (induction b v arbitrary: i rule: set_tip_loop.induct)
  case (1 k p s v)
  let ?b = "CBlockIndex k p s" and ?h = "nat (bi_nHeight k)"
  have h: "int ?h = nHeight ?b" using index_ok_height [OF "1.prems"(2)] by simp
  show ?case
  proof (cases "v ! ?h = Some ?b")
    case True
    then have "set_tip_loop ?b v = v" by (simp add: Let_def)
    with "1.prems"(4) [of ?h ?b i] True "1.prems"(1) show ?thesis by simp
  next
    case False
    define v1 where "v1 = v[?h := Some ?b]"
    show ?thesis
    proof (cases p)
      case None
      then have "bi_nHeight k = 0" using "1.prems"(2) by simp
      with False None "1.prems"(1,3) ancestor_at_self [of ?b] show ?thesis by (simp add: Let_def)
    next
      case (Some q)
      have q: "index_ok q" "bi_nHeight k = nHeight q + 1" using "1.prems"(2) Some by simp_all
      have loop: "set_tip_loop ?b v = set_tip_loop q v1" using False Some by (simp add: Let_def v1_def)
      show ?thesis
      proof (cases "i = ?h")
        case True
        then have "set_tip_loop q v1 ! i = v1 ! i"
          using q h by (intro set_tip_loop_above) simp_all
        also have "\<dots> = Some ?b" using True "1.prems"(3) by (simp add: v1_def)
        also have "\<dots> = ancestor_at (int i) ?b" using ancestor_at_self [of ?b] h True by simp
        finally show ?thesis by (simp only: loop)
      next
        case ne: False
        have "set_tip_loop q v1 ! i = ancestor_at (int i) q"
          unfolding v1_def
        proof (rule "1.IH" [OF refl refl _ Some])
          show "v ! ?h \<noteq> Some ?b" by (rule False)
          show "i \<le> nat (nHeight q)" using ne "1.prems"(1) q by simp
          show "nat (nHeight q) < length (v[?h := Some ?b])" using "1.prems"(3) q by simp
          fix i' a j
          assume "i' \<le> nat (nHeight q)" "v[?h := Some ?b] ! i' = Some a" "j \<le> i'"
          moreover from this have "i' < ?h" using q index_ok_height [OF q(1)] by simp
          ultimately show "v[?h := Some ?b] ! j = ancestor_at (int j) a"
            using "1.prems"(4) [of i' a j] by simp
        qed (rule q(1))
        moreover have "ancestor_at (int i) ?b = ancestor_at (int i) q"
          using Some q ne "1.prems"(1) by (intro ancestor_at_pprev) simp_all
        ultimately show ?thesis using loop by simp
      qed
    qed
  qed
qed

lemma chain_ok_entry:
  assumes "chain_ok v" "i < length v" "v ! i = Some a" "j \<le> i"
  shows "v ! j = ancestor_at (int j) a \<and> index_ok a \<and> nHeight a = int i"
proof -
  obtain t where t: "index_ok t" "nHeight t = int (length v) - 1" "\<forall>i < length v. v ! i = ancestor_at (int i) t"
    using assms(1,2) by (auto simp: chain_ok_def)
  then have a: "ancestor_at (int i) t = Some a" using assms(2,3) by auto
  then have "index_ok a" "nHeight a = int i"
    using ancestor_at_ok [OF t(1), of "int i"] t(2) assms(2) by auto
  moreover have "ancestor_at (int j) t = ancestor_at (int j) a"
    using ancestor_at_trans [OF t(1) a, of "int j"] t(2) assms(2,4) \<open>nHeight a = int i\<close> by simp
  ultimately show ?thesis using t(3) assms(2,4) by simp
qed

lemma vector_resize_nth:
  "i < n \<Longrightarrow> vector_resize x n v ! i = (if i < length v then v ! i else x)"
  "length (vector_resize x n v) = n"
  by (auto simp: vector_resize_def nth_append)

lemma SetTip_ancestors:
  assumes "chain_ok v" "index_ok b"
  shows "length (SetTip (Some b) v) = nat (nHeight b) + 1"
    "i \<le> nat (nHeight b) \<Longrightarrow> SetTip (Some b) v ! i = ancestor_at (int i) b"
proof -
  have h: "0 \<le> nHeight b" using assms(2) by (rule index_ok_height)
  let ?w = "vector_resize None (nat (nHeight b + 1)) v"
  have w: "SetTip (Some b) v = set_tip_loop b ?w" by (simp add: SetTip_def)
  show "length (SetTip (Some b) v) = nat (nHeight b) + 1" using h by (simp add: w vector_resize_nth)
  assume i: "i \<le> nat (nHeight b)"
  show "SetTip (Some b) v ! i = ancestor_at (int i) b"
    unfolding w
  proof (rule set_tip_loop_ancestors [OF assms(2) _ _ i])
    show "nat (nHeight b) < length ?w" using h by (simp add: vector_resize_nth)
    fix k a j
    assume "k \<le> nat (nHeight b)" "?w ! k = Some a" "j \<le> k"
    then show "?w ! j = ancestor_at (int j) a"
      using chain_ok_entry [OF assms(1), of k a j] h by (auto simp: vector_resize_nth split: if_splits)
  qed
qed

lemma chain_ok_SetTip:
  assumes "chain_ok v" "index_ok b"
  shows "chain_ok (SetTip (Some b) v)"
  unfolding chain_ok_def
proof (intro impI exI [of _ b] conjI allI)
  show "nHeight b = int (length (SetTip (Some b) v)) - 1"
    using SetTip_ancestors(1) [OF assms] index_ok_height [OF assms(2)] by simp
  fix i assume "i < length (SetTip (Some b) v)"
  then show "SetTip (Some b) v ! i = ancestor_at (int i) b"
    using SetTip_ancestors [OF assms] by simp
qed (rule assms(2))

section \<open>Forks\<close>

text \<open>\<open>f\<close> is the highest ancestor of \<open>b\<close> with the property \<open>P\<close>; \<open>None\<close> when no ancestor has it.\<close>

definition highest_ancestor :: "(CBlockIndex \<Rightarrow> bool) \<Rightarrow> CBlockIndex \<Rightarrow> CBlockIndex option \<Rightarrow> bool" where
  "highest_ancestor P b r \<longleftrightarrow>
     (case r of
        None \<Rightarrow> (\<forall>h a. 0 \<le> h \<longrightarrow> h \<le> nHeight b \<longrightarrow> ancestor_at h b = Some a \<longrightarrow> \<not> P a)
      | Some f \<Rightarrow> P f \<and> 0 \<le> nHeight f \<and> nHeight f \<le> nHeight b \<and> ancestor_at (nHeight f) b = Some f \<and>
          (\<forall>h a. nHeight f < h \<longrightarrow> h \<le> nHeight b \<longrightarrow> ancestor_at h b = Some a \<longrightarrow> \<not> P a))"

lemma highest_ancestor_self: "index_ok b \<Longrightarrow> P b \<Longrightarrow> highest_ancestor P b (Some b)"
  by (simp add: highest_ancestor_def index_ok_height)

lemma highest_ancestor_below:
  assumes "index_ok b" "ancestor_at k b = Some a" "nHeight a = k" "0 \<le> k" "k \<le> nHeight b"
    and above: "\<And>h c. k < h \<Longrightarrow> h \<le> nHeight b \<Longrightarrow> ancestor_at h b = Some c \<Longrightarrow> \<not> P c"
    and "highest_ancestor P a r"
  shows "highest_ancestor P b r"
proof -
  have tr: "h \<le> k \<Longrightarrow> ancestor_at h b = ancestor_at h a" for h
    using ancestor_at_trans [OF assms(1,2,5) _ assms(3)] .
  show ?thesis
  proof (cases r)
    case None
    with assms(7) above tr assms(3) show ?thesis
      by (auto simp: highest_ancestor_def) (metis not_le)
  next
    case (Some f)
    with assms(3,5,7) above tr show ?thesis
      by (auto simp: highest_ancestor_def) (metis not_le)
  qed
qed

lemma highest_ancestor_cong:
  assumes "index_ok b" "\<And>c. nHeight c \<le> nHeight b \<Longrightarrow> P c \<longleftrightarrow> Q c"
  shows "highest_ancestor P b r \<longleftrightarrow> highest_ancestor Q b r"
proof -
  have pq: "P a \<longleftrightarrow> Q a" if "0 \<le> h" "h \<le> nHeight b" "ancestor_at h b = Some a" for h a
    using ancestor_at_Some [OF assms(1) that] assms(2) [of a] that(2) by simp
  show ?thesis
  proof (cases r)
    case None
    with pq show ?thesis unfolding highest_ancestor_def by auto
  next
    case (Some f)
    have "P a \<longleftrightarrow> Q a" if "0 \<le> nHeight f" "nHeight f < h" "h \<le> nHeight b" "ancestor_at h b = Some a" for h a
      using pq [of h a] that by simp
    with Some assms(2) [of f] show ?thesis unfolding highest_ancestor_def by auto
  qed
qed

lemma find_fork_loop_highest: "index_ok b \<Longrightarrow> highest_ancestor (Contains v) b (find_fork_loop v b)"
proof (induction v b rule: find_fork_loop.induct)
  case (1 v i p s)
  let ?b = "CBlockIndex i p s"
  show ?case
  proof (cases "Contains v ?b")
    case True
    with highest_ancestor_self [OF "1.prems", of "Contains v"] show ?thesis by simp
  next
    case False
    show ?thesis
    proof (cases p)
      case None
      then have "nHeight ?b = 0" using "1.prems" by simp
      with False None show ?thesis by (auto simp: highest_ancestor_def ancestor_at_def)
    next
      case (Some q)
      have q: "index_ok q" "nHeight ?b = nHeight q + 1" "pprev ?b = Some q" using "1.prems" Some by simp_all
      have "ancestor_at (nHeight q) ?b = Some q" using ancestor_at_pprev [OF q(3,2)] by simp
      moreover have "\<not> Contains v c" if "nHeight q < h" "h \<le> nHeight ?b" "ancestor_at h ?b = Some c" for h c
      proof -
        have "h = nHeight ?b" using that q(2) by simp
        with that(3) ancestor_at_self [of ?b] False show ?thesis by simp
      qed
      ultimately have "highest_ancestor (Contains v) ?b (find_fork_loop v q)"
        using "1.IH" [OF False Some q(1)] index_ok_height [OF q(1)] q(2)
        by (intro highest_ancestor_below [OF "1.prems", of "nHeight q" q]) simp_all
      with False Some show ?thesis by simp
    qed
  qed
qed

lemma FindFork_highest:
  assumes "index_ok b"
  shows "\<exists>r. FindFork v (Some b) = Inr r \<and> highest_ancestor (Contains v) b r"
proof (cases "nHeight b > Height v")
  case False
  with find_fork_loop_highest [OF assms] show ?thesis by (simp add: FindFork_def)
next
  case True
  have out: "\<not> Contains v c" if "Height v < h" "h \<le> nHeight b" "ancestor_at h b = Some c" "0 \<le> h" for h c
    using ancestor_at_Some [OF assms that(4,2,3)] that(1) by (auto simp: Contains_def chain_at_def Height_def)
  show ?thesis
  proof (cases "Height v < 0")
    case neg: True
    with GetAncestor_ancestor_at [OF assms, of "Height v"] True have "FindFork v (Some b) = Inr None"
      by (simp add: FindFork_def)
    moreover have "highest_ancestor (Contains v) b None" using out neg by (auto simp: highest_ancestor_def)
    ultimately show ?thesis by blast
  next
    case False
    then obtain a where a: "ancestor_at (Height v) b = Some a" "index_ok a" "nHeight a = Height v"
      using True ancestor_at_ok [OF assms, of "Height v"] by (metis less_imp_le not_le)
    have "FindFork v (Some b) = Inr (find_fork_loop v a)"
      using GetAncestor_ancestor_at [OF assms, of "Height v"] a True False by (simp add: FindFork_def)
    moreover have "highest_ancestor (Contains v) b (find_fork_loop v a)"
    proof (rule highest_ancestor_below [OF assms a(1,3)])
      show "\<not> Contains v c" if "Height v < h" "h \<le> nHeight b" "ancestor_at h b = Some c" for h c
        using out [OF that] that(1) False by simp
    qed (use find_fork_loop_highest [OF a(2)] True False in simp_all)
    ultimately show ?thesis by blast
  qed
qed

definition is_ancestor :: "CBlockIndex \<Rightarrow> CBlockIndex \<Rightarrow> bool" where
  "is_ancestor b c \<longleftrightarrow> nHeight c \<le> nHeight b \<and> ancestor_at (nHeight c) b = Some c"

lemma is_ancestor_trans:
  assumes "index_ok b" "ancestor_at k b = Some a" "nHeight a = k" "k \<le> nHeight b" "nHeight c \<le> k"
  shows "is_ancestor b c \<longleftrightarrow> is_ancestor a c"
  using ancestor_at_trans [OF assms(1,2,4,5,3)] assms(3-5) by (simp add: is_ancestor_def)

lemma same_height_walk_highest:
  "index_ok a \<Longrightarrow> index_ok b \<Longrightarrow> nHeight a = nHeight b \<Longrightarrow>
     \<exists>r. same_height_walk a b = Inr r \<and> highest_ancestor (is_ancestor b) a r"
proof (induction a b rule: same_height_walk.induct)
  case (1 i p s b)
  let ?a = "CBlockIndex i p s"
  show ?case
  proof (cases "?a = b")
    case True
    then have "is_ancestor b ?a" using ancestor_at_self [of ?a] by (simp add: is_ancestor_def)
    moreover have "same_height_walk ?a b = Inr (Some b)" unfolding same_height_walk.simps using True by simp
    ultimately show ?thesis
      using True highest_ancestor_self [OF "1.prems"(1), of "is_ancestor b"] by (intro exI [of _ "Some b"]) simp
  next
    case ne: False
    have top: "\<not> is_ancestor b ?a"
      using ne "1.prems"(3) ancestor_at_self [of b] by (auto simp: is_ancestor_def)
    show ?thesis
    proof (cases p)
      case None
      then have h: "nHeight ?a = 0" "nHeight b = 0" using "1.prems" by simp_all
      then have "pprev b = None" using "1.prems"(2) by (cases b) (auto simp: index_ok_height split: option.splits dest: index_ok_height)
      moreover have "highest_ancestor (is_ancestor b) ?a None"
        using h top ancestor_at_self [of ?a] by (auto simp: highest_ancestor_def)
      ultimately show ?thesis using None ne by simp
    next
      case (Some q)
      have q: "index_ok q" "nHeight ?a = nHeight q + 1" "pprev ?a = Some q" using "1.prems" Some by simp_all
      then have "0 < nHeight b" using "1.prems"(3) index_ok_height [OF q(1)] by simp
      with "1.prems"(2) obtain b1 where b1: "pprev b = Some b1" "index_ok b1" "nHeight b = nHeight b1 + 1"
        by (auto elim: index_ok_pprev)
      from "1.IH" [OF ne refl Some b1(1)] q b1 "1.prems"(3) obtain r where
        r: "same_height_walk q b1 = Inr r" "highest_ancestor (is_ancestor b1) q r" by auto
      have "is_ancestor b c \<longleftrightarrow> is_ancestor b1 c" if "nHeight c \<le> nHeight q" for c
        using is_ancestor_trans [OF "1.prems"(2), of "nHeight b1" b1 c] ancestor_at_pprev [OF b1(1,3), of "nHeight b1"]
          that b1(3) "1.prems"(3) q(2) by simp
      then have rq: "highest_ancestor (is_ancestor b) q r"
        using r(2) highest_ancestor_cong [OF q(1), of "is_ancestor b" "is_ancestor b1"] by blast
      have "ancestor_at (nHeight q) ?a = Some q" using ancestor_at_pprev [OF q(3,2)] by simp
      then have "highest_ancestor (is_ancestor b) ?a r"
      proof (rule highest_ancestor_below [OF "1.prems"(1)])
        show "\<not> is_ancestor b c" if "nHeight q < h" "h \<le> nHeight ?a" "ancestor_at h ?a = Some c" for h c
        proof -
          have "h = nHeight ?a" using that q(2) by simp
          with that(3) ancestor_at_self [of ?a] top show ?thesis by simp
        qed
      qed (use rq q index_ok_height [OF q(1)] in simp_all)
      with r(1) Some ne b1(1) show ?thesis by simp
    qed
  qed
qed

lemma LastCommonAncestor_highest:
  assumes a: "index_ok a" and b: "index_ok b"
  shows "\<exists>r. LastCommonAncestor a b = Inr r \<and> highest_ancestor (is_ancestor b) a r"
proof -
  consider "nHeight a = nHeight b" | "nHeight a > nHeight b" | "nHeight b > nHeight a" by linarith
  then show ?thesis
  proof cases
    case 1
    with same_height_walk_highest [OF a b] show ?thesis by (simp add: LastCommonAncestor_def)
  next
    case 2
    obtain a1 where a1: "ancestor_at (nHeight b) a = Some a1" "index_ok a1" "nHeight a1 = nHeight b"
      using ancestor_at_ok [OF a index_ok_height [OF b]] 2 by (metis less_imp_le)
    from same_height_walk_highest [OF a1(2) b a1(3)] obtain r where
      r: "same_height_walk a1 b = Inr r" "highest_ancestor (is_ancestor b) a1 r" by blast
    have "highest_ancestor (is_ancestor b) a r"
    proof (rule highest_ancestor_below [OF a a1(1,3)])
      show "\<not> is_ancestor b c" if "nHeight b < h" "h \<le> nHeight a" "ancestor_at h a = Some c" for h c
        using ancestor_at_Some [OF a _ that(2,3)] that(1) index_ok_height [OF b] by (auto simp: is_ancestor_def)
    qed (use r(2) 2 index_ok_height [OF b] in simp_all)
    with r(1) a1(1) 2 index_ok_height [OF b] show ?thesis
      by (simp add: LastCommonAncestor_def GetAncestor_ancestor_at [OF a])
  next
    case 3
    obtain b1 where b1: "ancestor_at (nHeight a) b = Some b1" "index_ok b1" "nHeight b1 = nHeight a"
      using ancestor_at_ok [OF b index_ok_height [OF a]] 3 by (metis less_imp_le)
    from same_height_walk_highest [OF a b1(2) b1(3) [symmetric]] obtain r where
      r: "same_height_walk a b1 = Inr r" "highest_ancestor (is_ancestor b1) a r" by blast
    have "is_ancestor b c \<longleftrightarrow> is_ancestor b1 c" if "nHeight c \<le> nHeight a" for c
      using is_ancestor_trans [OF b b1(1,3) _ that] 3 by simp
    with r(2) highest_ancestor_cong [OF a, of "is_ancestor b" "is_ancestor b1"]
    have "highest_ancestor (is_ancestor b) a r" by blast
    with r(1) b1(1) 3 index_ok_height [OF a] show ?thesis
      by (simp add: LastCommonAncestor_def GetAncestor_ancestor_at [OF b])
  qed
qed

section \<open>Locators\<close>

lemma locator_next_ok:
  assumes "chain_ok v" "index_ok b" "0 < nHeight b" "1 \<le> nStep"
  shows "\<exists>a. locator_next v nStep b = Inr (Some a) \<and> index_ok a \<and> nHeight a = max (nHeight b - nStep) 0 \<and>
    ancestor_at (nHeight a) b = Some a"
proof -
  let ?h = "max (nHeight b - nStep) 0"
  have h: "0 \<le> ?h" "?h \<le> nHeight b" using assms(3,4) by auto
  obtain a where a: "ancestor_at ?h b = Some a" "index_ok a" "nHeight a = ?h"
    using ancestor_at_ok [OF assms(2) h] .
  have "locator_next v nStep b = Inr (Some a)"
  proof (cases "Contains v b")
    case True
    then have vb: "nat (nHeight b) < length v" "v ! nat (nHeight b) = Some b"
      using assms(3) by (auto simp: Contains_def chain_at_def split: if_splits)
    have "v ! nat ?h = ancestor_at (int (nat ?h)) b"
      using chain_ok_entry [OF assms(1) vb] h by auto
    moreover have "nat ?h < length v" using vb(1) h by linarith
    ultimately show ?thesis using True a(1) h by (simp add: locator_next_def chain_at_def Let_def)
  next
    case False
    with GetAncestor_ancestor_at [OF assms(2), of ?h] h a(1) show ?thesis
      by (simp add: locator_next_def Let_def)
  qed
  with a show ?thesis by auto
qed

text \<open>The blocks whose hashes a locator lists, and how many there are.\<close>

definition locator_blocks :: "CBlockIndex \<Rightarrow> CBlockIndex list \<Rightarrow> bool" where
  "locator_blocks b bs \<longleftrightarrow>
     bs \<noteq> [] \<and> hd bs = b \<and> nHeight (last bs) = 0 \<and> sorted_wrt (\<lambda>x y. nHeight x > nHeight y) bs \<and>
     list_all (is_ancestor b) bs"

lemma locator_blocks_genesis: "nHeight b = 0 \<Longrightarrow> locator_blocks b [b]"
  using ancestor_at_self [of b] by (simp add: locator_blocks_def is_ancestor_def)

lemma locator_blocks_Cons:
  assumes "index_ok b" "is_ancestor b a" "nHeight a < nHeight b" "locator_blocks a bs"
  shows "locator_blocks b (b # bs)"
proof -
  have anc: "ancestor_at (nHeight a) b = Some a" using assms(2) by (simp add: is_ancestor_def)
  have "is_ancestor b c" if "c \<in> set bs" for c
  proof -
    have c: "is_ancestor a c" using assms(4) that by (auto simp: locator_blocks_def list_all_iff)
    then show ?thesis using is_ancestor_trans [OF assms(1) anc refl, of c] assms(3) by (simp add: is_ancestor_def)
  qed
  moreover have "nHeight c < nHeight b" if "c \<in> set bs" for c
    using assms(3,4) that by (force simp: locator_blocks_def list_all_iff is_ancestor_def)
  ultimately show ?thesis
    using assms(4) by (auto simp: locator_blocks_def list_all_iff is_ancestor_def)
qed

lemma locator_loop_doubling:
  assumes "chain_ok v"
  shows "index_ok b \<Longrightarrow> 1 \<le> nStep \<Longrightarrow> 10 \<le> nHave \<Longrightarrow> nHeight b \<le> nStep * (2 ^ m - 1) \<Longrightarrow> m < fuel \<Longrightarrow>
    \<exists>bs. locator_loop fuel v nStep nHave (Some b) = Some (Inr (map (\<lambda>c. bi_hash (info c)) bs)) \<and>
      locator_blocks b bs \<and> length bs \<le> m + 1"
proof (induction m arbitrary: b nStep nHave fuel)
  case 0
  then have "nHeight b = 0" using index_ok_height [of b] by simp
  then show ?case using 0 by (cases fuel) (auto intro!: exI [of _ "[b]"] simp: locator_blocks_genesis)
next
  case (Suc m)
  then obtain f where f: "fuel = Suc f" by (cases fuel) auto
  show ?case
  proof (cases "nHeight b = 0")
    case True
    then show ?thesis using f by (auto intro!: exI [of _ "[b]"] simp: locator_blocks_genesis)
  next
    case False
    then have h: "0 < nHeight b" using index_ok_height [OF Suc.prems(1)] by simp
    obtain a where a: "locator_next v nStep b = Inr (Some a)" "index_ok a" "nHeight a = max (nHeight b - nStep) 0"
        "ancestor_at (nHeight a) b = Some a"
      using locator_next_ok [OF assms Suc.prems(1) h Suc.prems(2)] by blast
    have "nStep * 2 * 1 \<le> nStep * 2 * 2 ^ m" using Suc.prems(2) by (intro mult_left_mono) simp_all
    then have "nHeight a \<le> nStep * 2 * (2 ^ m - 1)"
      using a(3) Suc.prems(2,4) by (auto simp: algebra_simps max_def)
    with Suc.IH [OF a(2), of "nStep * 2" "nHave + 1" f] Suc.prems f obtain bs where
      bs: "locator_loop f v (nStep * 2) (nHave + 1) (Some a) = Some (Inr (map (\<lambda>c. bi_hash (info c)) bs))"
        "locator_blocks a bs" "length bs \<le> m + 1" by auto
    have "locator_blocks b (b # bs)"
      using locator_blocks_Cons [OF Suc.prems(1) _ _ bs(2)] a(3,4) h Suc.prems(2) by (simp add: is_ancestor_def)
    with bs a(1) f False Suc.prems(3) show ?thesis by (intro exI [of _ "b # bs"]) simp
  qed
qed

lemma locator_loop_linear:
  assumes "chain_ok v"
  shows "index_ok b \<Longrightarrow> nHeight b \<le> 2 ^ m - 1 \<Longrightarrow> nHave + k = 10 \<Longrightarrow> m + k < fuel \<Longrightarrow>
    \<exists>bs. locator_loop fuel v 1 nHave (Some b) = Some (Inr (map (\<lambda>c. bi_hash (info c)) bs)) \<and>
      locator_blocks b bs \<and> length bs \<le> m + k + 1"
proof (induction k arbitrary: b nHave fuel)
  case 0
  with locator_loop_doubling [OF assms, of b 1 nHave m fuel] show ?case by simp
next
  case (Suc k)
  then obtain f where f: "fuel = Suc f" by (cases fuel) auto
  show ?case
  proof (cases "nHeight b = 0")
    case True
    then show ?thesis using f by (auto intro!: exI [of _ "[b]"] simp: locator_blocks_genesis)
  next
    case False
    then have h: "0 < nHeight b" using index_ok_height [OF Suc.prems(1)] by simp
    obtain a where a: "locator_next v 1 b = Inr (Some a)" "index_ok a" "nHeight a = max (nHeight b - 1) 0"
        "ancestor_at (nHeight a) b = Some a"
      using locator_next_ok [OF assms Suc.prems(1) h, of 1] by auto
    from Suc.IH [OF a(2), of "nHave + 1" f] Suc.prems f a(3) obtain bs where
      bs: "locator_loop f v 1 (nHave + 1) (Some a) = Some (Inr (map (\<lambda>c. bi_hash (info c)) bs))"
        "locator_blocks a bs" "length bs \<le> m + k + 1" by auto
    have "locator_blocks b (b # bs)"
      using locator_blocks_Cons [OF Suc.prems(1) _ _ bs(2)] a(3,4) h by (simp add: is_ancestor_def)
    with bs a(1) f False Suc.prems(3) show ?thesis by (intro exI [of _ "b # bs"]) simp
  qed
qed

lemma block_times_nonneg: "t \<in> set (block_times n p) \<Longrightarrow> 0 \<le> t"
  by (induction n p rule: block_times.induct) (auto simp: GetBlockTime_def)

lemma GetMedianTimePast_nonneg: "0 \<le> GetMedianTimePast b"
proof -
  let ?ts = "sort (block_times nMedianTimeSpan (Some b))"
  have n: "nMedianTimeSpan = Suc 10" by (simp add: nMedianTimeSpan_def)
  have "0 < length ?ts" unfolding n block_times.simps by simp
  then have "?ts ! (length ?ts div 2) \<in> set ?ts" by (intro nth_mem div_less_dividend) simp_all
  then show ?thesis by (auto simp: GetMedianTimePast_def Let_def dest: block_times_nonneg)
qed

section \<open>Properties\<close>

text \<open>
C36: The skip list finds the right ancestor. On linked entries \<open>GetAncestor\<close> terminates without tripping its assertion and returns the block
that walking back over \<open>pprev\<close> reaches at the requested height, or null for a height that is negative or above the block;
\<open>BuildSkip\<close> links a new entry so that this stays true.
\<close>

theorem GetAncestor_correct:
  assumes "index_ok p" "nHeight b = nHeight p + 1" "pprev b = Some p"
  shows "GetAncestor h p = Inr (if h > nHeight p \<or> h < 0 then None else walk_back (nat (nHeight p - h)) p) \<and>
    (\<exists>b'. BuildSkip b = Inr b' \<and> index_ok b' \<and> info b' = info b \<and> pprev b' = Some p)"
  using GetAncestor_ancestor_at [OF assms(1), of h] BuildSkip_ok [OF assms] by (auto simp: ancestor_at_def)

definition sample_block :: "int \<Rightarrow> CBlockIndex option \<Rightarrow> CBlockIndex option \<Rightarrow> CBlockIndex" where
  "sample_block h p s =
     CBlockIndex \<lparr>bi_hash = [of_int h], bi_nHeight = h, bi_nVersion = 1, bi_nTime = 0, bi_nBits = 0x1d00ffff, bi_nNonce = 0,
       bi_nFlags = 0, bi_nChainWork = replicate 8 0, bi_nTimeMax = 0\<rparr> p s"

definition sample_0 :: CBlockIndex where
  "sample_0 = sample_block 0 None None"

definition sample_1 :: CBlockIndex where
  "sample_1 = sample_block 1 (Some sample_0) (Some sample_0)"

lemma sample_index_ok: "index_ok sample_0" "index_ok sample_1"
  by (simp_all add: sample_0_def sample_1_def sample_block_def GetSkipHeight_def ancestor_at_def)

theorem GetAncestor_correct_witness:
  "GetAncestor 0 sample_1 = Inr (Some sample_0) \<and>
   (\<exists>b'. BuildSkip (sample_block 2 (Some sample_1) None) = Inr b' \<and> index_ok b')"
  using GetAncestor_correct [OF sample_index_ok(2), of "sample_block 2 (Some sample_1) None" 0]
  by (auto simp: sample_1_def sample_0_def sample_block_def)

text \<open>
C37: The vector of the active chain stays a branch of the block tree. For a consistent vector and a linked block, \<open>SetTip\<close> makes that block
the tip and every entry its ancestor at that height, although the loop stops at the first entry that already agrees.
\<close>

theorem SetTip_correct:
  assumes "chain_ok v" "index_ok b"
  shows "chain_ok (SetTip (Some b) v) \<and> Tip (SetTip (Some b) v) = Some b \<and> Height (SetTip (Some b) v) = nHeight b \<and>
    (\<forall>h. 0 \<le> h \<and> h \<le> nHeight b \<longrightarrow> chain_at (SetTip (Some b) v) h = ancestor_at h b)"
proof -
  have h: "0 \<le> nHeight b" using assms(2) by (rule index_ok_height)
  note len = SetTip_ancestors(1) [OF assms] and anc = SetTip_ancestors(2) [OF assms]
  have "Tip (SetTip (Some b) v) = Some b" using len anc [of "nat (nHeight b)"] h by (simp add: Tip_def)
  moreover have "Height (SetTip (Some b) v) = nHeight b" using len h by (simp add: Height_def)
  moreover have "chain_at (SetTip (Some b) v) k = ancestor_at k b" if "0 \<le> k" "k \<le> nHeight b" for k
    using anc [of "nat k"] len that by (simp add: chain_at_def)
  ultimately show ?thesis using chain_ok_SetTip [OF assms] by blast
qed

theorem SetTip_correct_witness:
  "chain_ok [Some sample_0] \<and> Tip (SetTip (Some sample_1) [Some sample_0]) = Some sample_1 \<and>
   Height (SetTip (Some sample_1) [Some sample_0]) = 1"
proof -
  have "chain_ok [Some sample_0]"
    using sample_index_ok(1) by (auto simp: chain_ok_def sample_0_def sample_block_def ancestor_at_def intro!: exI [of _ sample_0])
  with SetTip_correct [OF this sample_index_ok(2)] show ?thesis by (simp add: sample_1_def sample_block_def)
qed

text \<open>
C38: \<open>FindFork\<close> and \<open>LastCommonAncestor\<close> find the fork point. For linked blocks they never fail: the first returns the highest ancestor of
a block that lies on the active chain, the second the highest ancestor of one block that is also an ancestor of the other, or
null if there is none.
\<close>

theorem fork_points_correct:
  assumes "index_ok a" "index_ok b"
  shows "(\<exists>r. FindFork v (Some a) = Inr r \<and> highest_ancestor (Contains v) a r) \<and>
    (\<exists>r. LastCommonAncestor a b = Inr r \<and> highest_ancestor (is_ancestor b) a r)"
  using FindFork_highest [OF assms(1)] LastCommonAncestor_highest [OF assms] by blast

theorem fork_points_correct_witness:
  "index_ok sample_1 \<and> index_ok sample_0 \<and>
   (\<exists>r. LastCommonAncestor sample_1 sample_0 = Inr r \<and> highest_ancestor (is_ancestor sample_0) sample_1 r)"
  using fork_points_correct [OF sample_index_ok(2,1)] sample_index_ok by blast

text \<open>
  Block locators are short. For a block below height \<open>2 ^ m\<close>, the loop of \<open>GetLocator\<close> ends within \<open>m + 11\<close> iterations and returns the hashes
of at most \<open>m + 11\<close> ancestors at strictly decreasing heights, from the block itself down to the genesis block.
\<close>

lemma GetLocator_bounded:
  assumes "chain_ok v" "index_ok b" "nHeight b < 2 ^ m" "m + 10 < fuel"
  shows "\<exists>bs. GetLocator fuel v (Some b) = Some (Inr (map (\<lambda>c. bi_hash (info c)) bs)) \<and> locator_blocks b bs \<and>
    length bs \<le> m + 11"
  using locator_loop_linear [OF assms(1,2), of m 0 10 fuel] assms(3,4) by (auto simp: GetLocator_def)

text \<open>
  The work of a block is \<open>2 ^ 256 / (target + 1)\<close>, rounded down, although \<open>2 ^ 256\<close> does not fit the arithmetic: \<open>GetBlockProof\<close> never divides
by zero, its intermediate results do not wrap, and it returns zero exactly for negative, overflowing and zero targets.
\<close>

lemma GetBlockProof_correct:
  "\<exists>w. GetBlockProof b = Some w \<and> length w = WIDTH \<and>
     val w = (case SetCompact (unat (bi_nBits (info b))) of (t, neg, ov) \<Rightarrow>
                if neg \<or> ov \<or> val t = 0 then 0 else 2 ^ 256 div (val t + 1))"
proof -
  obtain t neg ov where t: "SetCompact (unat (bi_nBits (info b))) = (t, neg, ov)" by (rule prod_cases3)
  have len: "length t = WIDTH" "val t + 1 < 2 ^ 256"
    using SetCompact_length [of "unat (bi_nBits (info b))"] SetCompact_not_max [of "unat (bi_nBits (info b))"] by (simp_all add: t)
  show ?thesis
  proof (cases "neg \<or> ov \<or> val t = 0")
    case True
    then show ?thesis using len by (auto simp: GetBlockProof_def t EqualTo_val val_uint_of_u64)
  next
    case False
    let ?d = "uint_add t (uint_of_u64 1)"
    have one: "val (uint_of_u64 1) = 1" "length (uint_of_u64 1) = WIDTH" by (simp_all add: val_uint_of_u64)
    have w: "32 * WIDTH = 256" by (simp add: WIDTH_def)
    have d: "val ?d = val t + 1" "length ?d = WIDTH"
      using len one val_uint_add [of t "uint_of_u64 1"] by (simp_all add: w)
    have n: "val (uint_not t) = 2 ^ 256 - (val t + 1)" using val_uint_not [of t] len by (simp add: w)
    have "map_option val (uint_div (uint_not t) ?d) = Some ((2 ^ 256 - (val t + 1)) div (val t + 1))"
      using val_uint_div [of "uint_not t" ?d] d len by (simp add: n)
    then obtain q where q: "uint_div (uint_not t) ?d = Some q" "val q = (2 ^ 256 - (val t + 1)) div (val t + 1)" by auto
    have ql: "length q = WIDTH" using length_uint_div [OF _ d(2) q(1)] len by simp
    have "val q + 1 = 2 ^ 256 div (val t + 1)"
      using q(2) len(2) div_add_self1 [of "val t + 1" "2 ^ 256 - (val t + 1)"] by simp
    moreover have "2 ^ 256 div (val t + 1) < 2 ^ 256" using False by (intro div_less_dividend) simp_all
    ultimately have "val (uint_add q (uint_of_u64 1)) = 2 ^ 256 div (val t + 1)"
      using val_uint_add [of q "uint_of_u64 1"] ql one by (simp add: w)
    with False q(1) ql one show ?thesis by (auto simp: GetBlockProof_def t EqualTo_val len)
  qed
qed

end
