(* ===== verification/TxVerify.thy ===== *)
theory TxVerify
  imports SigHash Execution Coins Chain
begin

unbundle bit_operations_syntax

text \<open>
  Transaction rules (\<open>consensus/tx_check.cpp\<close>, \<open>consensus/tx_verify.cpp\<close>): the context-free checks, absolute and
  relative lock times, signature-operation counts and the checks of the spent inputs against a coins view. A failed
  check is \<open>Reject\<close> with the penalty and the reason the code reports.
\<close>

section \<open>Context-free checks\<close>

datatype tx_error = Reject nat string | TxAssertFailed | ValueOutOfRange | NullDereference

abbreviation (input) TRANSACTION_COINBASE :: u16 where "TRANSACTION_COINBASE \<equiv> 5"
abbreviation (input) TRANSACTION_QUORUM_COMMITMENT :: u16 where "TRANSACTION_QUORUM_COMMITMENT \<equiv> 6"

definition MAX_LEGACY_BLOCK_SIZE :: nat where
  "MAX_LEGACY_BLOCK_SIZE = 3000000"

definition MAX_TX_EXTRA_PAYLOAD :: nat where
  "MAX_TX_EXTRA_PAYLOAD = 10000"

fun check_vout_loop :: "CAmount \<Rightarrow> CTxOut list \<Rightarrow> tx_error + unit" where
  "check_vout_loop nValueOut [] = Inr ()"
| "check_vout_loop nValueOut (txout # outs) =
     (if nValue txout < 0 then Inl (Reject 100 ''bad-txns-vout-negative'')
      else if nValue txout > MAX_MONEY then Inl (Reject 100 ''bad-txns-vout-toolarge'')
      else if \<not> MoneyRange (nValueOut + nValue txout) then Inl (Reject 100 ''bad-txns-txouttotal-toolarge'')
      else check_vout_loop (nValueOut + nValue txout) outs)"

fun check_duplicates_loop :: "COutPoint set \<Rightarrow> CTxIn list \<Rightarrow> tx_error + unit" where
  "check_duplicates_loop vInOutPoints [] = Inr ()"
| "check_duplicates_loop vInOutPoints (txin # ins) =
     (if prevout txin \<in> vInOutPoints then Inl (Reject 100 ''bad-txns-inputs-duplicate'')
      else check_duplicates_loop (insert (prevout txin) vInOutPoints) ins)"

definition CheckTransaction :: "CTransaction \<Rightarrow> tx_error + unit" where
  "CheckTransaction tx =
     (let allowEmptyTxInOut = (nType tx = TRANSACTION_QUORUM_COMMITMENT)
      in if \<not> allowEmptyTxInOut \<and> vin tx = [] then Inl (Reject 10 ''bad-txns-vin-empty'')
         else if \<not> allowEmptyTxInOut \<and> vout tx = [] then Inl (Reject 10 ''bad-txns-vout-empty'')
         else if GetTotalSize tx > MAX_LEGACY_BLOCK_SIZE then Inl (Reject 100 ''bad-txns-oversize'')
         else if length (vExtraPayload tx) > MAX_TX_EXTRA_PAYLOAD then Inl (Reject 100 ''bad-txns-payload-oversize'')
         else bindE (check_vout_loop 0 (vout tx)) (\<lambda>_.
           bindE (check_duplicates_loop {} (vin tx)) (\<lambda>_.
           if IsCoinBase tx then
             let minCbSize = (if nType tx = TRANSACTION_COINBASE then 1 else 2); n = length (scriptSig (vin tx ! 0))
             in if n < minCbSize \<or> n > 352 then Inl (Reject 100 ''bad-cb-length'') else Inr ()
           else if \<exists>txin \<in> set (vin tx). COutPoint_IsNull (prevout txin) then Inl (Reject 10 ''bad-txns-prevout-null'')
           else Inr ())))"

section \<open>Lock times\<close>

definition IsFinalTx :: "CTransaction \<Rightarrow> int \<Rightarrow> int \<Rightarrow> bool" where
  "IsFinalTx tx nBlockHeight nBlockTime =
     (if nLockTime tx = 0 then True
      else if uint (nLockTime tx) < (if uint (nLockTime tx) < int LOCKTIME_THRESHOLD then nBlockHeight else nBlockTime) then True
      else \<forall>txin \<in> set (vin tx). nSequence txin = SEQUENCE_FINAL)"

definition LOCKTIME_VERIFY_SEQUENCE :: u32 where
  "LOCKTIME_VERIFY_SEQUENCE = push_bit 0 1"

definition SEQUENCE_LOCKTIME_GRANULARITY :: nat where
  "SEQUENCE_LOCKTIME_GRANULARITY = 9"

text \<open>
  The loop of \<open>CalculateSequenceLocks\<close> over the inputs and the heights of the coins they spend; it also returns the
  heights that it leaves behind. A null ancestor is dereferenced.
\<close>

fun sequence_locks_loop ::
  "CBlockIndex \<Rightarrow> CTxIn list \<Rightarrow> int list \<Rightarrow> int \<times> int \<Rightarrow> tx_error + (int \<times> int) \<times> int list" where
  "sequence_locks_loop block (txin # ins) (nCoinHeight # heights) (nMinHeight, nMinTime) =
     (if nSequence txin AND SEQUENCE_LOCKTIME_DISABLE \<noteq> 0 then
        bindE (sequence_locks_loop block ins heights (nMinHeight, nMinTime)) (\<lambda>(r, heights1). Inr (r, 0 # heights1))
      else if nSequence txin AND SEQUENCE_LOCKTIME_TYPE_FLAG \<noteq> 0 then
        (case GetAncestor (max (nCoinHeight - 1) 0) block of
           Inr (Some a) \<Rightarrow>
             let nCoinTime = GetMedianTimePast a;
                 t = nCoinTime + uint (push_bit SEQUENCE_LOCKTIME_GRANULARITY (nSequence txin AND SEQUENCE_LOCKTIME_MASK)) - 1
             in bindE (sequence_locks_loop block ins heights (nMinHeight, max nMinTime t)) (\<lambda>(r, heights1). Inr (r, nCoinHeight # heights1))
         | Inr None \<Rightarrow> Inl NullDereference
         | Inl _ \<Rightarrow> Inl TxAssertFailed)
      else
        bindE (sequence_locks_loop block ins heights
                 (max nMinHeight (nCoinHeight + uint (nSequence txin AND SEQUENCE_LOCKTIME_MASK) - 1), nMinTime))
          (\<lambda>(r, heights1). Inr (r, nCoinHeight # heights1)))"
| "sequence_locks_loop block _ heights m = Inr (m, heights)"

definition CalculateSequenceLocks ::
  "CTransaction \<Rightarrow> u32 \<Rightarrow> int list \<Rightarrow> CBlockIndex \<Rightarrow> tx_error + (int \<times> int) \<times> int list" where
  "CalculateSequenceLocks tx flags prevHeights block =
     (if length prevHeights \<noteq> length (vin tx) then Inl TxAssertFailed
      else if \<not> ((scast (nVersion tx) :: u32) \<ge> 2 \<and> flags AND LOCKTIME_VERIFY_SEQUENCE \<noteq> 0) then Inr ((-1, -1), prevHeights)
      else sequence_locks_loop block (vin tx) prevHeights (-1, -1))"

definition EvaluateSequenceLocks :: "CBlockIndex \<Rightarrow> int \<times> int \<Rightarrow> tx_error + bool" where
  "EvaluateSequenceLocks block lockPair =
     (case pprev block of
        None \<Rightarrow> Inl TxAssertFailed
      | Some p \<Rightarrow>
          let nBlockTime = GetMedianTimePast p
          in if fst lockPair \<ge> nHeight block \<or> snd lockPair \<ge> nBlockTime then Inr False else Inr True)"

definition SequenceLocks :: "CTransaction \<Rightarrow> u32 \<Rightarrow> int list \<Rightarrow> CBlockIndex \<Rightarrow> tx_error + bool" where
  "SequenceLocks tx flags prevHeights block =
     bindE (CalculateSequenceLocks tx flags prevHeights block) (\<lambda>(lockPair, _). EvaluateSequenceLocks block lockPair)"

section \<open>Signature operations\<close>

definition GetLegacySigOpCount :: "CTransaction \<Rightarrow> nat" where
  "GetLegacySigOpCount tx =
     sum_list (map (\<lambda>txin. GetSigOpCount False (scriptSig txin)) (vin tx))
     + sum_list (map (\<lambda>txout. GetSigOpCount False (scriptPubKey txout)) (vout tx))"

fun p2sh_sigops_loop ::
  "(bytes \<Rightarrow> nat) \<Rightarrow> 'b view_ops \<Rightarrow> CTxIn list \<Rightarrow> nat \<Rightarrow> 'b cached \<Rightarrow> (tx_error + nat) \<times> 'b cached" where
  "p2sh_sigops_loop usage ops [] nSigOps s = (Inr nSigOps, s)"
| "p2sh_sigops_loop usage ops (txin # ins) nSigOps s =
     (case AccessCoin usage ops (prevout txin) s of
        (coin, s1) \<Rightarrow>
          if IsSpent coin then (Inl TxAssertFailed, s1)
          else
            let spk = scriptPubKey (coin_out coin)
            in p2sh_sigops_loop usage ops ins
                 (if IsPayToScriptHash spk then nSigOps + GetSigOpCount_P2SH spk (scriptSig txin) else nSigOps) s1)"

definition GetP2SHSigOpCount ::
  "(bytes \<Rightarrow> nat) \<Rightarrow> 'b view_ops \<Rightarrow> CTransaction \<Rightarrow> 'b cached \<Rightarrow> (tx_error + nat) \<times> 'b cached" where
  "GetP2SHSigOpCount usage ops tx s =
     (if IsCoinBase tx then (Inr 0, s) else p2sh_sigops_loop usage ops (vin tx) 0 s)"

definition GetTransactionSigOpCount ::
  "(bytes \<Rightarrow> nat) \<Rightarrow> 'b view_ops \<Rightarrow> CTransaction \<Rightarrow> u32 \<Rightarrow> 'b cached \<Rightarrow> (tx_error + nat) \<times> 'b cached" where
  "GetTransactionSigOpCount usage ops tx flags s =
     (let nSigOps = GetLegacySigOpCount tx
      in if IsCoinBase tx then (Inr nSigOps, s)
         else if flag flags SCRIPT_VERIFY_P2SH then
           (case GetP2SHSigOpCount usage ops tx s of (r, s1) \<Rightarrow> (bindE r (\<lambda>n. Inr (nSigOps + n)), s1))
         else (Inr nSigOps, s))"

section \<open>Inputs\<close>

definition COINBASE_MATURITY :: int where
  "COINBASE_MATURITY = 120"

fun check_inputs_loop ::
  "(bytes \<Rightarrow> nat) \<Rightarrow> 'b view_ops \<Rightarrow> int \<Rightarrow> CTxIn list \<Rightarrow> CAmount \<Rightarrow> 'b cached \<Rightarrow> (tx_error + CAmount) \<times> 'b cached" where
  "check_inputs_loop usage ops nSpendHeight [] nValueIn s = (Inr nValueIn, s)"
| "check_inputs_loop usage ops nSpendHeight (txin # ins) nValueIn s =
     (case AccessCoin usage ops (prevout txin) s of
        (coin, s1) \<Rightarrow>
          if IsSpent coin then (Inl TxAssertFailed, s1)
          else if coin_fCoinBase coin \<and> nSpendHeight - int (coin_nHeight coin) < COINBASE_MATURITY then
            (Inl (Reject 0 ''bad-txns-premature-spend-of-coinbase''), s1)
          else
            let v = nValue (coin_out coin)
            in if \<not> MoneyRange v \<or> \<not> MoneyRange (nValueIn + v) then (Inl (Reject 100 ''bad-txns-inputvalues-outofrange''), s1)
               else check_inputs_loop usage ops nSpendHeight ins (nValueIn + v) s1)"

text \<open>The last argument before the state is the fee variable of the caller, which a coinstake leaves alone.\<close>

definition CheckTxInputs ::
  "(bytes \<Rightarrow> nat) \<Rightarrow> 'b view_ops \<Rightarrow> CTransaction \<Rightarrow> int \<Rightarrow> CAmount \<Rightarrow> 'b cached \<Rightarrow> (tx_error + CAmount) \<times> 'b cached" where
  "CheckTxInputs usage ops tx nSpendHeight txfee s =
     (case HaveInputs usage ops tx s of
        (False, s1) \<Rightarrow> (Inl (Reject 100 ''bad-txns-inputs-missingorspent''), s1)
      | (True, s1) \<Rightarrow>
          (case check_inputs_loop usage ops nSpendHeight (vin tx) 0 s1 of
             (Inl e, s2) \<Rightarrow> (Inl e, s2)
           | (Inr nValueIn, s2) \<Rightarrow>
               if IsCoinStake tx then (Inr txfee, s2)
               else
                 (case GetValueOut tx of
                    None \<Rightarrow> (Inl ValueOutOfRange, s2)
                  | Some value_out \<Rightarrow>
                      if nValueIn < value_out then (Inl (Reject 100 ''bad-txns-in-belowout''), s2)
                      else if \<not> MoneyRange (nValueIn - value_out) then (Inl (Reject 100 ''bad-txns-fee-outofrange''), s2)
                      else (Inr (nValueIn - value_out), s2))))"

section \<open>What the loops decide\<close>

lemma check_vout_loop_iff: "check_vout_loop n outs = Inr () \<longleftrightarrow> value_out_loop n outs \<noteq> None"
  by (induction outs arbitrary: n) (auto simp: MoneyRange_def)

lemma check_duplicates_loop_iff:
  "check_duplicates_loop S ins = Inr () \<longleftrightarrow> distinct (map prevout ins) \<and> prevout ` set ins \<inter> S = {}"
  by (induction ins arbitrary: S) auto

text \<open>When the relative lock of one input is over, at height \<open>H\<close> and median time \<open>T\<close>.\<close>

definition relative_lock :: "u32 \<Rightarrow> int" where
  "relative_lock sq = uint (sq AND SEQUENCE_LOCKTIME_MASK)"

definition lock_over :: "CBlockIndex \<Rightarrow> int \<Rightarrow> int \<Rightarrow> u32 \<Rightarrow> int \<Rightarrow> bool" where
  "lock_over block H T sq coin_height \<longleftrightarrow>
     sq AND SEQUENCE_LOCKTIME_DISABLE \<noteq> 0 \<or>
     (if sq AND SEQUENCE_LOCKTIME_TYPE_FLAG \<noteq> 0
      then \<exists>a. ancestor_at (max (coin_height - 1) 0) block = Some a \<and> GetMedianTimePast a + 512 * relative_lock sq \<le> T
      else coin_height + relative_lock sq \<le> H)"

lemma relative_lock_bounds: "0 \<le> relative_lock sq" "relative_lock sq < 65536"
proof -
  show "0 \<le> relative_lock sq" by (simp add: relative_lock_def)
  have "relative_lock sq = uint sq AND 65535"
    by (simp add: relative_lock_def SEQUENCE_LOCKTIME_MASK_def unsigned_and_eq)
  moreover have "uint sq AND 65535 \<le> 65535" by (rule AND_upper2) simp
  ultimately show "relative_lock sq < 65536" by simp
qed

lemma relative_lock_time:
  "uint (push_bit SEQUENCE_LOCKTIME_GRANULARITY (sq AND SEQUENCE_LOCKTIME_MASK)) = 512 * relative_lock sq"
proof -
  have w: "uint (push_bit 9 w) = take_bit 32 (push_bit 9 (uint w))" for w :: u32
    by (simp add: unsigned_push_bit_eq)
  have "uint (push_bit 9 (sq AND SEQUENCE_LOCKTIME_MASK)) = take_bit 32 (push_bit 9 (relative_lock sq))"
    unfolding relative_lock_def by (rule w)
  also have "\<dots> = 512 * relative_lock sq"
    using relative_lock_bounds [of sq] by (simp add: push_bit_eq_mult take_bit_int_eq_self)
  finally show ?thesis by (simp add: SEQUENCE_LOCKTIME_GRANULARITY_def)
qed

lemma sequence_locks_loop_correct:
  assumes "index_ok block" "length ins = length heights" "\<forall>h \<in> set heights. h \<le> nHeight block + 1"
  shows "\<exists>mh mt heights'. sequence_locks_loop block ins heights (nMinHeight, nMinTime) = Inr ((mh, mt), heights') \<and>
    (mh < H \<and> mt < T \<longleftrightarrow> nMinHeight < H \<and> nMinTime < T \<and>
      (\<forall>(i, h) \<in> set (zip ins heights). lock_over block H T (nSequence i) h))"
  using assms(2,3)
proof (induction ins heights arbitrary: nMinHeight nMinTime rule: list_induct2)
  case (Cons i ins h heights)
  have IH: "\<exists>mh mt heights'. sequence_locks_loop block ins heights (a, b) = Inr ((mh, mt), heights') \<and>
    (mh < H \<and> mt < T \<longleftrightarrow> a < H \<and> b < T \<and> (\<forall>(i, h) \<in> set (zip ins heights). lock_over block H T (nSequence i) h))" for a b
    using Cons.IH Cons.prems by simp
  have h: "max (h - 1) 0 \<le> nHeight block" using Cons.prems index_ok_height [OF assms(1)] by simp
  obtain c where c: "ancestor_at (max (h - 1) 0) block = Some c" using ancestor_at_ok [OF assms(1) _ h] by auto
  then have g: "GetAncestor (max (h - 1) 0) block = Inr (Some c)"
    using h GetAncestor_ancestor_at [OF assms(1), of "max (h - 1) 0"] by (simp add: not_less [symmetric])
  let ?t = "GetMedianTimePast c + 512 * relative_lock (nSequence i) - 1"
  let ?h = "h + relative_lock (nSequence i) - 1"
  consider "nSequence i AND SEQUENCE_LOCKTIME_DISABLE \<noteq> 0"
    | "nSequence i AND SEQUENCE_LOCKTIME_DISABLE = 0" "nSequence i AND SEQUENCE_LOCKTIME_TYPE_FLAG \<noteq> 0"
    | "nSequence i AND SEQUENCE_LOCKTIME_DISABLE = 0" "nSequence i AND SEQUENCE_LOCKTIME_TYPE_FLAG = 0" by blast
  then show ?case
  proof cases
    case 1
    then have "lock_over block H T (nSequence i) h" by (simp add: lock_over_def)
    with 1 IH [of nMinHeight nMinTime] show ?thesis by auto
  next
    case 2
    then have "lock_over block H T (nSequence i) h \<longleftrightarrow> ?t < T" using c by (auto simp: lock_over_def)
    with 2 IH [of nMinHeight "max nMinTime ?t"] g show ?thesis by (auto simp: Let_def relative_lock_time simp del: push_bit_and)
  next
    case 3
    then have "lock_over block H T (nSequence i) h \<longleftrightarrow> ?h < H" by (auto simp: lock_over_def)
    with 3 IH [of "max nMinHeight ?h" nMinTime] show ?thesis by (auto simp: relative_lock_def)
  qed
qed simp

lemma SequenceLocks_correct:
  assumes "index_ok block" "pprev block = Some p" "length prevHeights = length (vin tx)"
    "\<forall>h \<in> set prevHeights. h \<le> nHeight block + 1" "(scast (nVersion tx) :: u32) \<ge> 2"
  shows "SequenceLocks tx LOCKTIME_VERIFY_SEQUENCE prevHeights block =
    Inr (\<forall>k < length (vin tx). lock_over block (nHeight block) (GetMedianTimePast p) (nSequence (vin tx ! k)) (prevHeights ! k))"
proof -
  have "-1 < nHeight block" "-1 < GetMedianTimePast p"
    using index_ok_height [OF assms(1)] GetMedianTimePast_nonneg [of p] by simp_all
  with sequence_locks_loop_correct [OF assms(1) assms(3) [symmetric] assms(4), of "-1" "-1" "nHeight block" "GetMedianTimePast p"]
  obtain mh mt heights' where "sequence_locks_loop block (vin tx) prevHeights (-1, -1) = Inr ((mh, mt), heights')"
    "mh < nHeight block \<and> mt < GetMedianTimePast p \<longleftrightarrow>
      (\<forall>(i, h) \<in> set (zip (vin tx) prevHeights). lock_over block (nHeight block) (GetMedianTimePast p) (nSequence i) h)"
    by blast
  moreover have "(\<forall>(i, h) \<in> set (zip (vin tx) prevHeights). lock_over block (nHeight block) (GetMedianTimePast p) (nSequence i) h)
      \<longleftrightarrow> (\<forall>k < length (vin tx). lock_over block (nHeight block) (GetMedianTimePast p) (nSequence (vin tx ! k)) (prevHeights ! k))"
    using assms(3) by (auto simp: set_zip)
  ultimately show ?thesis
    using assms(2,3,5)
    by (auto simp: SequenceLocks_def CalculateSequenceLocks_def EvaluateSequenceLocks_def LOCKTIME_VERIFY_SEQUENCE_def)
qed

text \<open>The masks of \<open>CheckSequence\<close>: the type bit and the sixteen value bits.\<close>

lemma int_and_type_bit: "x AND 4194304 = (if bit x 22 then 4194304 else (0 :: int))"
proof -
  define e :: int where "e = 2 ^ 22"
  have "bit e m \<longleftrightarrow> m = 22" for m unfolding e_def by (simp only: bit_exp_iff) simp
  then have "x AND e = (if bit x 22 then e else 0)" by (intro bit_eqI) (auto simp: bit_and_iff)
  then show ?thesis by (simp add: e_def)
qed

lemma int_and_lock_mask: "x AND 4259839 = (x AND 4194304) + (x AND 65535 :: int)"
proof -
  have "x AND 4259839 = x AND (4194304 OR 65535)" by simp
  also have "\<dots> = (x AND 4194304) OR (x AND 65535)" by (rule bit.conj_disj_distrib)
  also have "\<dots> = (x AND 4194304) + (x AND 65535)"
  proof (rule disjunctive_add_eq_or [symmetric])
    have "(x AND 4194304) AND (x AND 65535) = (x AND x) AND (4194304 AND 65535)" by (simp only: ac_simps)
    then show "(x AND 4194304) AND (x AND 65535) = 0" by simp
  qed
  finally show ?thesis .
qed

lemma int_and_65535: "0 \<le> x AND 65535" "x AND 65535 \<le> (65535 :: int)"
  by (simp, rule AND_upper2) simp

lemma CheckSequence_lock:
  assumes "tx_CheckSequence tx nIn n"
  defines "sq \<equiv> nSequence (vin tx ! nIn)"
  shows "sq AND SEQUENCE_LOCKTIME_DISABLE = 0" "sq AND SEQUENCE_LOCKTIME_TYPE_FLAG \<noteq> 0 \<longleftrightarrow> bit n 22"
    "n AND 65535 \<le> relative_lock sq" "(scast (nVersion tx) :: u32) \<ge> 2"
proof -
  have masks: "uint (SEQUENCE_LOCKTIME_TYPE_FLAG OR SEQUENCE_LOCKTIME_MASK) = 4259839"
    "uint SEQUENCE_LOCKTIME_TYPE_FLAG = 4194304"
    by (simp_all add: SEQUENCE_LOCKTIME_TYPE_FLAG_def SEQUENCE_LOCKTIME_MASK_def)
  have s: "uint sq AND 65535 = relative_lock sq"
    by (simp add: relative_lock_def SEQUENCE_LOCKTIME_MASK_def unsigned_and_eq)
  have t: "sq AND SEQUENCE_LOCKTIME_TYPE_FLAG \<noteq> 0 \<longleftrightarrow> bit (uint sq) 22"
    using int_and_type_bit [of "uint sq"] by (simp add: unsigned_eq_0_iff [symmetric] unsigned_and_eq masks(2) flip: uint_0_iff)
  define m where "m = n AND 65535"
  have b: "0 \<le> m" "m \<le> 65535" "0 \<le> relative_lock sq" "relative_lock sq < 65536"
    unfolding m_def by (rule int_and_65535 relative_lock_bounds)+
  have d: "sq AND SEQUENCE_LOCKTIME_DISABLE = 0 \<longleftrightarrow> uint sq AND uint SEQUENCE_LOCKTIME_DISABLE = 0"
    by (simp add: unsigned_and_eq flip: uint_0_iff)
  from assms(1) show "sq AND SEQUENCE_LOCKTIME_DISABLE = 0" "sq AND SEQUENCE_LOCKTIME_TYPE_FLAG \<noteq> 0 \<longleftrightarrow> bit n 22"
    "n AND 65535 \<le> relative_lock sq" "(scast (nVersion tx) :: u32) \<ge> 2"
    unfolding tx_CheckSequence_def Let_def masks int_and_lock_mask int_and_type_bit sq_def [symmetric] s t d m_def [symmetric]
    using b by (auto simp: not_less split: if_splits)
qed

section \<open>Inputs against the abstract view\<close>

definition input_value :: "(COutPoint \<Rightarrow> Coin option) \<Rightarrow> CTxIn \<Rightarrow> CAmount" where
  "input_value v i = (case v (prevout i) of Some c \<Rightarrow> nValue (coin_out c) | None \<Rightarrow> 0)"

definition input_ok :: "int \<Rightarrow> (COutPoint \<Rightarrow> Coin option) \<Rightarrow> CTxIn \<Rightarrow> bool" where
  "input_ok h v i \<longleftrightarrow>
     (\<exists>c. v (prevout i) = Some c \<and> MoneyRange (nValue (coin_out c)) \<and>
       (coin_fCoinBase c \<longrightarrow> h - int (coin_nHeight c) \<ge> COINBASE_MATURITY))"

lemma input_values_nonneg: "\<forall>i \<in> set ins. input_ok h v i \<Longrightarrow> 0 \<le> sum_list (map (input_value v) ins)"
  by (rule sum_list_nonneg) (auto simp: input_ok_def input_value_def MoneyRange_def split: option.splits)

context coins_view
begin

lemma check_inputs_loop_correct:
  assumes "cached_inv usage view vinv s" "check_inputs_loop usage ops h ins n s = (r, s')" "MoneyRange n"
  shows "cached_inv usage view vinv s' \<and> cached_view view s' = cached_view view s \<and>
    (\<forall>m. r = Inr m \<longleftrightarrow> (\<forall>i \<in> set ins. input_ok h (cached_view view s) i) \<and>
        m = n + sum_list (map (input_value (cached_view view s)) ins) \<and> MoneyRange m)"
  using assms
proof (induction ins arbitrary: n s)
  case (Cons i ins)
  obtain coin s1 where a: "AccessCoin usage ops (prevout i) s = (coin, s1)" by (rule prod.exhaust)
  have a1: "cached_view view s1 = cached_view view s" "cached_inv usage view vinv s1"
    "if IsSpent coin then cached_view view s (prevout i) = None else cached_view view s (prevout i) = Some coin"
    using AccessCoin_correct [OF Cons.prems(1) a] by auto
  let ?v = "nValue (coin_out coin)" and ?S = "sum_list (map (input_value (cached_view view s)) ins)"
  have iv: "input_value (cached_view view s) i = ?v" if "\<not> IsSpent coin" using a1(3) that by (simp add: input_value_def)
  have io: "input_ok h (cached_view view s) i \<longleftrightarrow> \<not> IsSpent coin \<and> MoneyRange ?v \<and>
      \<not> (coin_fCoinBase coin \<and> h - int (coin_nHeight coin) < COINBASE_MATURITY)"
    using a1(3) by (auto simp: input_ok_def split: if_splits)
  show ?case
  proof (cases "\<not> IsSpent coin \<and> input_ok h (cached_view view s) i \<and> MoneyRange (n + ?v)")
    case False
    have "\<not> MoneyRange (n + ?v + ?S)" if "\<forall>j \<in> set (i # ins). input_ok h (cached_view view s) j" "\<not> IsSpent coin"
    proof -
      have "\<not> MoneyRange (n + ?v)" "0 \<le> ?v" using that False by (auto simp: io MoneyRange_def)
      moreover have "0 \<le> ?S" by (rule input_values_nonneg [where h = h]) (use that in simp)
      ultimately show ?thesis using Cons.prems(3) by (simp add: MoneyRange_def)
    qed
    with False Cons.prems(2) a a1 show ?thesis by (auto simp: io iv Let_def add.assoc split: if_splits)
  next
    case True
    then have "check_inputs_loop usage ops h ins (n + ?v) s1 = (r, s')"
      using Cons.prems(2) a by (auto simp: io Let_def)
    from Cons.IH [OF a1(2) this] True a1(1) show ?thesis by (auto simp: iv add.assoc)
  qed
qed auto

lemma CheckTxInputs_correct:
  assumes "cached_inv usage view vinv s" "\<not> IsCoinBase tx" "CheckTxInputs usage ops tx h txfee s = (r, s')"
  shows "cached_inv usage view vinv s' \<and> cached_view view s' = cached_view view s \<and>
    (r = Inr fee \<longleftrightarrow> (\<forall>i \<in> set (vin tx). input_ok h (cached_view view s) i) \<and>
       MoneyRange (sum_list (map (input_value (cached_view view s)) (vin tx))) \<and>
       (if IsCoinStake tx then fee = txfee
        else GetValueOut tx \<noteq> None \<and> MoneyRange fee \<and>
          sum_list (map (input_value (cached_view view s)) (vin tx)) = sum_list (map nValue (vout tx)) + fee))"
proof -
  let ?v = "cached_view view s"
  let ?total = "sum_list (map (input_value ?v) (vin tx))"
  obtain b s1 where hi: "HaveInputs usage ops tx s = (b, s1)" by (rule prod.exhaust)
  have h1: "b = (\<forall>i \<in> set (vin tx). ?v (prevout i) \<noteq> None)" "cached_view view s1 = ?v" "cached_inv usage view vinv s1"
    using HaveInputs_correct [OF assms(1) hi] assms(2) by auto
  obtain q s2 where l: "check_inputs_loop usage ops h (vin tx) 0 s1 = (q, s2)" by (rule prod.exhaust)
  have m0: "MoneyRange 0" by (simp add: MoneyRange_def MAX_MONEY_def COIN_def)
  have q: "q = Inr m \<longleftrightarrow> (\<forall>i \<in> set (vin tx). input_ok h ?v i) \<and> m = ?total \<and> MoneyRange m" for m
    using check_inputs_loop_correct [OF h1(3) l m0] h1(2) by simp
  have s2: "cached_inv usage view vinv s2" "cached_view view s2 = ?v"
    using check_inputs_loop_correct [OF h1(3) l m0] h1(2) by simp_all
  show ?thesis
  proof (cases "(\<forall>i \<in> set (vin tx). input_ok h ?v i) \<and> MoneyRange ?total")
    case True
    then have "q = Inr ?total" "b" using q h1(1) by (auto simp: input_ok_def)
    with assms(2,3) hi l True s2 GetValueOut_range [of tx] show ?thesis
      by (auto simp: CheckTxInputs_def MoneyRange_def split: if_splits option.splits)
  next
    case False
    then have "q \<noteq> Inr m" for m using q by blast
    with False assms(3) hi l s2 h1(2,3) show ?thesis by (auto simp: CheckTxInputs_def split: bool.splits sum.splits)
  qed
qed

end

section \<open>Properties\<close>

text \<open>
  The coins view that blocks are checked against: a cache over the cache of the tip over the database.
\<close>

abbreviation tip_ops :: "(bytes \<Rightarrow> nat) \<Rightarrow> (db_op list \<Rightarrow> bool) \<Rightarrow> CCoinsViewDB cached view_ops" where
  "tip_ops usage full \<equiv> CCoinsViewCache_ops usage (CCoinsViewDB_ops full)"

abbreviation tip_view :: "CCoinsViewDB cached cached \<Rightarrow> COutPoint \<Rightarrow> Coin option" where
  "tip_view \<equiv> cached_view (cached_view db_coins)"

abbreviation tip_inv :: "(bytes \<Rightarrow> nat) \<Rightarrow> CCoinsViewDB cached cached \<Rightarrow> bool" where
  "tip_inv usage \<equiv> cached_inv usage (cached_view db_coins) (cached_inv usage db_coins db_inv)"

text \<open>
C33: \<open>CheckTransaction\<close> accepts exactly the well-formed transactions: inputs and outputs present (except in a quorum
commitment), sizes within the limits, output values whose sum \<open>GetValueOut\<close> can form without an exception, no outpoint
spent twice, and either a coinbase script of legal length or no null outpoint.
\<close>

theorem CheckTransaction_correct:
  "CheckTransaction tx = Inr () \<longleftrightarrow>
     (nType tx = TRANSACTION_QUORUM_COMMITMENT \<or> (vin tx \<noteq> [] \<and> vout tx \<noteq> [])) \<and>
     length (SerializeTx tx) \<le> MAX_LEGACY_BLOCK_SIZE \<and> length (vExtraPayload tx) \<le> MAX_TX_EXTRA_PAYLOAD \<and>
     (\<exists>v. GetValueOut tx = Some v) \<and> distinct (map prevout (vin tx)) \<and>
     (if IsCoinBase tx
      then length (scriptSig (vin tx ! 0)) \<in> {(if nType tx = TRANSACTION_COINBASE then 1 else 2)..352}
      else \<not> (\<exists>i \<in> set (vin tx). COutPoint_IsNull (prevout i)))"
proof -
  have u: "x = Inr () \<longleftrightarrow> (\<exists>y. x = Inr y)" for x :: "tx_error + unit" by (cases x) auto
  have "check_vout_loop 0 (vout tx) = Inr () \<longleftrightarrow> (\<exists>v. GetValueOut tx = Some v)"
    by (simp add: check_vout_loop_iff GetValueOut_def)
  then show ?thesis
    using check_duplicates_loop_iff [of "{}" "vin tx"]
    by (cases "check_vout_loop 0 (vout tx)"; cases "check_duplicates_loop {} (vin tx)")
       (auto simp: CheckTransaction_def GetTotalSize_def Let_def not_less Suc_le_eq split: if_splits)
qed

definition sample_spend :: "u32 \<Rightarrow> u32 \<Rightarrow> CTransaction" where
  "sample_spend sq lock =
     \<lparr>vin = [\<lparr>prevout = sample_point, scriptSig = [], nSequence = sq\<rparr>], vout = [\<lparr>nValue = 5, scriptPubKey = [0x51]\<rparr>],
      nVersion = 3, nType = 0, nLockTime = lock, nTime = 0, vExtraPayload = []\<rparr>"

lemma sample_spend_kind: "\<not> IsCoinBase (sample_spend sq lock)" "\<not> IsCoinStake (sample_spend sq lock)"
  by (simp_all add: IsCoinBase_def IsCoinStake_def sample_spend_def COutPoint_IsNull_def sample_point_def NULL_INDEX_def)

theorem CheckTransaction_correct_witness:
  "CheckTransaction (sample_spend 0 0) = Inr () \<and> distinct (map prevout (vin (sample_spend 0 0)))"
proof -
  have "length (SerializeTx (sample_spend 0 0)) \<le> MAX_LEGACY_BLOCK_SIZE"
    by (simp add: sample_spend_def MAX_LEGACY_BLOCK_SIZE_def SerializeTx_def has_time_def has_payload_def ser_u32_def
        ser_vector_def ser_txin_def ser_txout_def ser_outpoint_def ser_blob_def ser_int64_def sample_point_def
        WriteCompactSize_def wire_simps len_simps)
  moreover have "\<exists>v. GetValueOut (sample_spend 0 0) = Some v"
    by (simp add: GetValueOut_def sample_spend_def MoneyRange_def MAX_MONEY_def COIN_def)
  moreover have "\<not> (\<exists>i \<in> set (vin (sample_spend 0 0)). COutPoint_IsNull (prevout i))"
    by (simp add: sample_spend_def COutPoint_IsNull_def sample_point_def NULL_INDEX_def)
  ultimately show ?thesis
    using CheckTransaction_correct [of "sample_spend 0 0"] sample_spend_kind(1) [of 0 0]
    by (simp add: sample_spend_def MAX_TX_EXTRA_PAYLOAD_def)
qed

text \<open>
C12: Only a coinstake can create money. \<open>CheckTxInputs\<close>, run on the stacked coins views for a transaction that is not a coinbase, accepts
with fee \<open>fee\<close> exactly if every input is an unspent coin in the money range, mature when it is a coinbase, the inputs together are in
the money range, and, unless the transaction is a coinstake, its inputs are worth its outputs plus the fee, which is in the money range
too. For a coinstake the values are not compared at all and the fee variable of the caller is left as it was. In any case the coins stay
as they were.
\<close>

theorem CheckTxInputs_conserves:
  assumes "tip_inv usage s" "\<not> IsCoinBase tx" "CheckTxInputs usage (tip_ops usage full) tx h txfee s = (r, s')"
  shows "tip_inv usage s' \<and> tip_view s' = tip_view s \<and>
    (r = Inr fee \<longleftrightarrow> (\<forall>i \<in> set (vin tx). input_ok h (tip_view s) i) \<and> MoneyRange (sum_list (map (input_value (tip_view s)) (vin tx))) \<and>
       (if IsCoinStake tx then fee = txfee
        else GetValueOut tx \<noteq> None \<and> MoneyRange fee \<and>
          sum_list (map (input_value (tip_view s)) (vin tx)) = sum_list (map nValue (vout tx)) + fee))"
  using assms by (rule coins_tip.CheckTxInputs_correct)

definition sample_coins :: CCoinsViewDB where
  "sample_coins = \<lparr>db_coins = [sample_point \<mapsto> sample_coin], db_best_block = None, db_head_blocks = []\<rparr>"

theorem CheckTxInputs_conserves_witness:
  "fst (CheckTxInputs length (tip_ops length (\<lambda>_. False)) (sample_spend 0 0) 4 0 (coins_stack (replicate 32 1) sample_coins)) = Inr 2"
proof -
  have "db_inv sample_coins" by (auto simp: db_inv_def sample_coins_def IsSpent_def sample_coin_def split: if_splits)
  note i = coins_stack_inv(1) [OF this, of length "replicate 32 1"]
  have v: "tip_view (coins_stack (replicate 32 1) sample_coins) = [sample_point \<mapsto> sample_coin]"
    by (simp add: coins_stack_inv(2)) (simp add: sample_coins_def)
  obtain r s' where r: "CheckTxInputs length (tip_ops length (\<lambda>_. False)) (sample_spend 0 0) 4 0
      (coins_stack (replicate 32 1) sample_coins) = (r, s')" by (rule prod.exhaust)
  have "r = Inr 2"
    using CheckTxInputs_conserves [OF i sample_spend_kind(1) r, of 2, unfolded if_not_P [OF sample_spend_kind(2)]]
    by (simp add: v input_ok_def input_value_def sample_spend_def sample_coin_def MoneyRange_def MAX_MONEY_def COIN_def GetValueOut_def)
  then show ?thesis by (simp add: r)
qed

text \<open>
C17: \<open>CHECKLOCKTIMEVERIFY\<close> really delays a spend. When the opcode accepts its argument \<open>n\<close> for an input of a transaction that
\<open>IsFinalTx\<close> admits into a block, then the height of the block (for \<open>n\<close> below the threshold) or its time lies beyond \<open>n\<close>.
\<close>

theorem cltv_enforced:
  assumes "op_checklocktimeverify (TransactionSignatureChecker lowS verify tx nIn) flags st = Inr st'"
    and "flag flags SCRIPT_VERIFY_CHECKLOCKTIMEVERIFY" "nIn < length (vin tx)" "IsFinalTx tx nBlockHeight nBlockTime"
  shows "\<exists>n. script_num flags 5 (st ! 0) = Inr n \<and> 0 \<le> n \<and>
    (n = 0 \<or> n < (if n < int LOCKTIME_THRESHOLD then nBlockHeight else nBlockTime))"
proof -
  obtain n where n: "script_num flags 5 (st ! 0) = Inr n" "0 \<le> n" "tx_CheckLockTime tx nIn n"
    using assms(1,2) by (auto simp: op_checklocktimeverify_def TransactionSignatureChecker_def split: if_splits)
  have "nSequence (vin tx ! nIn) \<noteq> SEQUENCE_FINAL" and le: "n \<le> uint (nLockTime tx)"
    and t: "n < int LOCKTIME_THRESHOLD \<longleftrightarrow> uint (nLockTime tx) < int LOCKTIME_THRESHOLD"
    using n(3) by (auto simp: tx_CheckLockTime_def split: if_splits)
  then have "\<not> (\<forall>i \<in> set (vin tx). nSequence i = SEQUENCE_FINAL)" using nth_mem [OF assms(3)] by blast
  with assms(4) n(2) le t have "n = 0 \<or> n < (if n < int LOCKTIME_THRESHOLD then nBlockHeight else nBlockTime)"
    by (auto simp: IsFinalTx_def split: if_splits)
  with n show ?thesis by blast
qed

theorem cltv_enforced_witness:
  "\<exists>n. script_num SCRIPT_VERIFY_CHECKLOCKTIMEVERIFY 5 ([[0x64]] ! 0) = Inr n \<and> 0 \<le> n \<and>
    (n = 0 \<or> n < (if n < int LOCKTIME_THRESHOLD then 102 else 0))"
proof (rule cltv_enforced)
  have "script_num SCRIPT_VERIFY_CHECKLOCKTIMEVERIFY 5 [0x64] = Inr 100" by code_simp
  moreover have "flag SCRIPT_VERIFY_CHECKLOCKTIMEVERIFY SCRIPT_VERIFY_CHECKLOCKTIMEVERIFY" by code_simp
  ultimately show "op_checklocktimeverify (TransactionSignatureChecker (\<lambda>_. True) (\<lambda>_ _ _. True) (sample_spend 0 101) 0)
      SCRIPT_VERIFY_CHECKLOCKTIMEVERIFY [[0x64]] = Inr [[0x64]]"
    by (simp add: op_checklocktimeverify_def TransactionSignatureChecker_def tx_CheckLockTime_def sample_spend_def
        LOCKTIME_THRESHOLD_def)
  show "flag SCRIPT_VERIFY_CHECKLOCKTIMEVERIFY SCRIPT_VERIFY_CHECKLOCKTIMEVERIFY" by code_simp
  show "0 < length (vin (sample_spend 0 101))" by (simp add: sample_spend_def)
  show "IsFinalTx (sample_spend 0 101) 102 0" by (simp add: IsFinalTx_def sample_spend_def LOCKTIME_THRESHOLD_def)
qed

text \<open>
C18: \<open>CHECKSEQUENCEVERIFY\<close> really delays a spend. When the opcode accepts its argument \<open>n\<close> for an input and \<open>SequenceLocks\<close> admits
the transaction into a block, then the block is at least the low sixteen bits of \<open>n\<close> higher than the spent coin, or, with
the type bit set, that many units of 512 seconds later in median time; unless \<open>n\<close> has the disable bit set.
\<close>

theorem csv_enforced:
  assumes "op_checksequenceverify (TransactionSignatureChecker lowS verify tx nIn) flags st = Inr st'"
    and "flag flags SCRIPT_VERIFY_CHECKSEQUENCEVERIFY" "nIn < length (vin tx)"
    and "index_ok block" "pprev block = Some p" "length prevHeights = length (vin tx)"
    and "\<forall>h \<in> set prevHeights. h \<le> nHeight block + 1"
    and "SequenceLocks tx LOCKTIME_VERIFY_SEQUENCE prevHeights block = Inr True"
  shows "\<exists>n. script_num flags 5 (st ! 0) = Inr n \<and> 0 \<le> n \<and>
    (n AND SEQUENCE_LOCKTIME_DISABLE_FLAG \<noteq> 0 \<or>
     (if bit n 22
      then \<exists>a. walk_back (nat (nHeight block - max (prevHeights ! nIn - 1) 0)) block = Some a \<and>
             GetMedianTimePast a + 512 * (n AND 65535) \<le> GetMedianTimePast p
      else prevHeights ! nIn + (n AND 65535) \<le> nHeight block))"
proof -
  obtain n where n: "script_num flags 5 (st ! 0) = Inr n" "0 \<le> n"
    "n AND SEQUENCE_LOCKTIME_DISABLE_FLAG \<noteq> 0 \<or> tx_CheckSequence tx nIn n"
    using assms(1,2) by (auto simp: op_checksequenceverify_def TransactionSignatureChecker_def split: if_splits)
  show ?thesis
  proof (cases "n AND SEQUENCE_LOCKTIME_DISABLE_FLAG \<noteq> 0")
    case True
    with n show ?thesis by blast
  next
    case False
    with n have "tx_CheckSequence tx nIn n" by blast
    note c = CheckSequence_lock [OF this]
    have "lock_over block (nHeight block) (GetMedianTimePast p) (nSequence (vin tx ! nIn)) (prevHeights ! nIn)"
      using SequenceLocks_correct [OF assms(4-7) c(4)] assms(3,8) by simp
    with c(1-3) n(1,2) show ?thesis by (force simp: lock_over_def ancestor_at_def split: if_splits)
  qed
qed

theorem csv_enforced_witness:
  "\<exists>n. script_num SCRIPT_VERIFY_CHECKSEQUENCEVERIFY 5 ([[1]] ! 0) = Inr n \<and> 0 \<le> n \<and>
    (n AND SEQUENCE_LOCKTIME_DISABLE_FLAG \<noteq> 0 \<or>
     (if bit n 22
      then \<exists>a. walk_back (nat (nHeight sample_1 - max ([0] ! 0 - 1) 0)) sample_1 = Some a \<and>
             GetMedianTimePast a + 512 * (n AND 65535) \<le> GetMedianTimePast sample_0
      else [0] ! 0 + (n AND 65535) \<le> nHeight sample_1))"
proof (rule csv_enforced)
  show "op_checksequenceverify (TransactionSignatureChecker (\<lambda>_. True) (\<lambda>_ _ _. True) (sample_spend 1 0) 0)
      SCRIPT_VERIFY_CHECKSEQUENCEVERIFY [[1]] = Inr [[1]]"
    by code_simp
  show "flag SCRIPT_VERIFY_CHECKSEQUENCEVERIFY SCRIPT_VERIFY_CHECKSEQUENCEVERIFY" by code_simp
  show "0 < length (vin (sample_spend 1 0))" "length [0] = length (vin (sample_spend 1 0))" by (simp_all add: sample_spend_def)
  show "index_ok sample_1" by (rule sample_index_ok)
  show "pprev sample_1 = Some sample_0" by (simp add: sample_1_def sample_block_def)
  show "\<forall>h \<in> set [0]. h \<le> nHeight sample_1 + 1" by (simp add: sample_1_def sample_block_def)
  show "SequenceLocks (sample_spend 1 0) LOCKTIME_VERIFY_SEQUENCE [0] sample_1 = Inr True" by code_simp
qed

end
