(* ===== verification/Sha256D64.thy ===== *)
theory Sha256D64
  imports Hashing
begin

unbundle bit_operations_syntax

text \<open>
  The double SHA-256 of 64-byte inputs that the Merkle tree code uses (\<open>crypto/sha256.cpp\<close>, \<open>sha256::TransformD64\<close> and
  \<open>SHA256D64\<close>): three compressions with the padding folded into the constants. The theory proves that this specialised
  code computes \<open>HASH256\<close>. The vectorised back ends that \<open>SHA256D64\<close> can call are not modelled.
\<close>

section \<open>The specialised code\<close>

fun add_vars :: "sha256_vars \<Rightarrow> sha256_vars \<Rightarrow> sha256_vars" where
  "add_vars (a, b, c, d, e, f, g, h) (a', b', c', d', e', f', g', h') =
     (a + a', b + b', c + c', d + d', e + e', f + f', g + g', h + h')"

fun vars_list :: "sha256_vars \<Rightarrow> u32 list" where
  "vars_list (a, b, c, d, e, f, g, h) = [a, b, c, d, e, f, g, h]"

definition d64_init :: sha256_vars where
  "d64_init = (0x6a09e667, 0xbb67ae85, 0x3c6ef372, 0xa54ff53a, 0x510e527f, 0x9b05688c, 0x1f83d9ab, 0x5be0cd19)"

text \<open>The round arguments of the second transform, whose message is the padding of the input.\<close>

definition d64_rounds2 :: "u32 list" where
  "d64_rounds2 =
     [0xc28a2f98, 0x71374491, 0xb5c0fbcf, 0xe9b5dba5, 0x3956c25b, 0x59f111f1, 0x923f82a4, 0xab1c5ed5,
      0xd807aa98, 0x12835b01, 0x243185be, 0x550c7dc3, 0x72be5d74, 0x80deb1fe, 0x9bdc06a7, 0xc19bf374,
      0x649b69c1, 0xf0fe4786, 0x0fe1edc6, 0x240cf254, 0x4fe9346f, 0x6cc984be, 0x61b9411e, 0x16f988fa,
      0xf2c65152, 0xa88e5a6d, 0xb019fc65, 0xb9d99ec7, 0x9a1231c3, 0xe70eeaa0, 0xfdb1232b, 0xc7353eb0,
      0x3069bad5, 0xcb976d5f, 0x5a0f118f, 0xdc1eeefd, 0x0a35b689, 0xde0b7a04, 0x58f4ca9d, 0xe15d5b16,
      0x007f3e86, 0x37088980, 0xa507ea32, 0x6fab9537, 0x17406110, 0x0d8cd6f1, 0xcdaa3b6d, 0xc0bbbe37,
      0x83613bda, 0xdb48a363, 0x0b02e931, 0x6fd15ca7, 0x521afaca, 0x31338431, 0x6ed41a95, 0x6d437890,
      0xc39c91f2, 0x9eccabbd, 0xb5c9a0e6, 0x532fb63c, 0xd2c741c6, 0x07237ea3, 0xa4954b68, 0x4c191d76]"

text \<open>The third transform: rounds 8 to 15 have constant arguments, rounds 16 to 31 a shortened schedule.\<close>

definition d64_rounds3 :: "u32 list" where
  "d64_rounds3 = [0x5807aa98, 0x12835b01, 0x243185be, 0x550c7dc3, 0x72be5d74, 0x80deb1fe, 0x9bdc06a7, 0xc19bf274]"

definition d64_schedule3 :: "nat \<Rightarrow> u32 list \<Rightarrow> u32 list" where
  "d64_schedule3 i w =
     (if i = 16 then w[0 := w ! 0 + sha256_sigma0 (w ! 1)]
      else if i = 17 then w[1 := w ! 1 + (0xa00000 + sha256_sigma0 (w ! 2))]
      else if i = 18 then w[2 := w ! 2 + (sha256_sigma1 (w ! 0) + sha256_sigma0 (w ! 3))]
      else if i = 19 then w[3 := w ! 3 + (sha256_sigma1 (w ! 1) + sha256_sigma0 (w ! 4))]
      else if i = 20 then w[4 := w ! 4 + (sha256_sigma1 (w ! 2) + sha256_sigma0 (w ! 5))]
      else if i = 21 then w[5 := w ! 5 + (sha256_sigma1 (w ! 3) + sha256_sigma0 (w ! 6))]
      else if i = 22 then w[6 := w ! 6 + (sha256_sigma1 (w ! 4) + 0x100 + sha256_sigma0 (w ! 7))]
      else if i = 23 then w[7 := w ! 7 + (sha256_sigma1 (w ! 5) + w ! 0 + 0x11002000)]
      else if i = 24 then w[8 := 0x80000000 + sha256_sigma1 (w ! 6) + w ! 1]
      else if i = 25 then w[9 := sha256_sigma1 (w ! 7) + w ! 2]
      else if i = 26 then w[10 := sha256_sigma1 (w ! 8) + w ! 3]
      else if i = 27 then w[11 := sha256_sigma1 (w ! 9) + w ! 4]
      else if i = 28 then w[12 := sha256_sigma1 (w ! 10) + w ! 5]
      else if i = 29 then w[13 := sha256_sigma1 (w ! 11) + w ! 6]
      else if i = 30 then w[14 := sha256_sigma1 (w ! 12) + w ! 7 + 0x400022]
      else if i = 31 then w[15 := 0x100 + sha256_sigma1 (w ! 13) + w ! 8 + sha256_sigma0 (w ! 0)]
      else sha256_schedule i (i mod 16) w)"

definition d64_step3 :: "sha256_vars \<times> u32 list \<Rightarrow> nat \<Rightarrow> sha256_vars \<times> u32 list" where
  "d64_step3 st i =
     (if 8 \<le> i \<and> i < 16 then (sha256_Round (fst st) (d64_rounds3 ! (i - 8)), snd st)
      else
        let w = (if i < 16 then snd st else d64_schedule3 i (snd st))
        in (sha256_Round (fst st) (fst (sha256_rounds ! i) + w ! (i mod 16)), w))"

text \<open>
  The first transform is the code of \<open>Transform\<close>. The third one starts with the eight words of the first digest; the words
  8 to 15 still hold values of the first transform, which are overwritten before they are read.
\<close>

definition TransformD64 :: "bytes \<Rightarrow> bytes" where
  "TransformD64 inp =
     (let st1 = foldl sha256_step (d64_init, chunk_words ReadBE32 inp) [0..<64];
          t = add_vars (fst st1) d64_init;
          v2 = foldl sha256_Round t d64_rounds2;
          w = vars_list (add_vars t v2) @ drop 8 (snd st1);
          st3 = foldl d64_step3 (d64_init, w) [0..<64]
      in concat (map WriteBE32 (vars_list (add_vars (fst st3) d64_init))))"

primrec SHA256D64 :: "nat \<Rightarrow> bytes \<Rightarrow> bytes" where
  "SHA256D64 0 inp = []"
| "SHA256D64 (Suc blocks) inp = TransformD64 inp @ SHA256D64 blocks (drop 64 inp)"

section \<open>The rounds as a function of the message words\<close>

fun round_args :: "u32 list \<Rightarrow> nat list \<Rightarrow> u32 list" where
  "round_args w [] = []"
| "round_args w (i # is) =
     (case sha256_rounds ! i of (k, j) \<Rightarrow> let w1 = sha256_schedule i j w in (k + w1 ! j) # round_args w1 is)"

lemma foldl_step_args: "fst (foldl sha256_step (v, w) is) = foldl sha256_Round v (round_args w is)"
  by (induction "is" arbitrary: v w) (simp_all add: sha256_step_def Let_def split: prod.split)

lemma Transform_args:
  "sha256_Transform (vars_list t) chunk =
     vars_list (add_vars t (foldl sha256_Round t (round_args (chunk_words ReadBE32 chunk) [0..<64])))"
proof -
  obtain a b c d e f g h where t: "t = (a, b, c, d, e, f, g, h)" by (rule vars_list.cases)
  show ?thesis
    by (simp add: sha256_Transform_def foldl_step_args t del: upt_rec_numeral split: prod.split)
qed

text \<open>
  The second transform: the schedule of the fixed padding block. The auxiliary functions make the simplifier evaluate the
  words of one round, reduced to 32 bits, before it goes on to the next.
\<close>

definition args1 :: "u32 \<times> nat \<Rightarrow> nat \<Rightarrow> u32 list \<Rightarrow> nat list \<Rightarrow> u32 list" where
  "args1 kj i w is = (case kj of (k, j) \<Rightarrow> let w1 = sha256_schedule i j w in (k + w1 ! j) # round_args w1 is)"

definition args2 :: "u32 \<Rightarrow> nat \<Rightarrow> u32 list \<Rightarrow> nat list \<Rightarrow> u32 list" where
  "args2 k j w is = (k + w ! j) # round_args w is"

definition args3 :: "u32 \<Rightarrow> nat \<Rightarrow> u32 list \<Rightarrow> nat list \<Rightarrow> u32 list" where
  "args3 k j w is = args2 k j w is"

lemma round_args_eval:
  "round_args w (i # is) = args1 (sha256_rounds ! i) i w is"
  "args1 (k, j) i w is = args3 k j (sha256_schedule i j w) is"
  "args3 k j w is = args2 k j (w[j := of_int (uint (w ! j))]) is"
  by (simp_all add: args1_def args2_def args3_def Let_def)

lemma round_args_padding:
  "round_args [0x80000000, 0, 0, 0, 0, 0, 0, 0, 0, 0, 0, 0, 0, 0, 0, 0x200] [0..<64] = d64_rounds2"
  by (simp add: round_args_eval args2_def upt_rec sha256_rounds_def sha256_schedule_def d64_rounds2_def
      sha256_sigma0_def sha256_sigma1_def del: round_args.simps(2))

lemma le_bytes_8: "le_bytes 8 512 = [0, 2, 0, 0, 0, 0, 0, 0]" "le_bytes 8 256 = [0, 1, 0, 0, 0, 0, 0, 0]"
proof -
  have "(8 :: nat) = Suc (Suc (Suc (Suc (Suc (Suc (Suc (Suc 0)))))))" by simp
  then show "le_bytes 8 512 = [0, 2, 0, 0, 0, 0, 0, 0]" "le_bytes 8 256 = [0, 1, 0, 0, 0, 0, 0, 0]"
    by (simp_all only: le_bytes.simps) simp_all
qed

lemma chunk_words_padding:
  "chunk_words ReadBE32 (0x80 # replicate 55 0 @ WriteBE64 512) =
     [0x80000000, 0, 0, 0, 0, 0, 0, 0, 0, 0, 0, 0, 0, 0, 0, 0x200]"
  by (simp add: chunk_words_def upt_rec ReadBE32_def WriteBE64_def le_bytes_8 drop_Cons' take_Cons' le_val_append)

lemma sigma_constants:
  "sha256_sigma0 0 = 0" "sha256_sigma1 0 = 0" "sha256_sigma1 0x100 = 0xa00000" "sha256_sigma0 0x100 = 0x400022"
  "sha256_sigma0 0x80000000 = 0x11002000"
  by code_simp+

text \<open>
  The third transform. After \<open>i\<close> rounds the standard schedule \<open>L\<close> agrees with the shortened one \<open>M\<close> on the words
  that are already computed, and still has the words of the padding behind them.
\<close>

definition pad_words :: "u32 list" where
  "pad_words = [0x80000000, 0, 0, 0, 0, 0, 0, 0x100]"

definition schedules_agree :: "nat \<Rightarrow> u32 list \<Rightarrow> u32 list \<Rightarrow> bool" where
  "schedules_agree i L M \<longleftrightarrow>
     length M = 16 \<and> (let n = max 8 (i - 16) in L = take n M @ drop (n - 8) pad_words)"

lemma rounds_index: "i < 64 \<Longrightarrow> snd (sha256_rounds ! i) = i mod 16"
proof -
  assume "i < 64"
  then have "i \<in> set [0..<64]" by simp
  then show ?thesis by (auto simp: upt_rec sha256_rounds_def)
qed

lemma round_8_constant: "(5771864728 :: u32) = 0x5807aa98"
  by simp

lemma schedule3_agrees:
  assumes "16 \<le> i" "i < 32" and M: "M = [a, b, c, d, e, f, g, h, a', b', c', d', e', f', g', h']"
  shows "sha256_schedule i (i - 16) (take (max 8 (i - 16)) M @ drop (max 8 (i - 16) - 8) pad_words) =
    take (max 8 (i - 15)) (d64_schedule3 i M) @ drop (max 8 (i - 15) - 8) pad_words"
proof -
  have "i \<in> set [16..<32]" using assms(1,2) by (simp only: set_upt atLeastLessThan_iff)
  then have "i = 16 \<or> i = 17 \<or> i = 18 \<or> i = 19 \<or> i = 20 \<or> i = 21 \<or> i = 22 \<or> i = 23 \<or> i = 24 \<or> i = 25 \<or> i = 26 \<or>
    i = 27 \<or> i = 28 \<or> i = 29 \<or> i = 30 \<or> i = 31" by simp
  then show ?thesis
    by (elim disjE; simp only: sha256_schedule_def d64_schedule3_def M pad_words_def; simp add: sigma_constants ac_simps)
qed

lemma step3_agrees:
  assumes "schedules_agree i L M" "i < 64"
  shows "fst (sha256_step (v, L) i) = fst (d64_step3 (v, M) i) \<and>
    schedules_agree (Suc i) (snd (sha256_step (v, L) i)) (snd (d64_step3 (v, M) i))"
proof -
  have M: "length M = 16" and L: "L = take (max 8 (i - 16)) M @ drop (max 8 (i - 16) - 8) pad_words"
    using assms(1) by (simp_all add: schedules_agree_def Let_def)
  from M obtain a b c d e f g h a' b' c' d' e' f' g' h'
    where m: "M = [a, b, c, d, e, f, g, h, a', b', c', d', e', f', g', h']" by (rule length_16_cases)
  consider "i < 16" | "16 \<le> i" "i < 32" | "32 \<le> i" by linarith
  then show ?thesis
  proof cases
    case 1
    then have "i \<in> set [0..<16]" by simp
    then show ?thesis
      by (auto simp: upt_rec L m sha256_step_def d64_step3_def sha256_rounds_def sha256_schedule_def schedules_agree_def
          pad_words_def d64_rounds3_def round_8_constant)
  next
    case 2
    have j: "i mod 16 = i - 16" using 2 by (simp add: mod_if)
    obtain k where k: "sha256_rounds ! i = (k, i - 16)"
      using 2 rounds_index [of i] by (cases "sha256_rounds ! i") (simp add: j)
    let ?M = "d64_schedule3 i M"
    have s: "sha256_schedule i (i - 16) L = take (max 8 (i - 15)) ?M @ drop (max 8 (i - 15) - 8) pad_words"
      unfolding L by (rule schedule3_agrees [OF 2 m])
    moreover have l: "length ?M = 16" using M by (simp add: d64_schedule3_def sha256_schedule_def)
    moreover have "i - 16 < max 8 (i - 15)" "i - 16 < 16" using 2 by linarith+
    ultimately have "sha256_schedule i (i - 16) L ! (i - 16) = ?M ! (i - 16)" by (simp add: nth_append)
    with 2 s l show ?thesis
      by (simp add: sha256_step_def d64_step3_def schedules_agree_def j k Let_def)
  next
    case 3
    then have "L = M" using L M by (simp add: pad_words_def)
    moreover have "snd (sha256_rounds ! i) = i mod 16" using assms(2) by (rule rounds_index)
    ultimately show ?thesis
      using 3 M by (auto simp: sha256_step_def d64_step3_def d64_schedule3_def sha256_schedule_def schedules_agree_def pad_words_def
          split: prod.split)
  qed
qed

lemma foldl_step3:
  assumes "schedules_agree i L M" "i + n \<le> 64"
  shows "fst (foldl sha256_step (v, L) [i..<i + n]) = fst (foldl d64_step3 (v, M) [i..<i + n])"
  using assms
proof (induction n arbitrary: i v L M)
  case (Suc n)
  obtain v1 L1 where l: "sha256_step (v, L) i = (v1, L1)" by (rule prod.exhaust)
  obtain v2 M1 where m: "d64_step3 (v, M) i = (v2, M1)" by (rule prod.exhaust)
  have "v2 = v1" "schedules_agree (Suc i) L1 M1" using step3_agrees [of i L M v] Suc.prems by (simp_all add: l m)
  moreover have "[i..<i + Suc n] = i # [Suc i..<Suc i + n]" by (simp add: upt_conv_Cons del: upt_Suc)
  ultimately show ?case using Suc.IH [of "Suc i" L1 M1 v1] Suc.prems(2) by (simp add: l m del: upt_Suc)
qed simp

section \<open>The padded messages\<close>

lemma digest_64:
  assumes "length m = 64"
  shows "md_digest sha256_Transform s WriteBE64 m =
    sha256_Transform (sha256_Transform s m) (0x80 # replicate 55 0 @ WriteBE64 512)"
proof -
  have "length (WriteBE64 x) = 8" for x by (simp add: WriteBE64_def)
  then show ?thesis
    using assms by (simp add: md_digest_def md_padding_def blocks64_def upt_rec)
qed

lemma digest_32:
  assumes "length m = 32"
  shows "md_digest sha256_Transform s WriteBE64 m = sha256_Transform s (m @ 0x80 # replicate 23 0 @ WriteBE64 256)"
proof -
  have "length (WriteBE64 x) = 8" for x by (simp add: WriteBE64_def)
  then show ?thesis
    using assms by (simp add: md_digest_def md_padding_def blocks64_def upt_rec)
qed

lemma ReadBE32_WriteBE32 [simp]: "ReadBE32 (WriteBE32 x @ bs) = x"
proof -
  have "unat x < 256 ^ 4" using unsigned_less [of x, where ?'a = nat] by simp
  then show ?thesis by (simp add: ReadBE32_def WriteBE32_def length_le_bytes)
qed

lemma chunk_words_digest:
  "chunk_words ReadBE32 (concat (map WriteBE32 (vars_list t)) @ 0x80 # replicate 23 0 @ WriteBE64 256) = vars_list t @ pad_words"
proof -
  obtain a b c d e f g h where t: "t = (a, b, c, d, e, f, g, h)" by (rule vars_list.cases)
  have l: "length (WriteBE32 x) = 4" for x by simp
  show ?thesis
    by (simp add: t chunk_words_def upt_rec l pad_words_def drop_append)
       (simp add: ReadBE32_def WriteBE64_def le_bytes_8 drop_Cons' take_Cons' le_val_append)
qed

section \<open>Properties\<close>

lemma add_vars_commute: "add_vars s t = add_vars t s"
  by (cases s rule: vars_list.cases; cases t rule: vars_list.cases) (simp add: add.commute)

lemma length_vars_list [simp]: "length (vars_list t) = 8"
  by (cases t rule: vars_list.cases) simp

lemma length_steps: "length (snd (foldl sha256_step (v, w) is)) = length w"
  by (induction "is" arbitrary: v w) (simp_all add: sha256_step_def sha256_schedule_def Let_def split: prod.split)

lemma Initialize_d64: "sha256_Initialize = vars_list d64_init"
  by (simp add: sha256_Initialize_def d64_init_def)

lemma TransformD64_HASH256:
  assumes "length inp = 64"
  shows "TransformD64 inp = HASH256 inp"
proof -
  define st1 where "st1 = foldl sha256_step (d64_init, chunk_words ReadBE32 inp) [0..<64]"
  define t where "t = add_vars (fst st1) d64_init"
  define u where "u = add_vars t (foldl sha256_Round t d64_rounds2)"
  define st3 where "st3 = foldl d64_step3 (d64_init, vars_list u @ drop 8 (snd st1)) [0..<64]"
  have "sha256_Transform sha256_Initialize inp = vars_list t"
    by (simp only: Initialize_d64 Transform_args t_def st1_def foldl_step_args add_vars_commute [of d64_init])
  then have 1: "sha256_spec inp = concat (map WriteBE32 (vars_list u))"
    by (simp only: sha256_spec_def digest_64 [OF assms] Transform_args chunk_words_padding round_args_padding u_def)
  have "length (snd st1) = 16" by (simp only: st1_def length_steps) (simp add: chunk_words_def)
  then have "schedules_agree 0 (vars_list u @ pad_words) (vars_list u @ drop 8 (snd st1))"
    by (simp add: schedules_agree_def pad_words_def)
  from foldl_step3 [OF this, of 64 d64_init]
  have "fst (foldl sha256_step (d64_init, vars_list u @ pad_words) [0..<64]) = fst st3" by (simp only: st3_def add_0 le_refl)
  then have "sha256_Transform sha256_Initialize (sha256_spec inp @ 0x80 # replicate 23 0 @ WriteBE64 256) =
      vars_list (add_vars (fst st3) d64_init)"
    by (simp only: Initialize_d64 Transform_args 1 chunk_words_digest foldl_step_args add_vars_commute [of d64_init])
  then have "HASH256 inp = concat (map WriteBE32 (vars_list (add_vars (fst st3) d64_init)))"
    by (simp only: hash_specs sha256_spec_def [of "sha256_spec inp"] digest_32 [OF length_specs(1)])
  then show ?thesis by (simp only: TransformD64_def Let_def st1_def t_def u_def st3_def)
qed

lemma chunk_words_take: "chunk_words ReadBE32 (take 64 inp) = chunk_words ReadBE32 inp"
  by (auto simp: chunk_words_def ReadBE32_def drop_take min_def)

lemma TransformD64_take: "TransformD64 inp = TransformD64 (take 64 inp)"
  by (simp only: TransformD64_def chunk_words_take)

lemma SHA256D64_blocks:
  assumes "length inp = 64 * blocks"
  shows "SHA256D64 blocks inp = concat (map (\<lambda>i. HASH256 (take 64 (drop (64 * i) inp))) [0..<blocks])"
  using assms
proof (induction blocks arbitrary: inp)
  case (Suc blocks)
  have "TransformD64 (take 64 inp) = HASH256 (take 64 inp)" using Suc.prems by (intro TransformD64_HASH256) simp
  moreover have "TransformD64 inp = TransformD64 (take 64 inp)" by (rule TransformD64_take)
  moreover have "map (\<lambda>i. HASH256 (take 64 (drop (64 * i) inp))) [0..<Suc blocks]
      = HASH256 (take 64 inp) # map (\<lambda>i. HASH256 (take 64 (drop (64 * i) (drop 64 inp)))) [0..<blocks]"
    by (simp add: upt_conv_Cons map_Suc_upt [symmetric] comp_def add.commute del: upt_Suc)
  ultimately show ?case using Suc.IH [of "drop 64 inp"] Suc.prems by simp
qed simp

text \<open>
C24: The specialised double hash is the double hash. For \<open>blocks\<close> inputs of 64 bytes, \<open>SHA256D64\<close>, with its folded padding, precomputed
round constants and shortened schedule, writes the digests that \<open>CHash256\<close> computes for each of them.
\<close>

theorem SHA256D64_correct:
  assumes "length inp = 64 * blocks"
  shows "SHA256D64 blocks inp = concat (map (\<lambda>i. HASH256 (take 64 (drop (64 * i) inp))) [0..<blocks])"
  using assms by (rule SHA256D64_blocks)

theorem SHA256D64_correct_witness:
  "SHA256D64 1 (replicate 64 0) = HASH256 (replicate 64 0)"
  using SHA256D64_correct [of "replicate 64 0" 1] by simp

end
