(* ===== verification/Merkle.thy ===== *)
theory Merkle
  imports Sha256D64 Transaction
begin

text \<open>
  Merkle roots (\<open>consensus/merkle.cpp\<close>): the level-wise computation with the test for repeated hashes at the end of a level, and
  the root over the transactions of a block. A \<open>uint256\<close> is a list of 32 bytes.
\<close>

section \<open>The computation\<close>

text \<open>The test of one level, \<open>pos\<close> and \<open>pos + 1\<close> for even \<open>pos\<close>.\<close>

fun level_mutated :: "bytes list \<Rightarrow> bool" where
  "level_mutated (a # b # hashes) = (a = b \<or> level_mutated hashes)"
| "level_mutated _ = False"

definition duplicate_last :: "bytes list \<Rightarrow> bytes list" where
  "duplicate_last hashes = (if odd (length hashes) then hashes @ [last hashes] else hashes)"

text \<open>
  \<open>SHA256D64\<close> works in place: it reads each 64-byte input completely before it writes the 32 bytes of its digest, which
  never lie behind the input. The vector is seen as the bytes of its elements and cut again into elements.
\<close>

definition hash_level :: "bytes list \<Rightarrow> bytes list" where
  "hash_level hashes =
     (let out = SHA256D64 (length hashes div 2) (concat hashes)
      in map (\<lambda>i. take 32 (drop (32 * i) out)) [0..<length hashes div 2])"

lemma length_duplicate_last: "hashes \<noteq> [] \<Longrightarrow> length (duplicate_last hashes) = 2 * ((length hashes + 1) div 2)"
  by (auto simp: duplicate_last_def elim: oddE evenE)

lemma length_hash_level [simp]: "length (hash_level hashes) = length hashes div 2"
  by (simp add: hash_level_def Let_def)

lemma duplicate_last_less: "1 < length hashes \<Longrightarrow> length (duplicate_last hashes) div 2 < length hashes"
  by (cases "hashes = []") (auto simp: length_duplicate_last)

function merkle_loop :: "bytes list \<Rightarrow> bool \<Rightarrow> bytes list \<times> bool" where
  "merkle_loop hashes mutation =
     (if length hashes > 1
      then merkle_loop (hash_level (duplicate_last hashes)) (mutation \<or> level_mutated hashes)
      else (hashes, mutation))"
  by pat_completeness auto
termination
  by (relation "measure (\<lambda>(hashes, _). length hashes)") (auto simp: duplicate_last_less)

declare merkle_loop.simps [simp del]

definition ComputeMerkleRoot :: "bytes list \<Rightarrow> bytes \<times> bool" where
  "ComputeMerkleRoot hashes =
     (case merkle_loop hashes False of (hs', mutated) \<Rightarrow> (if hs' = [] then uint256_null else hs' ! 0, mutated))"

definition BlockMerkleRoot :: "CTransaction list \<Rightarrow> bytes \<times> bool" where
  "BlockMerkleRoot vtx = ComputeMerkleRoot (map GetHash vtx)"

section \<open>Levels as lists of pairs\<close>

fun pair_up :: "bytes list \<Rightarrow> bytes list" where
  "pair_up (a # b # hashes) = (a @ b) # pair_up hashes"
| "pair_up _ = []"

definition hashes_ok :: "bytes list \<Rightarrow> bool" where
  "hashes_ok hashes \<longleftrightarrow> list_all (\<lambda>h. length h = 32) hashes"

lemma concat_hashes: "hashes_ok hashes \<Longrightarrow> length (concat hashes) = 32 * length hashes"
  by (induction hashes) (auto simp: hashes_ok_def)

lemma pair_up_blocks:
  "hashes_ok hashes \<Longrightarrow> map (\<lambda>i. take 64 (drop (64 * i) (concat hashes))) [0..<length hashes div 2] = pair_up hashes"
proof (induction hashes rule: pair_up.induct)
  case (1 a b hashes)
  have "[0..<length (a # b # hashes) div 2] = 0 # map Suc [0..<length hashes div 2]"
    by (simp add: upt_conv_Cons map_Suc_upt del: upt_Suc)
  with 1 show ?case by (simp add: hashes_ok_def comp_def)
qed (simp_all add: hashes_ok_def)

lemma map_take32_concat:
  "(\<And>x. length (f x) = 32) \<Longrightarrow> map (\<lambda>i. take 32 (drop (32 * i) (concat (map f xs)))) [0..<length xs] = map f xs"
proof (induction xs)
  case (Cons x xs)
  have "[0..<length (x # xs)] = 0 # map Suc [0..<length xs]" by (simp add: upt_conv_Cons map_Suc_upt del: upt_Suc)
  with Cons show ?case by (simp add: comp_def)
qed simp

lemma length_pair_up [simp]: "length (pair_up hashes) = length hashes div 2"
  by (induction hashes rule: pair_up.induct) simp_all

lemma hash_level_pairs:
  assumes "hashes_ok hashes" "even (length hashes)"
  shows "hash_level hashes = map HASH256 (pair_up hashes)"
proof -
  have "length (concat hashes) = 64 * (length hashes div 2)" using concat_hashes [OF assms(1)] assms(2) by (auto elim: evenE)
  then have "SHA256D64 (length hashes div 2) (concat hashes) = concat (map HASH256 (pair_up hashes))"
    by (simp add: SHA256D64_blocks pair_up_blocks [OF assms(1), symmetric] comp_def)
  then show ?thesis using map_take32_concat [of HASH256 "pair_up hashes"] by (simp add: hash_level_def)
qed

section \<open>The root binds the leaves\<close>

text \<open>The number of hashing levels and the messages that are hashed on them.\<close>

function merkle_levels :: "nat \<Rightarrow> nat" where
  "merkle_levels n = (if n > 1 then Suc (merkle_levels ((n + 1) div 2)) else 0)"
  by pat_completeness auto
termination by (relation "measure id") auto

function merkle_messages :: "bytes list \<Rightarrow> bytes set" where
  "merkle_messages hashes =
     (if length hashes > 1
      then set (pair_up (duplicate_last hashes)) \<union> merkle_messages (map HASH256 (pair_up (duplicate_last hashes)))
      else {})"
  by pat_completeness auto
termination by (relation "measure length") (auto simp: duplicate_last_less)

declare merkle_levels.simps [simp del] merkle_messages.simps [simp del]

lemma hashes_ok_duplicate: "hashes_ok hashes \<Longrightarrow> hashes \<noteq> [] \<Longrightarrow> hashes_ok (duplicate_last hashes)"
  by (auto simp: hashes_ok_def duplicate_last_def list_all_iff)

lemma hashes_ok_level: "hashes_ok (map HASH256 xs)"
  by (simp add: hashes_ok_def list_all_iff)

lemma merkle_loop_step:
  assumes "hashes_ok hashes" "1 < length hashes"
  shows "merkle_loop hashes mutation =
    merkle_loop (map HASH256 (pair_up (duplicate_last hashes))) (mutation \<or> level_mutated hashes)"
proof -
  have "hashes \<noteq> []" using assms(2) by auto
  then have "hash_level (duplicate_last hashes) = map HASH256 (pair_up (duplicate_last hashes))"
    using assms(1) by (intro hash_level_pairs hashes_ok_duplicate) (simp_all add: length_duplicate_last)
  then show ?thesis using assms(2) by (subst merkle_loop.simps) simp
qed

lemma merkle_loop_mutation:
  "merkle_loop hashes mutation = (fst (merkle_loop hashes False), mutation \<or> snd (merkle_loop hashes False))"
proof (induction "length hashes" arbitrary: hashes mutation rule: less_induct)
  case less
  show ?case
  proof (cases "length hashes > 1")
    case True
    let ?h = "hash_level (duplicate_last hashes)"
    have "length ?h < length hashes" using duplicate_last_less [OF True] by simp
    note IH = less [OF this]
    have step: "merkle_loop hashes b = merkle_loop ?h (b \<or> level_mutated hashes)" for b
      using True by (subst merkle_loop.simps) simp
    show ?thesis unfolding step [of mutation] step [of False] IH [of "mutation \<or> level_mutated hashes"]
        IH [of "False \<or> level_mutated hashes"] by simp
  next
    case False
    then show ?thesis by (simp add: merkle_loop.simps)
  qed
qed

lemma pair_up_inj:
  assumes "hashes_ok xs" "hashes_ok ys" "even (length xs)" "even (length ys)" "pair_up xs = pair_up ys"
  shows "xs = ys"
  using assms
proof (induction xs arbitrary: ys rule: pair_up.induct)
  case (1 a b xs)
  from "1.prems"(5) obtain c d zs where ys: "ys = c # d # zs" by (cases ys rule: pair_up.cases) simp_all
  have "length a = 32" "length c = 32" and ab: "a @ b = c @ d" "pair_up xs = pair_up zs"
    using "1.prems" by (simp_all add: ys hashes_ok_def)
  then have "a = c" "b = d" by simp_all
  moreover have "xs = zs" by (rule "1.IH") (use "1.prems" ab in \<open>simp_all add: ys hashes_ok_def\<close>)
  ultimately show ?case by (simp add: ys)
next
  case "2_1"
  then show ?case by (cases ys rule: pair_up.cases) simp_all
qed simp

lemma level_mutated_snoc: "odd (length xs) \<Longrightarrow> level_mutated (xs @ [last xs])"
  by (induction xs rule: level_mutated.induct) auto

lemma duplicate_last_inj:
  assumes "duplicate_last xs = duplicate_last ys" "\<not> level_mutated xs" "\<not> level_mutated ys"
  shows "xs = ys"
  using assms level_mutated_snoc [of xs] level_mutated_snoc [of ys] by (auto simp: duplicate_last_def split: if_splits)

lemma merkle_levels_0: "merkle_levels n = 0 \<longleftrightarrow> n \<le> 1"
  by (simp add: merkle_levels.simps [of n])

lemma merkle_loop_inj:
  assumes "hashes_ok xs" "hashes_ok ys" "merkle_levels (length xs) = merkle_levels (length ys)"
    and "merkle_loop xs False = (r, False)" "merkle_loop ys False = (r, False)"
    and "inj_on HASH256 (merkle_messages xs \<union> merkle_messages ys)"
  shows "xs = ys"
  using assms
proof (induction "length xs" arbitrary: xs ys rule: less_induct)
  case less
  show ?case
  proof (cases "length xs > 1")
    case False
    then have "\<not> length ys > 1" using less.prems(3) merkle_levels_0 [of "length xs"] merkle_levels_0 [of "length ys"] by linarith
    with False less.prems(4,5) show ?thesis by (simp add: merkle_loop.simps)
  next
    case True
    then have ly: "length ys > 1" using less.prems(3) merkle_levels_0 [of "length xs"] merkle_levels_0 [of "length ys"] by linarith
    let ?p = "\<lambda>hashes. pair_up (duplicate_last hashes)"
    have ne: "xs \<noteq> []" "ys \<noteq> []" using True ly by auto
    have mx: "\<not> level_mutated xs" "merkle_loop (map HASH256 (?p xs)) False = (r, False)"
      using merkle_loop_step [OF less.prems(1) True, of False] less.prems(4) merkle_loop_mutation [of "map HASH256 (?p xs)" "level_mutated xs"] by auto
    have my: "\<not> level_mutated ys" "merkle_loop (map HASH256 (?p ys)) False = (r, False)"
      using merkle_loop_step [OF less.prems(2) ly, of False] less.prems(5) merkle_loop_mutation [of "map HASH256 (?p ys)" "level_mutated ys"] by auto
    have msgs: "merkle_messages xs = set (?p xs) \<union> merkle_messages (map HASH256 (?p xs))"
      "merkle_messages ys = set (?p ys) \<union> merkle_messages (map HASH256 (?p ys))"
      using True ly merkle_messages.simps [of xs] merkle_messages.simps [of ys] by simp_all
    have "map HASH256 (?p xs) = map HASH256 (?p ys)"
    proof (rule less.hyps)
      show "length (map HASH256 (?p xs)) < length xs" using True by (simp add: duplicate_last_less)
      show "merkle_levels (length (map HASH256 (?p xs))) = merkle_levels (length (map HASH256 (?p ys)))"
        using less.prems(3) True ly ne by (simp add: length_duplicate_last merkle_levels.simps [of "length xs"] merkle_levels.simps [of "length ys"])
      show "inj_on HASH256 (merkle_messages (map HASH256 (?p xs)) \<union> merkle_messages (map HASH256 (?p ys)))"
        using less.prems(6) by (rule inj_on_subset) (auto simp: msgs)
    qed (simp_all add: hashes_ok_level mx my)
    moreover have "inj_on HASH256 (set (?p xs) \<union> set (?p ys))" using less.prems(6) by (rule inj_on_subset) (auto simp: msgs)
    ultimately have "?p xs = ?p ys" by (simp only: inj_on_map_eq_map)
    moreover have "even (length (duplicate_last xs))" "even (length (duplicate_last ys))"
      using ne by (simp_all add: length_duplicate_last)
    ultimately have "duplicate_last xs = duplicate_last ys"
      using pair_up_inj [OF hashes_ok_duplicate [OF less.prems(1) ne(1)] hashes_ok_duplicate [OF less.prems(2) ne(2)]] by blast
    then show ?thesis using mx(1) my(1) by (rule duplicate_last_inj)
  qed
qed

lemma merkle_loop_single: "hashes \<noteq> [] \<Longrightarrow> \<exists>h. fst (merkle_loop hashes mutation) = [h]"
proof (induction hashes mutation rule: merkle_loop.induct)
  case (1 hashes mutation)
  show ?case
  proof (cases "length hashes > 1")
    case True
    have "hash_level (duplicate_last hashes) \<noteq> []"
      using length_duplicate_last [OF 1(2)] True by (simp flip: length_greater_0_conv)
    with 1 True show ?thesis by (subst merkle_loop.simps) simp
  next
    case False
    with 1(2) show ?thesis by (subst merkle_loop.simps) (cases hashes; simp)
  qed
qed

text \<open>
  Why the flag is needed: repeating the last hash of an odd level does not change the root, but is reported.
\<close>

lemma merkle_duplicate:
  assumes "odd (length hashes)" "1 < length hashes"
  shows "fst (ComputeMerkleRoot (hashes @ [last hashes])) = fst (ComputeMerkleRoot hashes)"
    "snd (ComputeMerkleRoot (hashes @ [last hashes]))"
proof -
  have d: "duplicate_last (hashes @ [last hashes]) = duplicate_last hashes" using assms(1) by (simp add: duplicate_last_def)
  have ne: "hashes \<noteq> []" using assms(2) by auto
  let ?h = "hash_level (duplicate_last hashes)"
  have "merkle_loop (hashes @ [last hashes]) False = merkle_loop ?h True" "merkle_loop hashes False = merkle_loop ?h (level_mutated hashes)"
    using assms ne level_mutated_snoc [OF assms(1)] by (simp_all add: merkle_loop.simps [of hashes] merkle_loop.simps [of "hashes @ _"] d)
  then show "fst (ComputeMerkleRoot (hashes @ [last hashes])) = fst (ComputeMerkleRoot hashes)"
    "snd (ComputeMerkleRoot (hashes @ [last hashes]))"
    using merkle_loop_mutation [of ?h True] merkle_loop_mutation [of ?h "level_mutated hashes"]
    by (simp_all add: ComputeMerkleRoot_def)
qed

text \<open>
  The root binds the transactions: two blocks with the same number of tree levels, the same root and no reported mutation contain the
  same transactions, unless the hash collides on the messages hashed for them.
\<close>

lemma merkle_root_inj:
  assumes "BlockMerkleRoot vtx1 = (root, False)" "BlockMerkleRoot vtx2 = (root, False)" "vtx1 \<noteq> []" "vtx2 \<noteq> []"
    and "merkle_levels (length vtx1) = merkle_levels (length vtx2)"
    and "inj_on HASH256 (merkle_messages (map GetHash vtx1) \<union> merkle_messages (map GetHash vtx2))"
    and "inj_on HASH256 (SerializeTx ` (set vtx1 \<union> set vtx2))"
  shows "map SerializeTx vtx1 = map SerializeTx vtx2"
proof -
  have loop: "merkle_loop (map GetHash vtx) False = ([root], False)" if "BlockMerkleRoot vtx = (root, False)" "vtx \<noteq> []" for vtx
    using that merkle_loop_single [of "map GetHash vtx" False]
    by (auto simp: BlockMerkleRoot_def ComputeMerkleRoot_def split: prod.splits)
  have "map GetHash vtx1 = map GetHash vtx2"
  proof (rule merkle_loop_inj)
    show "hashes_ok (map GetHash vtx1)" "hashes_ok (map GetHash vtx2)" by (simp_all add: hashes_ok_def list_all_iff GetHash_def)
  qed (use assms loop in simp_all)
  moreover have "GetHash = HASH256 \<circ> SerializeTx" by (rule ext) (simp add: GetHash_def)
  ultimately have "map HASH256 (map SerializeTx vtx1) = map HASH256 (map SerializeTx vtx2)" by simp
  moreover have "inj_on HASH256 (set (map SerializeTx vtx1) \<union> set (map SerializeTx vtx2))"
    using assms(7) by (simp add: image_Un)
  ultimately show ?thesis by (simp only: inj_on_map_eq_map)
qed

end
