(* ===== verification/Scrypt.thy ===== *)
theory Scrypt
  imports Hashing
begin

unbundle bit_operations_syntax

text \<open>
  Keyed hashes and scrypt: \<open>CHMAC_SHA256\<close> (\<open>crypto/hmac_sha256.cpp\<close>), the key derivation of
  \<open>crypto/hkdf_sha256_32.cpp\<close>, and the portable scrypt of \<open>crypto/scrypt.cpp\<close> with \<open>N = 1024\<close>, \<open>r = p = 1\<close>, which hashes
  block headers. scrypt calls the SHA-256 of OpenSSL, which is the record \<open>sha_ops\<close>; what is relied on is the contract \<open>hasher\<close>.
\<close>

section \<open>HMAC with the library's own SHA-256\<close>

record 'c hmac_ctx =
  ictx :: 'c
  octx :: 'c

definition hmac_rkey :: "bytes \<Rightarrow> bytes" where
  "hmac_rkey key =
     (if length key \<le> 64 then key @ replicate (64 - length key) 0
      else CSHA256_Finalize (CSHA256_Write CSHA256 key) @ replicate 32 0)"

definition CHMAC_SHA256 :: "bytes \<Rightarrow> hash_ctx hmac_ctx" where
  "CHMAC_SHA256 key =
     (let rkey1 = map (\<lambda>b. b XOR 0x5c) (hmac_rkey key);
          rkey2 = map (\<lambda>b. b XOR (0x5c XOR 0x36)) rkey1
      in \<lparr>ictx = CSHA256_Write CSHA256 rkey2, octx = CSHA256_Write CSHA256 rkey1\<rparr>)"

definition CHMAC_SHA256_Write :: "hash_ctx hmac_ctx \<Rightarrow> bytes \<Rightarrow> hash_ctx hmac_ctx" where
  "CHMAC_SHA256_Write c data = c\<lparr>ictx := CSHA256_Write (ictx c) data\<rparr>"

definition CHMAC_SHA256_Finalize :: "hash_ctx hmac_ctx \<Rightarrow> bytes" where
  "CHMAC_SHA256_Finalize c = CSHA256_Finalize (CSHA256_Write (octx c) (CSHA256_Finalize (ictx c)))"

definition HKDF_prk :: "bytes \<Rightarrow> bytes \<Rightarrow> bytes" where
  "HKDF_prk ikm salt = CHMAC_SHA256_Finalize (CHMAC_SHA256_Write (CHMAC_SHA256 salt) ikm)"

text \<open>\<open>None\<close> is the failed assertion on the size of \<open>info\<close>.\<close>

definition Expand32 :: "bytes \<Rightarrow> bytes \<Rightarrow> bytes option" where
  "Expand32 m_prk info =
     (if \<not> length info \<le> 128 then None
      else Some (CHMAC_SHA256_Finalize (CHMAC_SHA256_Write (CHMAC_SHA256_Write (CHMAC_SHA256 m_prk) info) [1])))"

section \<open>HMAC and PBKDF2 of the scrypt file\<close>

record 'c sha_ops =
  SHA256_Init :: 'c
  SHA256_Update :: "'c \<Rightarrow> bytes \<Rightarrow> 'c"
  SHA256_Final :: "'c \<Rightarrow> bytes"

definition xor_pad :: "byte \<Rightarrow> bytes \<Rightarrow> bytes" where
  "xor_pad c K = map2 (XOR) (take (length K) (replicate 64 c)) K @ drop (length K) (replicate 64 c)"

definition HMAC_SHA256_Init :: "'c sha_ops \<Rightarrow> bytes \<Rightarrow> 'c hmac_ctx" where
  "HMAC_SHA256_Init ops K =
     (let K' = (if length K > 64 then SHA256_Final ops (SHA256_Update ops (SHA256_Init ops) K) else K)
      in \<lparr>ictx = SHA256_Update ops (SHA256_Init ops) (xor_pad 0x36 K'),
          octx = SHA256_Update ops (SHA256_Init ops) (xor_pad 0x5c K')\<rparr>)"

definition HMAC_SHA256_Update :: "'c sha_ops \<Rightarrow> 'c hmac_ctx \<Rightarrow> bytes \<Rightarrow> 'c hmac_ctx" where
  "HMAC_SHA256_Update ops ctx inp = ctx\<lparr>ictx := SHA256_Update ops (ictx ctx) inp\<rparr>"

definition HMAC_SHA256_Final :: "'c sha_ops \<Rightarrow> 'c hmac_ctx \<Rightarrow> bytes" where
  "HMAC_SHA256_Final ops ctx = SHA256_Final ops (SHA256_Update ops (octx ctx) (SHA256_Final ops (ictx ctx)))"

text \<open>The loop over \<open>j\<close> from 2 to \<open>c\<close>.\<close>

fun pbkdf2_rounds :: "'c sha_ops \<Rightarrow> bytes \<Rightarrow> nat \<Rightarrow> bytes \<Rightarrow> bytes \<Rightarrow> bytes" where
  "pbkdf2_rounds ops passwd 0 U T = T"
| "pbkdf2_rounds ops passwd (Suc k) U T =
     (let U' = HMAC_SHA256_Final ops (HMAC_SHA256_Update ops (HMAC_SHA256_Init ops passwd) U)
      in pbkdf2_rounds ops passwd k U' (map2 (XOR) T U'))"

function pbkdf2_loop :: "'c sha_ops \<Rightarrow> bytes \<Rightarrow> 'c hmac_ctx \<Rightarrow> nat \<Rightarrow> nat \<Rightarrow> nat \<Rightarrow> bytes \<Rightarrow> bytes" where
  "pbkdf2_loop ops passwd PShctx c dkLen i buf =
     (if i * 32 < dkLen
      then let ivec = WriteBE32 (of_nat (i + 1));
               U = HMAC_SHA256_Final ops (HMAC_SHA256_Update ops PShctx ivec);
               T = pbkdf2_rounds ops passwd (c - 1) U U;
               clen = min 32 (dkLen - i * 32)
           in pbkdf2_loop ops passwd PShctx c dkLen (i + 1) (buf @ take clen T)
      else buf)"
  by pat_completeness auto
termination by (relation "measure (\<lambda>(_, _, _, _, dkLen, i, _). dkLen - i * 32)") auto

declare pbkdf2_loop.simps [simp del]

definition PBKDF2_SHA256 :: "'c sha_ops \<Rightarrow> bytes \<Rightarrow> bytes \<Rightarrow> nat \<Rightarrow> nat \<Rightarrow> bytes" where
  "PBKDF2_SHA256 ops passwd salt c dkLen =
     pbkdf2_loop ops passwd (HMAC_SHA256_Update ops (HMAC_SHA256_Init ops passwd) salt) c dkLen 0 []"

section \<open>The mixing function\<close>

text \<open>One statement \<open>x[t] ^= ROTL(x[a] + x[b], r)\<close> of the loop body, and the statements in their order.\<close>

definition salsa_stmt :: "u32 list \<Rightarrow> nat \<times> nat \<times> nat \<times> nat \<Rightarrow> u32 list" where
  "salsa_stmt x s = (case s of (t, a, b, r) \<Rightarrow> x[t := x ! t XOR rol32 (x ! a + x ! b) r])"

definition salsa_columns :: "(nat \<times> nat \<times> nat \<times> nat) list" where
  "salsa_columns =
     [(4, 0, 12, 7), (9, 5, 1, 7), (14, 10, 6, 7), (3, 15, 11, 7),
      (8, 4, 0, 9), (13, 9, 5, 9), (2, 14, 10, 9), (7, 3, 15, 9),
      (12, 8, 4, 13), (1, 13, 9, 13), (6, 2, 14, 13), (11, 7, 3, 13),
      (0, 12, 8, 18), (5, 1, 13, 18), (10, 6, 2, 18), (15, 11, 7, 18)]"

definition salsa_rows :: "(nat \<times> nat \<times> nat \<times> nat) list" where
  "salsa_rows =
     [(1, 0, 3, 7), (6, 5, 4, 7), (11, 10, 9, 7), (12, 15, 14, 7),
      (2, 1, 0, 9), (7, 6, 5, 9), (8, 11, 10, 9), (13, 12, 15, 9),
      (3, 2, 1, 13), (4, 7, 6, 13), (9, 8, 11, 13), (14, 13, 12, 13),
      (0, 3, 2, 18), (5, 4, 7, 18), (10, 9, 8, 18), (15, 14, 13, 18)]"

definition salsa_double_round :: "u32 list \<Rightarrow> u32 list" where
  "salsa_double_round x = foldl salsa_stmt (foldl salsa_stmt x salsa_columns) salsa_rows"

definition xor_salsa8 :: "u32 list \<Rightarrow> u32 list \<Rightarrow> u32 list" where
  "xor_salsa8 B Bx = (let B' = map2 (XOR) B Bx; x = (salsa_double_round ^^ 4) B' in map2 (+) B' x)"

text \<open>The two calls on the halves of \<open>X\<close>.\<close>

definition mix_halves :: "u32 list \<Rightarrow> u32 list" where
  "mix_halves X = (let lo = xor_salsa8 (take 16 X) (drop 16 X); hi = xor_salsa8 (drop 16 X) lo in lo @ hi)"

text \<open>The loops over \<open>i\<close>; \<open>V\<close> is the scratchpad cut into its rows of 32 words.\<close>

fun scrypt_fill :: "nat \<Rightarrow> u32 list \<Rightarrow> u32 list list \<Rightarrow> u32 list \<times> u32 list list" where
  "scrypt_fill 0 X V = (X, V)"
| "scrypt_fill (Suc n) X V = scrypt_fill n (mix_halves X) (V @ [X])"

fun scrypt_mix :: "nat \<Rightarrow> u32 list list \<Rightarrow> u32 list \<Rightarrow> u32 list" where
  "scrypt_mix 0 V X = X"
| "scrypt_mix (Suc n) V X = scrypt_mix n V (mix_halves (map2 (XOR) X (V ! unat (X ! 16 AND 1023))))"

definition scrypt_1024_1_1_256 :: "'c sha_ops \<Rightarrow> bytes \<Rightarrow> bytes" where
  "scrypt_1024_1_1_256 ops inp =
     (let B = PBKDF2_SHA256 ops inp inp 1 128;
          X0 = map (\<lambda>k. ReadLE32 (drop (4 * k) B)) [0..<32];
          (X1, V) = scrypt_fill 1024 X0 [];
          X2 = scrypt_mix 1024 V X1
      in PBKDF2_SHA256 ops inp (concat (map WriteLE32 X2)) 1 32)"

section \<open>The standards\<close>

definition hmac_spec :: "(bytes \<Rightarrow> bytes) \<Rightarrow> bytes \<Rightarrow> bytes \<Rightarrow> bytes" where
  "hmac_spec H key m =
     (let k = (if length key \<le> 64 then key else H key);
          k0 = k @ replicate (64 - length k) 0
      in H (map (\<lambda>b. b XOR 0x5c) k0 @ H (map (\<lambda>b. b XOR 0x36) k0 @ m)))"

text \<open>\<open>U\<^sub>1, U\<^sub>2, ...\<close> of PBKDF2, their exclusive or, and the derived key.\<close>

fun pbkdf2_U :: "(bytes \<Rightarrow> bytes) \<Rightarrow> bytes \<Rightarrow> nat \<Rightarrow> bytes" where
  "pbkdf2_U prf m 0 = prf m"
| "pbkdf2_U prf m (Suc j) = prf (pbkdf2_U prf m j)"

definition pbkdf2_F :: "(bytes \<Rightarrow> bytes) \<Rightarrow> bytes \<Rightarrow> nat \<Rightarrow> nat \<Rightarrow> bytes" where
  "pbkdf2_F prf salt c i =
     (let m = salt @ WriteBE32 (of_nat i)
      in foldl (map2 (XOR)) (pbkdf2_U prf m 0) (map (pbkdf2_U prf m) [1..<c]))"

definition pbkdf2_spec :: "(bytes \<Rightarrow> bytes) \<Rightarrow> bytes \<Rightarrow> nat \<Rightarrow> nat \<Rightarrow> bytes" where
  "pbkdf2_spec prf salt c dkLen = take dkLen (concat (map (pbkdf2_F prf salt c) [1..<(dkLen + 31) div 32 + 1]))"

text \<open>Salsa20/8: four double rounds of quarter rounds on the columns and on the rows of the state.\<close>

definition quarterround :: "u32 list \<Rightarrow> nat \<times> nat \<times> nat \<times> nat \<Rightarrow> u32 list" where
  "quarterround x q =
     (case q of (i0, i1, i2, i3) \<Rightarrow>
        let z1 = x ! i1 XOR rol32 (x ! i0 + x ! i3) 7;
            z2 = x ! i2 XOR rol32 (z1 + x ! i0) 9;
            z3 = x ! i3 XOR rol32 (z2 + z1) 13;
            z0 = x ! i0 XOR rol32 (z3 + z2) 18
        in x[i0 := z0, i1 := z1, i2 := z2, i3 := z3])"

definition columnround :: "u32 list \<Rightarrow> u32 list" where
  "columnround x = foldl quarterround x [(0, 4, 8, 12), (5, 9, 13, 1), (10, 14, 2, 6), (15, 3, 7, 11)]"

definition rowround :: "u32 list \<Rightarrow> u32 list" where
  "rowround x = foldl quarterround x [(0, 1, 2, 3), (5, 6, 7, 4), (10, 11, 8, 9), (15, 12, 13, 14)]"

definition salsa20_8 :: "u32 list \<Rightarrow> u32 list" where
  "salsa20_8 x = map2 (+) x (((rowround \<circ> columnround) ^^ 4) x)"

definition blockmix :: "u32 list \<Rightarrow> u32 list" where
  "blockmix B =
     (let Y0 = salsa20_8 (map2 (XOR) (drop 16 B) (take 16 B)); Y1 = salsa20_8 (map2 (XOR) Y0 (drop 16 B)) in Y0 @ Y1)"

definition romix_step :: "nat \<Rightarrow> u32 list \<Rightarrow> u32 list \<Rightarrow> u32 list" where
  "romix_step N B X = blockmix (map2 (XOR) X ((blockmix ^^ (unat (X ! 16) mod N)) B))"

definition romix :: "nat \<Rightarrow> u32 list \<Rightarrow> u32 list" where
  "romix N B = (romix_step N B ^^ N) ((blockmix ^^ N) B)"

definition scrypt_spec :: "(bytes \<Rightarrow> bytes) \<Rightarrow> bytes \<Rightarrow> bytes \<Rightarrow> bytes" where
  "scrypt_spec H passwd salt =
     (let B = pbkdf2_spec (hmac_spec H passwd) salt 1 128;
          X = romix 1024 (map (\<lambda>k. ReadLE32 (drop (4 * k) B)) [0..<32])
      in pbkdf2_spec (hmac_spec H passwd) (concat (map WriteLE32 X)) 1 32)"

section \<open>The code computes the standards\<close>

lemma xor_pad_map: "length K \<le> 64 \<Longrightarrow> xor_pad c K = map (\<lambda>b. b XOR c) (K @ replicate (64 - length K) 0)"
  by (rule nth_equalityI) (auto simp: xor_pad_def nth_append xor.commute)

text \<open>Any streaming hash gives a streaming HMAC.\<close>

context hasher
begin

lemma hmac_hasher:
  assumes "ipad = map (\<lambda>b. b XOR 0x36) k0" "opad = map (\<lambda>b. b XOR 0x5c) k0"
    and "k0 = (let k = (if length key \<le> 64 then key else digest key) in k @ replicate (64 - length k) 0)"
  shows "hasher \<lparr>ictx = wr init ipad, octx = wr init opad\<rparr> (\<lambda>c m. c\<lparr>ictx := wr (ictx c) m\<rparr>)
    (\<lambda>c. fin (wr (octx c) (fin (ictx c)))) (hmac_spec digest key)"
proof
  fix chunks
  have "foldl (\<lambda>c m. c\<lparr>ictx := wr (ictx c) m\<rparr>) \<lparr>ictx = a, octx = b\<rparr> chunks = \<lparr>ictx = foldl wr a chunks, octx = b\<rparr>" for a b
    by (induction chunks arbitrary: a) auto
  moreover have "fin (foldl wr (wr init ipad) chunks) = digest (ipad @ concat chunks)"
    using fin_writes [of "ipad # chunks"] by simp
  moreover have "fin (wr (wr init opad) m) = digest (opad @ m)" for m
    using fin_writes [of "[opad, m]"] by simp
  ultimately show "fin (wr (octx (foldl (\<lambda>c m. c\<lparr>ictx := wr (ictx c) m\<rparr>) \<lparr>ictx = wr init ipad, octx = wr init opad\<rparr> chunks))
      (fin (ictx (foldl (\<lambda>c m. c\<lparr>ictx := wr (ictx c) m\<rparr>) \<lparr>ictx = wr init ipad, octx = wr init opad\<rparr> chunks)))) =
    hmac_spec digest key (concat chunks)"
    by (simp add: hmac_spec_def assms Let_def)
qed

end

lemma hmac_rkey_spec:
  "hmac_rkey key = (let k = (if length key \<le> 64 then key else sha256_spec key) in k @ replicate (64 - length k) 0)"
  by (simp add: hmac_rkey_def Let_def sha256_hasher.fin_write length_specs)

interpretation hmac_sha256: hasher "CHMAC_SHA256 key" CHMAC_SHA256_Write CHMAC_SHA256_Finalize "hmac_spec sha256_spec key" for key
proof -
  have "map (\<lambda>b. b XOR (0x5c XOR 0x36)) (map (\<lambda>b. b XOR 0x5c) (hmac_rkey key)) = map (\<lambda>b. b XOR 0x36) (hmac_rkey key)"
    by (simp add: comp_def xor.assoc)
  then show "hasher (CHMAC_SHA256 key) CHMAC_SHA256_Write CHMAC_SHA256_Finalize (hmac_spec sha256_spec key)"
    unfolding CHMAC_SHA256_def CHMAC_SHA256_Write_def [abs_def] CHMAC_SHA256_Finalize_def [abs_def] Let_def
    by (simp only:) (rule sha256_hasher.hmac_hasher [OF refl refl hmac_rkey_spec])
qed

text \<open>The contract of the SHA-256 of OpenSSL.\<close>

definition sha_ops_ok :: "'c sha_ops \<Rightarrow> (bytes \<Rightarrow> bytes) \<Rightarrow> bool" where
  "sha_ops_ok ops H \<longleftrightarrow>
     hasher (SHA256_Init ops) (SHA256_Update ops) (SHA256_Final ops) H \<and> (\<forall>m. length (H m) = 32)"

lemma HMAC_hasher:
  assumes "sha_ops_ok ops H"
  shows "hasher (HMAC_SHA256_Init ops key) (HMAC_SHA256_Update ops) (HMAC_SHA256_Final ops) (hmac_spec H key)"
proof -
  have h: "hasher (SHA256_Init ops) (SHA256_Update ops) (SHA256_Final ops) H" and len: "\<And>m. length (H m) = 32"
    using assms by (simp_all add: sha_ops_ok_def)
  define k where "k = (if length key \<le> 64 then key else H key)"
  have k: "(if 64 < length key then SHA256_Final ops (SHA256_Update ops (SHA256_Init ops) key) else key) = k"
    by (simp add: k_def hasher.fin_write [OF h])
  have "length k \<le> 64" by (simp add: k_def len)
  note pads = xor_pad_map [OF this]
  show ?thesis
    unfolding HMAC_SHA256_Init_def HMAC_SHA256_Update_def [abs_def] HMAC_SHA256_Final_def [abs_def] k Let_def pads
    by (rule hasher.hmac_hasher [OF h refl refl]) (simp add: k_def Let_def)
qed

lemma length_hmac_spec: "(\<And>m. length (H m) = 32) \<Longrightarrow> length (hmac_spec H key m) = 32"
  by (simp add: hmac_spec_def Let_def)

lemma hmac_two_writes:
  assumes "sha_ops_ok ops H"
  shows "HMAC_SHA256_Final ops (HMAC_SHA256_Update ops (HMAC_SHA256_Init ops key) m) = hmac_spec H key m"
    and "HMAC_SHA256_Final ops (HMAC_SHA256_Update ops (HMAC_SHA256_Update ops (HMAC_SHA256_Init ops key) m) m') = hmac_spec H key (m @ m')"
  using hasher.fin_writes [OF HMAC_hasher [OF assms], of key "[m]"] hasher.fin_writes [OF HMAC_hasher [OF assms], of key "[m, m']"]
  by simp_all

lemma pbkdf2_rounds_spec:
  assumes "sha_ops_ok ops H"
  shows "pbkdf2_rounds ops passwd k (pbkdf2_U (hmac_spec H passwd) m j) T =
    foldl (map2 (XOR)) T (map (pbkdf2_U (hmac_spec H passwd) m) [Suc j..<Suc j + k])"
proof (induction k arbitrary: j T)
  case (Suc k)
  have "[Suc j..<Suc j + Suc k] = Suc j # [Suc (Suc j)..<Suc (Suc j) + k]" by (simp add: upt_conv_Cons del: upt_Suc)
  with Suc.IH [of "Suc j"] show ?case by (simp add: Let_def hmac_two_writes [OF assms] del: upt_Suc)
qed simp

lemma length_foldl_xor: "(\<And>u. u \<in> set us \<Longrightarrow> length u = length t) \<Longrightarrow> length (foldl (map2 (XOR)) t us) = length (t :: bytes)"
  by (induction us arbitrary: t) auto

lemma pbkdf2_loop_spec:
  assumes ok: "sha_ops_ok ops H" and c: "1 \<le> c"
    and prf_def: "prf = hmac_spec H passwd"
  shows "pbkdf2_loop ops passwd (HMAC_SHA256_Update ops (HMAC_SHA256_Init ops passwd) salt) c dkLen i buf =
    buf @ take (dkLen - i * 32) (concat (map (pbkdf2_F prf salt c) [i + 1..<(dkLen + 31) div 32 + 1]))"
proof (induction "dkLen - i * 32" arbitrary: i buf rule: less_induct)
  case less
  let ?n = "(dkLen + 31) div 32 + 1"
  let ?ctx = "HMAC_SHA256_Update ops (HMAC_SHA256_Init ops passwd) salt"
  show ?case
  proof (cases "i * 32 < dkLen")
    case True
    define m where "m = salt @ WriteBE32 (of_nat (i + 1))"
    define U where "U = HMAC_SHA256_Final ops (HMAC_SHA256_Update ops ?ctx (WriteBE32 (of_nat (i + 1))))"
    define T where "T = pbkdf2_rounds ops passwd (c - 1) U U"
    have U: "U = pbkdf2_U prf m 0" by (simp add: U_def m_def prf_def hmac_two_writes [OF ok])
    have T: "T = pbkdf2_F prf salt c (i + 1)"
      unfolding T_def U pbkdf2_F_def Let_def m_def [symmetric] prf_def
      by (subst pbkdf2_rounds_spec [OF ok]) (use c in \<open>simp del: pbkdf2_U.simps\<close>)
    have len: "length (pbkdf2_U prf m j) = 32" for j
      using ok by (cases j) (simp_all add: prf_def length_hmac_spec sha_ops_ok_def)
    have "length T = 32"
      unfolding T pbkdf2_F_def Let_def m_def [symmetric]
      by (subst length_foldl_xor) (auto simp: len simp del: pbkdf2_U.simps)
    then have *: "take (dkLen - i * 32) (T @ xs) = take (min 32 (dkLen - i * 32)) T @ take (dkLen - (i + 1) * 32) xs" for xs
      by (simp add: add.commute min_def)
    have "[i + 1..<?n] = (i + 1) # [i + 1 + 1..<?n]" using True by (subst upt_conv_Cons) auto
    then have "concat (map (pbkdf2_F prf salt c) [i + 1..<?n]) = T @ concat (map (pbkdf2_F prf salt c) [i + 1 + 1..<?n])"
      by (simp add: T del: upt_Suc)
    moreover have "pbkdf2_loop ops passwd ?ctx c dkLen i buf = pbkdf2_loop ops passwd ?ctx c dkLen (i + 1) (buf @ take (min 32 (dkLen - i * 32)) T)"
      by (subst pbkdf2_loop.simps) (simp only: True if_True Let_def U_def T_def)
    ultimately show ?thesis using less [of "i + 1"] True by (simp only: *) (simp add: diff_less_mono2)
  qed (simp add: pbkdf2_loop.simps)
qed

lemma PBKDF2_spec:
  "sha_ops_ok ops H \<Longrightarrow> 1 \<le> c \<Longrightarrow> PBKDF2_SHA256 ops passwd salt c dkLen = pbkdf2_spec (hmac_spec H passwd) salt c dkLen"
  by (simp add: PBKDF2_SHA256_def pbkdf2_spec_def pbkdf2_loop_spec [OF _ _ refl] del: upt_Suc)

text \<open>The interleaved statements of the loop body are the quarter rounds of Salsa20.\<close>

lemma salsa_columns_round: "length x = 16 \<Longrightarrow> foldl salsa_stmt x salsa_columns = columnround x"
  by (erule length_16_cases) (auto simp: salsa_columns_def columnround_def quarterround_def salsa_stmt_def Let_def)

lemma salsa_rows_round: "length x = 16 \<Longrightarrow> foldl salsa_stmt x salsa_rows = rowround x"
  by (erule length_16_cases) (auto simp: salsa_rows_def rowround_def quarterround_def salsa_stmt_def Let_def)

lemma length_rounds [simp]: "length (columnround x) = length x" "length (rowround x) = length x"
  by (simp_all add: columnround_def rowround_def quarterround_def Let_def)

lemma double_rounds: "length x = 16 \<Longrightarrow> (salsa_double_round ^^ n) x = ((rowround \<circ> columnround) ^^ n) x \<and> length ((salsa_double_round ^^ n) x) = 16"
  by (induction n) (auto simp: salsa_double_round_def salsa_columns_round salsa_rows_round)

lemma xor_salsa8_spec: "length B = 16 \<Longrightarrow> length Bx = 16 \<Longrightarrow> xor_salsa8 B Bx = salsa20_8 (map2 (XOR) B Bx)"
  using double_rounds [of "map2 (XOR) B Bx" 4] by (simp add: xor_salsa8_def salsa20_8_def Let_def)

lemma length_salsa20_8: "length x = 16 \<Longrightarrow> length (salsa20_8 x) = 16"
  using double_rounds [of x 4] by (metis length_map length_zip min.idem salsa20_8_def)

lemma map2_xor_commute: "map2 (XOR) xs ys = map2 (XOR) ys (xs :: u32 list)"
  by (rule nth_equalityI) (auto simp: xor.commute)

lemma mix_halves_blockmix: "length X = 32 \<Longrightarrow> mix_halves X = blockmix X \<and> length (blockmix X) = 32"
  by (simp add: mix_halves_def blockmix_def Let_def xor_salsa8_spec length_salsa20_8 map2_xor_commute [of "drop 16 X"])

lemma length_blockmix_pow: "length X = 32 \<Longrightarrow> length ((blockmix ^^ n) X) = 32"
  by (induction n) (auto simp: mix_halves_blockmix)

lemma scrypt_fill_spec:
  "length X = 32 \<Longrightarrow> scrypt_fill n X V = ((blockmix ^^ n) X, V @ map (\<lambda>i. (blockmix ^^ i) X) [0..<n])"
proof (induction n arbitrary: X V)
  case (Suc n)
  have "[0..<Suc n] = 0 # map Suc [0..<n]" by (simp add: upt_conv_Cons map_Suc_upt del: upt_Suc)
  then have "map (\<lambda>i. (blockmix ^^ i) X) [0..<Suc n] = X # map (\<lambda>i. (blockmix ^^ i) (blockmix X)) [0..<n]"
    by (simp add: funpow_swap1 comp_def del: upt_Suc)
  with Suc show ?case by (simp add: mix_halves_blockmix funpow_swap1 del: upt_Suc)
qed simp

lemma word_and_1023: "unat (x AND 1023 :: u32) = unat x mod 1024"
proof -
  have "x AND 1023 = take_bit 10 x" by (simp add: take_bit_eq_mask mask_eq_exp_minus_1)
  then have "unat (x AND 1023) = take_bit 10 (unat x)" by (simp only: unsigned_take_bit_eq)
  then show ?thesis by (simp add: take_bit_eq_mod)
qed

lemma scrypt_mix_spec:
  assumes "length X = 32" "length B = 32"
  shows "scrypt_mix n (map (\<lambda>i. (blockmix ^^ i) B) [0..<1024]) X = (romix_step 1024 B ^^ n) X"
  using assms
proof (induction n arbitrary: X)
  case (Suc n)
  let ?Y = "map2 (XOR) X ((blockmix ^^ (unat (X ! 16) mod 1024)) B)"
  have "length ?Y = 32" using Suc.prems by (simp add: length_blockmix_pow)
  moreover have "map (\<lambda>i. (blockmix ^^ i) B) [0..<1024] ! (unat (X ! 16) mod 1024) = (blockmix ^^ (unat (X ! 16) mod 1024)) B"
    by (subst nth_map) (simp_all del: upt_Suc)
  ultimately have "scrypt_mix (Suc n) (map (\<lambda>i. (blockmix ^^ i) B) [0..<1024]) X = (romix_step 1024 B ^^ n) (blockmix ?Y)"
    using Suc by (simp add: word_and_1023 mix_halves_blockmix del: upt_Suc)
  then show ?case by (simp add: funpow_swap1 romix_step_def [symmetric] del: scrypt_mix.simps)
qed simp

text \<open>
C23: The block hash of old headers is scrypt. With the SHA-256 of the cryptographic library behaving like a hash function \<open>H\<close> of the
concatenation of what is fed to it, the scratchpad code with its in-place half-block mixing and hand-scheduled Salsa20 statements
computes the scrypt function of the standard for \<open>N = 1024\<close>, \<open>r = p = 1\<close> and 32 bytes of output, with the input as password and salt.
\<close>

theorem scrypt_correct:
  assumes "sha_ops_ok ops H"
  shows "scrypt_1024_1_1_256 ops inp = scrypt_spec H inp inp"
  by (simp add: scrypt_1024_1_1_256_def scrypt_spec_def PBKDF2_spec [OF assms] scrypt_fill_spec scrypt_mix_spec length_blockmix_pow
      romix_def Let_def del: upt_Suc)

definition sample_sha :: "hash_ctx sha_ops" where
  "sample_sha = \<lparr>SHA256_Init = CSHA256, SHA256_Update = CSHA256_Write, SHA256_Final = CSHA256_Finalize\<rparr>"

theorem scrypt_correct_witness:
  "scrypt_1024_1_1_256 sample_sha (replicate 80 0) =
   scrypt_spec sha256_spec (replicate 80 0) (replicate 80 0)"
  by (rule scrypt_correct) (simp add: sample_sha_def sha_ops_ok_def sha256_hasher.hasher_axioms length_specs)

end
