(* ===== verification/Block.thy ===== *)
theory Block
  imports Merkle Scrypt SigHash
begin

unbundle bit_operations_syntax

text \<open>
  Block headers and blocks (\<open>primitives/block.h\<close>, \<open>primitives/block.cpp\<close>): wire formats, the block hash, and the proof-of-stake
  fields with the block signature (\<open>key.cpp\<close>, \<open>pubkey.cpp\<close>). The curve operations of libsecp256k1 are the record \<open>curve_ops\<close>.
  The member \<open>posPubKey\<close> is \<open>mutable\<close>, so the \<open>const\<close> methods that fill it return the changed header.
\<close>

section \<open>Data\<close>

record CBlockHeader =
  bh_nVersion :: u32
  bh_hashPrevBlock :: bytes
  bh_hashMerkleRoot :: bytes
  bh_nTime :: u32
  bh_nBits :: u32
  bh_nNonce :: u32
  posStakeHash :: bytes
  posStakeN :: u32
  vchBlockSig :: bytes
  bh_nFlags :: u32
  posPubKey :: "bytes option"

record CBlock = CBlockHeader +
  vtx :: "CTransaction list"
  oldVchBlockSig :: bytes

abbreviation (input) SER_GETHASH :: u32 where "SER_GETHASH \<equiv> 4"
abbreviation (input) SER_POSMARKER :: u32 where "SER_POSMARKER \<equiv> 0x40000"
abbreviation (input) POS_BIT :: u32 where "POS_BIT \<equiv> 0x10000000"
abbreviation (input) POSV2_BITS :: u32 where "POSV2_BITS \<equiv> POS_BIT OR 0x08000000"

definition CBlockHeader_null :: CBlockHeader where
  "CBlockHeader_null =
     \<lparr>bh_nVersion = 0, bh_hashPrevBlock = uint256_null, bh_hashMerkleRoot = uint256_null, bh_nTime = 0, bh_nBits = 0, bh_nNonce = 0,
      posStakeHash = uint256_null, posStakeN = 0, vchBlockSig = [], bh_nFlags = 0, posPubKey = None\<rparr>"

definition CBlock_of_header :: "CBlockHeader \<Rightarrow> CBlock" where
  "CBlock_of_header h = CBlockHeader.extend h \<lparr>vtx = [], oldVchBlockSig = []\<rparr>"

definition hdr_IsProofOfStake :: "'a CBlockHeader_scheme \<Rightarrow> bool" where
  "hdr_IsProofOfStake h \<longleftrightarrow> bh_nFlags h AND 1 \<noteq> 0 \<or> bh_nVersion h AND POS_BIT \<noteq> 0"

definition IsProofOfStakeV2 :: "'a CBlockHeader_scheme \<Rightarrow> bool" where
  "IsProofOfStakeV2 h \<longleftrightarrow> bh_nVersion h AND POSV2_BITS = POSV2_BITS"

definition hdr_IsProofOfWork :: "'a CBlockHeader_scheme \<Rightarrow> bool" where
  "hdr_IsProofOfWork h \<longleftrightarrow> \<not> hdr_IsProofOfStake h"

definition StakeInput :: "'a CBlockHeader_scheme \<Rightarrow> COutPoint" where
  "StakeInput h = \<lparr>op_hash = posStakeHash h, op_n = posStakeN h\<rparr>"

definition IsProofOfStakeTX :: "CBlock \<Rightarrow> bool" where
  "IsProofOfStakeTX b \<longleftrightarrow> length (vtx b) > 1 \<and> IsCoinStake (vtx b ! 1)"

text \<open>\<open>CBlock::GetBlockHeader\<close> starts from a null header and copies seven members.\<close>

definition GetBlockHeader :: "CBlock \<Rightarrow> CBlockHeader" where
  "GetBlockHeader b =
     CBlockHeader_null\<lparr>bh_nVersion := bh_nVersion b, bh_hashPrevBlock := bh_hashPrevBlock b,
       bh_hashMerkleRoot := bh_hashMerkleRoot b, bh_nTime := bh_nTime b, bh_nBits := bh_nBits b, bh_nNonce := bh_nNonce b,
       bh_nFlags := bh_nFlags b\<rparr>"

section \<open>Wire formats\<close>

text \<open>The six members that every header has; they are also contiguous in memory, in the same order.\<close>

definition header_core :: "'a CBlockHeader_scheme \<Rightarrow> bytes" where
  "header_core h =
     ser_u32 (bh_nVersion h) @ bh_hashPrevBlock h @ bh_hashMerkleRoot h @ ser_u32 (bh_nTime h) @ ser_u32 (bh_nBits h)
     @ ser_u32 (bh_nNonce h)"

definition SerializeHeader :: "u32 \<Rightarrow> 'a CBlockHeader_scheme \<Rightarrow> bytes" where
  "SerializeHeader typ h =
     header_core h
     @ (if IsProofOfStakeV2 h
        then posStakeHash h @ ser_u32 (posStakeN h) @ (if typ AND SER_GETHASH = 0 then ser_blob (vchBlockSig h) else [])
        else [])
     @ (if typ AND SER_GETHASH = 0 \<and> typ AND SER_POSMARKER \<noteq> 0 then ser_u32 (bh_nFlags h) else [])"

definition unser_core :: "CBlockHeader \<Rightarrow> CBlockHeader reader" where
  "unser_core obj s =
     bindE (unser_u32 s) (\<lambda>(ver, s1).
     bindE (stream_read 32 s1) (\<lambda>(prev, s2).
     bindE (stream_read 32 s2) (\<lambda>(root, s3).
     bindE (unser_u32 s3) (\<lambda>(tm, s4).
     bindE (unser_u32 s4) (\<lambda>(bits, s5).
     bindE (unser_u32 s5) (\<lambda>(nonce, s6).
     Inr (obj\<lparr>bh_nVersion := ver, bh_hashPrevBlock := prev, bh_hashMerkleRoot := root, bh_nTime := tm, bh_nBits := bits,
       bh_nNonce := nonce\<rparr>, s6)))))))"

definition UnserializeHeader :: "u32 \<Rightarrow> CBlockHeader \<Rightarrow> CBlockHeader reader" where
  "UnserializeHeader typ obj s =
     bindE (unser_core obj s) (\<lambda>(h, s1).
     bindE (if IsProofOfStakeV2 h
            then bindE (stream_read 32 s1) (\<lambda>(sh, s2).
                 bindE (unser_u32 s2) (\<lambda>(sn, s3).
                 bindE (if typ AND SER_GETHASH = 0 then unser_blob s3 else Inr (vchBlockSig h, s3)) (\<lambda>(sig, s4).
                 Inr (h\<lparr>posStakeHash := sh, posStakeN := sn, vchBlockSig := sig, posPubKey := None\<rparr>, s4))))
            else Inr (h, s1)) (\<lambda>(h2, s5).
     if typ AND SER_GETHASH = 0 \<and> typ AND SER_POSMARKER \<noteq> 0
     then bindE (unser_u32 s5) (\<lambda>(fl, s6). Inr (h2\<lparr>bh_nFlags := fl\<rparr>, s6))
     else Inr (h2, s5)))"

text \<open>Each transaction is read into a default one, whose \<open>nTime\<close> the constructor leaves indeterminate (\<open>garbage\<close>).\<close>

definition CMutableTransaction_default :: "u32 \<Rightarrow> CTransaction" where
  "CMutableTransaction_default garbage =
     \<lparr>vin = [], vout = [], nVersion = 4, nType = 0, nLockTime = 0, nTime = garbage, vExtraPayload = []\<rparr>"

definition header_of :: "CBlock \<Rightarrow> CBlockHeader" where
  "header_of b = CBlockHeader.truncate b"

definition SerializeBlock :: "u32 \<Rightarrow> CBlock \<Rightarrow> bytes" where
  "SerializeBlock typ b =
     SerializeHeader typ b @ ser_vector SerializeTx (vtx b)
     @ (if IsProofOfStakeV2 b then [] else ser_blob (oldVchBlockSig b))"

definition UnserializeBlock :: "u32 \<Rightarrow> u32 \<Rightarrow> CBlock \<Rightarrow> CBlock reader" where
  "UnserializeBlock garbage typ obj s =
     bindE (UnserializeHeader typ (header_of obj) s) (\<lambda>(h, s1).
     bindE (unser_vector (UnserializeTx (CMutableTransaction_default garbage)) s1) (\<lambda>(txs, s2).
     bindE (if IsProofOfStakeV2 h then Inr (oldVchBlockSig obj, s2) else unser_blob s2) (\<lambda>(sig, s3).
     Inr (CBlockHeader.extend h \<lparr>vtx = txs, oldVchBlockSig = sig\<rparr>, s3))))"

section \<open>The block hash\<close>

definition GetPoWHash :: "'c sha_ops \<Rightarrow> 'a CBlockHeader_scheme \<Rightarrow> bytes" where
  "GetPoWHash ops h = scrypt_1024_1_1_256 ops (header_core h)"

definition hdr_GetHash :: "'c sha_ops \<Rightarrow> 'a CBlockHeader_scheme \<Rightarrow> bytes" where
  "hdr_GetHash ops h =
     (if sint (bh_nVersion h) < 4 then scrypt_1024_1_1_256 ops (header_core h)
      else HASH256 (SerializeHeader SER_GETHASH h))"

section \<open>Block signatures\<close>

text \<open>
  Signing returns the recovery number and 64 bytes; recovery returns the serialized key, compressed or not, unless the
  signature or the point is invalid.
\<close>

record curve_ops =
  sign_recoverable :: "bytes \<Rightarrow> bytes \<Rightarrow> nat \<times> bytes"
  ecdsa_recover :: "nat \<Rightarrow> bool \<Rightarrow> bytes \<Rightarrow> bytes \<Rightarrow> bytes option"

record CKey =
  key_data :: bytes
  key_fValid :: bool
  key_fCompressed :: bool

definition SignCompact :: "curve_ops \<Rightarrow> CKey \<Rightarrow> bytes \<Rightarrow> bytes option" where
  "SignCompact cv k h =
     (if \<not> key_fValid k then None
      else case sign_recoverable cv (key_data k) h of (rec, sig) \<Rightarrow>
        Some (of_nat (27 + rec + (if key_fCompressed k then 4 else 0)) # sig))"

text \<open>\<open>RecoverCompact\<close> on the key \<open>pk\<close>: whether it succeeded, and the key afterwards.\<close>

definition RecoverCompact :: "curve_ops \<Rightarrow> bytes option \<Rightarrow> bytes \<Rightarrow> bytes \<Rightarrow> bool \<times> bytes option" where
  "RecoverCompact cv pk h vchSig =
     (if length vchSig \<noteq> 65 then (False, pk)
      else let recid = unat ((vchSig ! 0 - 27) AND 3); fComp = ((vchSig ! 0 - 27) AND 4 \<noteq> 0)
           in case ecdsa_recover cv recid fComp (tl vchSig) h of
                None \<Rightarrow> (False, pk)
              | Some pub \<Rightarrow> (True, CPubKey_Set pub))"

text \<open>\<open>GetKey\<close> is the lookup of the key store.\<close>

definition SignBlock ::
  "'c sha_ops \<Rightarrow> curve_ops \<Rightarrow> (bytes \<Rightarrow> CKey option) \<Rightarrow> 'a CBlockHeader_scheme \<Rightarrow> bool \<times> 'a CBlockHeader_scheme" where
  "SignBlock ops cv GetKey h =
     (if hdr_IsProofOfStake h then
        case posPubKey h of
          None \<Rightarrow> (False, h)
        | Some pk \<Rightarrow>
            (case GetKey (HASH160 pk) of
               None \<Rightarrow> (False, h)
             | Some key \<Rightarrow>
                 (case SignCompact cv key (hdr_GetHash ops h) of
                    None \<Rightarrow> (False, h)
                  | Some sig \<Rightarrow> (True, h\<lparr>vchBlockSig := sig\<rparr>)))
      else (True, h))"

definition CheckBlockSignature ::
  "'c sha_ops \<Rightarrow> curve_ops \<Rightarrow> bytes \<Rightarrow> 'a CBlockHeader_scheme \<Rightarrow> bool \<times> 'a CBlockHeader_scheme" where
  "CheckBlockSignature ops cv key_id h =
     (if \<not> hdr_IsProofOfStake h then (True, h)
      else if vchBlockSig h = [] then (False, h)
      else let h' = h\<lparr>posPubKey := snd (RecoverCompact cv (posPubKey h) (hdr_GetHash ops h) (vchBlockSig h))\<rparr>
           in case posPubKey h' of
                None \<Rightarrow> (False, h')
              | Some pk \<Rightarrow> (HASH160 pk = key_id, h'))"

definition BlockPubKey :: "'c sha_ops \<Rightarrow> curve_ops \<Rightarrow> 'a CBlockHeader_scheme \<Rightarrow> 'a CBlockHeader_scheme" where
  "BlockPubKey ops cv h =
     (if posPubKey h = None \<and> vchBlockSig h \<noteq> []
      then h\<lparr>posPubKey := snd (RecoverCompact cv (posPubKey h) (hdr_GetHash ops h) (vchBlockSig h))\<rparr>
      else h)"

section \<open>Coinbase and stake\<close>

datatype CTxDestination = CNoDestination | CKeyID bytes | CScriptID bytes

fun GetScriptForDestination :: "CTxDestination \<Rightarrow> bytes" where
  "GetScriptForDestination CNoDestination = []"
| "GetScriptForDestination (CKeyID keyID) =
     push_opcode OP_DUP @ push_opcode OP_HASH160 @ push_vector keyID @ push_opcode OP_EQUALVERIFY @ push_opcode OP_CHECKSIG"
| "GetScriptForDestination (CScriptID scriptID) = push_opcode OP_HASH160 @ push_vector scriptID @ push_opcode OP_EQUAL"

definition MIN_STAKE_AMOUNT :: CAmount where
  "MIN_STAKE_AMOUNT = COIN"

definition HasCoinBase :: "CBlock \<Rightarrow> bool" where
  "HasCoinBase b \<longleftrightarrow> vtx b \<noteq> [] \<and> IsCoinBase (vtx b ! 0)"

text \<open>
  The loop over the outputs of the stake; \<open>None\<close> is the early return. The sum is a 64-bit integer and nothing has bounded the values
  yet: an overflow, undefined in the source, wraps around as it does on the usual machines.
\<close>

fun stake_amount_loop :: "bytes \<Rightarrow> CAmount \<Rightarrow> CTxOut list \<Rightarrow> CAmount option" where
  "stake_amount_loop spk total_amt [] = Some total_amt"
| "stake_amount_loop spk total_amt (so # outs) =
     (if CTxOut_IsEmpty so then stake_amount_loop spk total_amt outs
      else if scriptPubKey so \<noteq> spk then None
      else stake_amount_loop spk (signed_take_bit 63 (total_amt + nValue so)) outs)"

definition HasStake :: "'c sha_ops \<Rightarrow> curve_ops \<Rightarrow> CBlock \<Rightarrow> bool \<times> CBlock" where
  "HasStake ops cv b =
     (if \<not> hdr_IsProofOfStake b \<or> length (vtx b) < 2 then (False, b)
      else let b' = BlockPubKey ops cv b
           in case posPubKey b' of
                None \<Rightarrow> (False, b')
              | Some pk \<Rightarrow>
                  let spk = GetScriptForDestination (CKeyID (HASH160 pk));
                      cb_vout = vout (vtx b ! 0);
                      stake = vtx b ! 1
                  in if cb_vout = [] \<or> vin stake = [] \<or> vout stake = [] then (False, b')
                     else if prevout (vin stake ! 0) \<noteq> StakeInput b then (False, b')
                     else if scriptPubKey (cb_vout ! 0) \<noteq> spk then (False, b')
                     else case stake_amount_loop spk 0 (vout stake) of
                            None \<Rightarrow> (False, b')
                          | Some total_amt \<Rightarrow> (\<not> total_amt < MIN_STAKE_AMOUNT, b'))"

section \<open>Wire format lemmas\<close>

interpretation tx_codec: codec SerializeTx "UnserializeTx obj" "\<lambda>tx. tx_ok obj tx \<and> version_ok (nVersion tx) (nType tx)" for obj
  by unfold_locales (simp add: UnserializeTx_Serialize)

interpretation txs_codec: codec "ser_vector SerializeTx" "unser_vector (UnserializeTx obj)"
  "\<lambda>v. length v \<le> MAX_SIZE \<and> list_all (\<lambda>tx. tx_ok obj tx \<and> version_ok (nVersion tx) (nType tx)) v" for obj
  by (rule tx_codec.vector_codec)

definition hashes_32 :: "'a CBlockHeader_scheme \<Rightarrow> bool" where
  "hashes_32 h \<longleftrightarrow> length (bh_hashPrevBlock h) = 32 \<and> length (bh_hashMerkleRoot h) = 32 \<and> length (posStakeHash h) = 32"

text \<open>What can be recovered: fields within their limits; fields that are not written come from the object that is read into.\<close>

definition header_ok :: "u32 \<Rightarrow> CBlockHeader \<Rightarrow> 'a CBlockHeader_scheme \<Rightarrow> bool" where
  "header_ok typ obj h \<longleftrightarrow>
     hashes_32 h \<and>
     (if IsProofOfStakeV2 h
      then posPubKey h = None \<and>
        (if typ AND SER_GETHASH = 0 then length (vchBlockSig h) \<le> MAX_SIZE else vchBlockSig h = vchBlockSig obj)
      else posStakeHash h = posStakeHash obj \<and> posStakeN h = posStakeN obj \<and> vchBlockSig h = vchBlockSig obj
        \<and> posPubKey h = posPubKey obj) \<and>
     (typ AND SER_GETHASH = 0 \<and> typ AND SER_POSMARKER \<noteq> 0 \<or> bh_nFlags h = bh_nFlags obj)"

definition block_ok :: "u32 \<Rightarrow> u32 \<Rightarrow> CBlock \<Rightarrow> CBlock \<Rightarrow> bool" where
  "block_ok garbage typ obj b \<longleftrightarrow>
     header_ok typ (header_of obj) b \<and> length (vtx b) \<le> MAX_SIZE \<and>
     list_all (\<lambda>tx. tx_ok (CMutableTransaction_default garbage) tx \<and> version_ok (nVersion tx) (nType tx)) (vtx b) \<and>
     (if IsProofOfStakeV2 b then oldVchBlockSig b = oldVchBlockSig obj else length (oldVchBlockSig b) \<le> MAX_SIZE)"

lemma unser_core_header:
  "hashes_32 h \<Longrightarrow> unser_core obj (header_core h @ r) =
     Inr (obj\<lparr>bh_nVersion := bh_nVersion h, bh_hashPrevBlock := bh_hashPrevBlock h, bh_hashMerkleRoot := bh_hashMerkleRoot h,
       bh_nTime := bh_nTime h, bh_nBits := bh_nBits h, bh_nNonce := bh_nNonce h\<rparr>, r)"
  by (simp add: unser_core_def header_core_def hashes_32_def u32_codec.unser_ser stream_read_append)

lemma UnserializeHeader_Serialize:
  fixes h :: CBlockHeader
  assumes "header_ok typ obj h"
  shows "UnserializeHeader typ obj (SerializeHeader typ h @ r) = Inr (h, r)"
  using assms
  by (cases h; cases obj)
    (auto simp: UnserializeHeader_def SerializeHeader_def header_ok_def unser_core_header u32_codec.unser_ser
      stream_read_append hashes_32_def blob.unser_ser IsProofOfStakeV2_def)

text \<open>A block is its header and the members that \<open>CBlock\<close> adds.\<close>

lemma header_of_simps [simp]:
  "bh_nVersion (header_of b) = bh_nVersion b" "bh_nFlags (header_of b) = bh_nFlags b"
  "vchBlockSig (header_of b) = vchBlockSig b" "posPubKey (header_of b) = posPubKey b"
  "IsProofOfStakeV2 (header_of b) = IsProofOfStakeV2 b" "hashes_32 (header_of b) = hashes_32 b"
  "SerializeHeader typ (header_of b) = SerializeHeader typ b" "header_ok typ obj (header_of b) = header_ok typ obj b"
  by (simp_all add: header_of_def CBlockHeader.truncate_def IsProofOfStakeV2_def hashes_32_def SerializeHeader_def
      header_core_def header_ok_def)

lemma extend_header_of [simp]:
  "oldVchBlockSig b = sig \<Longrightarrow> CBlockHeader.extend (header_of b) \<lparr>vtx = vtx b, oldVchBlockSig = sig\<rparr> = b"
  by (cases b) (auto simp add: header_of_def CBlockHeader.truncate_def CBlockHeader.extend_def)

lemma SerializeHeader_inj:
  assumes "SerializeHeader SER_GETHASH h1 = SerializeHeader SER_GETHASH h2" "hashes_32 h1" "hashes_32 h2"
  shows "header_core h1 = header_core h2 \<and> bh_nVersion h1 = bh_nVersion h2 \<and> bh_hashPrevBlock h1 = bh_hashPrevBlock h2 \<and>
    bh_hashMerkleRoot h1 = bh_hashMerkleRoot h2 \<and> bh_nTime h1 = bh_nTime h2 \<and> bh_nBits h1 = bh_nBits h2 \<and>
    bh_nNonce h1 = bh_nNonce h2 \<and> (IsProofOfStakeV2 h1 \<longrightarrow> StakeInput h1 = StakeInput h2)"
proof -
  have len: "length (ser_u32 x) = 4" for x by (simp add: ser_u32_def)
  have inj: "ser_u32 x = ser_u32 y \<longleftrightarrow> x = y" for x y using u32_codec.ser_inj [of x y] by auto
  have core: "length (header_core h1) = length (header_core h2)"
    using assms(2,3) by (simp add: header_core_def hashes_32_def len)
  have eq: "header_core h1 = header_core h2" using assms(1) core by (simp add: SerializeHeader_def)
  then have fields: "bh_nVersion h1 = bh_nVersion h2" "bh_hashPrevBlock h1 = bh_hashPrevBlock h2"
    "bh_hashMerkleRoot h1 = bh_hashMerkleRoot h2" "bh_nTime h1 = bh_nTime h2" "bh_nBits h1 = bh_nBits h2" "bh_nNonce h1 = bh_nNonce h2"
    using assms(2,3) by (auto simp: header_core_def hashes_32_def len inj)
  then have "IsProofOfStakeV2 h1 = IsProofOfStakeV2 h2" by (simp add: IsProofOfStakeV2_def)
  then have "StakeInput h1 = StakeInput h2" if "IsProofOfStakeV2 h1"
    using that assms eq by (simp add: SerializeHeader_def StakeInput_def hashes_32_def len inj)
  with eq fields show ?thesis by simp
qed

lemma GetBlockHeader_core [simp]:
  "header_core (GetBlockHeader b) = header_core b" "IsProofOfStakeV2 (GetBlockHeader b) = IsProofOfStakeV2 b"
  "bh_nVersion (GetBlockHeader b) = bh_nVersion b" "StakeInput (GetBlockHeader b) = \<lparr>op_hash = uint256_null, op_n = 0\<rparr>"
  "hashes_32 b \<Longrightarrow> hashes_32 (GetBlockHeader b)"
  by (simp_all add: GetBlockHeader_def header_core_def IsProofOfStakeV2_def CBlockHeader_null_def StakeInput_def hashes_32_def
      uint256_null_def)

lemma hdr_GetHash_signature [simp]:
  "hdr_GetHash ops (h\<lparr>vchBlockSig := sig\<rparr>) = hdr_GetHash ops h" "hdr_IsProofOfStake (h\<lparr>vchBlockSig := sig\<rparr>) = hdr_IsProofOfStake h"
  by (simp_all add: hdr_GetHash_def SerializeHeader_def header_core_def IsProofOfStakeV2_def hdr_IsProofOfStake_def)

section \<open>Properties\<close>

text \<open>
C34: Blocks round-trip. Reading the bytes that a block serializes to, for any serialization type, returns the block and leaves the rest of the
input; members that are not written (the stake fields of other blocks, the old signature of stake blocks of version 2, the
flags without the marker) come from the object that is read into.
\<close>

theorem block_roundtrip:
  assumes "block_ok garbage typ obj b"
  shows "UnserializeBlock garbage typ obj (SerializeBlock typ b @ r) = Inr (b, r)"
proof -
  have "header_ok typ (header_of obj) (header_of b)" using assms by (simp add: block_ok_def)
  note UnserializeHeader_Serialize [OF this]
  then show ?thesis
    using assms by (auto simp: UnserializeBlock_def SerializeBlock_def block_ok_def txs_codec.unser_ser blob.unser_ser)
qed

definition sample_header_block :: CBlock where
  "sample_header_block =
     (CBlock_of_header CBlockHeader_null)\<lparr>bh_nVersion := 0x18000004, bh_hashMerkleRoot := GetHash sample_tx, bh_nTime := 1600000000,
       posStakeHash := replicate 32 7, posStakeN := 1, vchBlockSig := [9], vtx := [sample_tx]\<rparr>"

lemma sample_header_block_simps [simp]:
  "bh_nVersion sample_header_block = 0x18000004" "bh_hashPrevBlock sample_header_block = replicate 32 0"
  "bh_hashMerkleRoot sample_header_block = GetHash sample_tx" "posStakeHash sample_header_block = replicate 32 7"
  "posStakeN sample_header_block = 1" "vchBlockSig sample_header_block = [9]" "bh_nFlags sample_header_block = 0"
  "posPubKey sample_header_block = None" "vtx sample_header_block = [sample_tx]" "oldVchBlockSig sample_header_block = []"
  by (simp_all add: sample_header_block_def CBlock_of_header_def CBlockHeader.extend_def CBlockHeader_null_def uint256_null_def)

lemma sample_V2 [simp]: "bh_nVersion h = 0x18000004 \<Longrightarrow> IsProofOfStakeV2 h" "sint (0x18000004 :: u32) = 0x18000004"
  by (simp_all add: IsProofOfStakeV2_def)

lemma length_GetHash [simp]: "length (GetHash tx) = 32"
  by (simp add: GetHash_def)

theorem block_roundtrip_witness:
  "block_ok 5 1 sample_header_block sample_header_block \<and>
   UnserializeBlock 5 1 sample_header_block (SerializeBlock 1 sample_header_block @ [3]) = Inr (sample_header_block, [3])"
proof -
  have "tx_ok (CMutableTransaction_default 5) sample_tx"
    using sample_tx_ok by (simp add: tx_ok_def CMutableTransaction_default_def) (simp add: sample_tx_def has_payload_def has_time_def)
  moreover have "version_ok (nVersion sample_tx) (nType sample_tx)" by code_simp
  ultimately have "block_ok 5 1 sample_header_block sample_header_block"
    by (simp add: block_ok_def header_ok_def hashes_32_def MAX_SIZE_def)
  from this block_roundtrip [OF this] show ?thesis by (rule conjI)
qed

text \<open>
C9: A block hash binds what is hashed. If two blocks of version 4 or later have the same hash, their Merkle roots are those of their
transactions with no mutation reported, their trees have the same height, and the hash function does not collide on the messages hashed for
the two blocks, then all six basic header fields agree, the staked outputs agree if they are stake blocks of version 2, and the
blocks contain the same transactions in the same order. Members outside the hash, such as the block signature and the flags, may differ, and
nothing is said of trees of different heights, where an inner node could be read as a transaction of 64 bytes.
\<close>

theorem block_hash_binds:
  assumes "hdr_GetHash ops b1 = hdr_GetHash ops b2" "4 \<le> sint (bh_nVersion b1)" "4 \<le> sint (bh_nVersion b2)"
    and "hashes_32 b1" "hashes_32 b2" "vtx b1 \<noteq> []" "vtx b2 \<noteq> []"
    and "BlockMerkleRoot (vtx b1) = (bh_hashMerkleRoot b1, False)" "BlockMerkleRoot (vtx b2) = (bh_hashMerkleRoot b2, False)"
    and "merkle_levels (length (vtx b1)) = merkle_levels (length (vtx b2))"
    and "inj_on HASH256 {SerializeHeader SER_GETHASH b1, SerializeHeader SER_GETHASH b2}"
    and "inj_on HASH256 (merkle_messages (map GetHash (vtx b1)) \<union> merkle_messages (map GetHash (vtx b2)))"
    and "inj_on HASH256 (SerializeTx ` (set (vtx b1) \<union> set (vtx b2)))"
  shows "header_core b1 = header_core b2 \<and> (IsProofOfStakeV2 b1 \<longrightarrow> StakeInput b1 = StakeInput b2) \<and>
    map SerializeTx (vtx b1) = map SerializeTx (vtx b2)"
proof -
  have "HASH256 (SerializeHeader SER_GETHASH b1) = HASH256 (SerializeHeader SER_GETHASH b2)"
    using assms(1-3) by (simp only: hdr_GetHash_def not_less [symmetric] if_not_P)
  with assms(11) have "SerializeHeader SER_GETHASH b1 = SerializeHeader SER_GETHASH b2" by (rule inj_onD) simp_all
  note eqs = SerializeHeader_inj [OF this assms(4,5)]
  with assms(9) have "BlockMerkleRoot (vtx b2) = (bh_hashMerkleRoot b1, False)" by simp
  from merkle_root_inj [OF assms(8) this assms(6,7,10,12,13)] eqs show ?thesis by blast
qed

theorem block_hash_binds_witness:
  "hdr_GetHash sample_sha sample_header_block = hdr_GetHash sample_sha (sample_header_block\<lparr>vchBlockSig := [], bh_nFlags := 1\<rparr>) \<and>
   StakeInput sample_header_block = StakeInput (sample_header_block\<lparr>vchBlockSig := [], bh_nFlags := 1\<rparr>)"
proof -
  let ?b = "sample_header_block\<lparr>vchBlockSig := [], bh_nFlags := 1\<rparr>"
  have ser: "SerializeHeader SER_GETHASH ?b = SerializeHeader SER_GETHASH sample_header_block"
    by (simp add: SerializeHeader_def header_core_def IsProofOfStakeV2_def)
  then have eq: "hdr_GetHash sample_sha sample_header_block = hdr_GetHash sample_sha ?b" by (simp add: hdr_GetHash_def)
  have root: "BlockMerkleRoot [sample_tx] = (GetHash sample_tx, False)"
    by (simp add: BlockMerkleRoot_def ComputeMerkleRoot_def merkle_loop.simps)
  have "header_core sample_header_block = header_core ?b \<and>
    (IsProofOfStakeV2 sample_header_block \<longrightarrow> StakeInput sample_header_block = StakeInput ?b) \<and>
    map SerializeTx (vtx sample_header_block) = map SerializeTx (vtx ?b)"
    by (rule block_hash_binds [OF eq]) (simp_all add: hashes_32_def ser root merkle_messages.simps)
  with eq show ?thesis by simp
qed

text \<open>
C35: What the copied header hashes to. For blocks of version 4 or later, \<open>GetBlockHeader\<close> returns a header with the hash of the block exactly
when the block is not a stake block of version 2 or its stake input is the null one (unless the hash function collides on
the two messages): the copy leaves out the stake fields, which are part of the hash.
\<close>

theorem GetBlockHeader_hash:
  assumes "4 \<le> sint (bh_nVersion b)" "hashes_32 b"
    and "inj_on HASH256 {SerializeHeader SER_GETHASH b, SerializeHeader SER_GETHASH (GetBlockHeader b)}"
  shows "hdr_GetHash ops (GetBlockHeader b) = hdr_GetHash ops b \<longleftrightarrow>
    \<not> IsProofOfStakeV2 b \<or> StakeInput b = \<lparr>op_hash = uint256_null, op_n = 0\<rparr>"
proof -
  have "hdr_GetHash ops (GetBlockHeader b) = hdr_GetHash ops b \<longleftrightarrow>
    HASH256 (SerializeHeader SER_GETHASH b) = HASH256 (SerializeHeader SER_GETHASH (GetBlockHeader b))"
    using assms(1) by (auto simp: hdr_GetHash_def)
  also have "\<dots> \<longleftrightarrow> SerializeHeader SER_GETHASH b = SerializeHeader SER_GETHASH (GetBlockHeader b)"
    by (rule inj_on_eq_iff [OF assms(3)]) simp_all
  also have "\<dots> \<longleftrightarrow> \<not> IsProofOfStakeV2 b \<or> StakeInput b = \<lparr>op_hash = uint256_null, op_n = 0\<rparr>"
  proof
    assume "SerializeHeader SER_GETHASH b = SerializeHeader SER_GETHASH (GetBlockHeader b)"
    from SerializeHeader_inj [OF this assms(2)] assms(2)
    show "\<not> IsProofOfStakeV2 b \<or> StakeInput b = \<lparr>op_hash = uint256_null, op_n = 0\<rparr>" by auto
  next
    assume "\<not> IsProofOfStakeV2 b \<or> StakeInput b = \<lparr>op_hash = uint256_null, op_n = 0\<rparr>"
    then show "SerializeHeader SER_GETHASH b = SerializeHeader SER_GETHASH (GetBlockHeader b)"
      using GetBlockHeader_core(4) [of b] by (auto simp: SerializeHeader_def StakeInput_def)
  qed
  finally show ?thesis .
qed

theorem GetBlockHeader_hash_witness:
  "hdr_GetHash sample_sha (GetBlockHeader (sample_header_block\<lparr>bh_nVersion := 4\<rparr>)) = hdr_GetHash sample_sha (sample_header_block\<lparr>bh_nVersion := 4\<rparr>)"
proof -
  let ?b = "sample_header_block\<lparr>bh_nVersion := 4\<rparr>"
  have v2: "\<not> IsProofOfStakeV2 ?b" by (simp add: IsProofOfStakeV2_def)
  then have "SerializeHeader SER_GETHASH (GetBlockHeader ?b) = SerializeHeader SER_GETHASH ?b" by (simp add: SerializeHeader_def)
  then have "hdr_GetHash sample_sha (GetBlockHeader ?b) = hdr_GetHash sample_sha ?b \<longleftrightarrow>
      \<not> IsProofOfStakeV2 ?b \<or> StakeInput ?b = \<lparr>op_hash = uint256_null, op_n = 0\<rparr>"
    by (intro GetBlockHeader_hash) (simp_all add: hashes_32_def)
  with v2 show ?thesis by blast
qed

text \<open>
  What is relied on of the curve library: recovery from a signature made with a key returns the public key, which is a well-formed
  encoding.
\<close>

definition curve_ok :: "curve_ops \<Rightarrow> (bool \<Rightarrow> bytes \<Rightarrow> bytes) \<Rightarrow> bool" where
  "curve_ok cv pub \<longleftrightarrow>
     (\<forall>k h rec sig. sign_recoverable cv k h = (rec, sig) \<longrightarrow>
        rec < 4 \<and> length sig = 64 \<and> (\<forall>fc. ecdsa_recover cv rec fc sig h = Some (pub fc k))) \<and>
     (\<forall>fc k. CPubKey_Set (pub fc k) = Some (pub fc k))"

lemma recovery_header:
  assumes "rec < 4"
  shows "unat ((of_nat (27 + rec + (if fc then 4 else 0)) - 27 :: byte) AND 3) = rec"
    "((of_nat (27 + rec + (if fc then 4 else 0)) - 27 :: byte) AND 4 \<noteq> 0) = fc"
proof -
  have "rec = 0 \<or> rec = 1 \<or> rec = 2 \<or> rec = 3" using assms by linarith
  then show "unat ((of_nat (27 + rec + (if fc then 4 else 0)) - 27 :: byte) AND 3) = rec"
    "((of_nat (27 + rec + (if fc then 4 else 0)) - 27 :: byte) AND 4 \<noteq> 0) = fc"
    by (cases fc; auto)+
qed

text \<open>
C29: A signed block verifies. If signing a proof-of-stake header succeeds, then \<open>CheckBlockSignature\<close> accepts the signed header for the
identifier of its stake key and recovers that key's public key, whatever the header contained as signature before; the signature is not part of the signed hash.
\<close>

theorem SignBlock_verifies:
  assumes "curve_ok cv pub" "\<And>key. GetKey (HASH160 pk) = Some key \<Longrightarrow> pub (key_fCompressed key) (key_data key) = pk"
    and "hdr_IsProofOfStake h" "posPubKey h = Some pk" "SignBlock ops cv GetKey h = (True, h')"
  shows "CheckBlockSignature ops cv (HASH160 pk) h' = (True, h')"
proof -
  obtain key sig where key: "GetKey (HASH160 pk) = Some key" and sig: "SignCompact cv key (hdr_GetHash ops h) = Some sig"
    and h': "h' = h\<lparr>vchBlockSig := sig\<rparr>"
    using assms(3-5) by (auto simp: SignBlock_def split: option.splits)
  obtain rec s where rs: "sign_recoverable cv (key_data key) (hdr_GetHash ops h) = (rec, s)" by fastforce
  then have sig': "sig = of_nat (27 + rec + (if key_fCompressed key then 4 else 0)) # s"
    using sig by (auto simp: SignCompact_def split: if_splits)
  from rs assms(1) have ok: "rec < 4" "length s = 64" "ecdsa_recover cv rec (key_fCompressed key) s (hdr_GetHash ops h) = Some pk"
    "CPubKey_Set pk = Some pk"
    using assms(2) [OF key] by (auto simp: curve_ok_def)
  have "RecoverCompact cv (Some pk) (hdr_GetHash ops h) sig = (True, Some pk)"
    unfolding RecoverCompact_def Let_def sig' using ok by (simp only: recovery_header nth_Cons_0 list.sel) simp
  with assms(3,4) show ?thesis by (auto simp: CheckBlockSignature_def h' sig')
qed

definition sample_curve :: curve_ops where
  "sample_curve =
     \<lparr>sign_recoverable = (\<lambda>k h. (1, replicate 64 1)), ecdsa_recover = (\<lambda>rec fc sig h. Some (2 # replicate 32 7))\<rparr>"

theorem SignBlock_verifies_witness:
  "fst (CheckBlockSignature sample_sha sample_curve (HASH160 (2 # replicate 32 7))
     (snd (SignBlock sample_sha sample_curve (\<lambda>_. Some \<lparr>key_data = [5], key_fValid = True, key_fCompressed = True\<rparr>)
       (sample_header_block\<lparr>posPubKey := Some (2 # replicate 32 7)\<rparr>))))"
proof -
  let ?k = "\<lparr>key_data = [5], key_fValid = True, key_fCompressed = True\<rparr>"
  let ?h = "sample_header_block\<lparr>posPubKey := Some (2 # replicate 32 7)\<rparr>"
  let ?r = "SignBlock sample_sha sample_curve (\<lambda>_. Some ?k) ?h"
  have pos: "hdr_IsProofOfStake ?h" by (simp add: hdr_IsProofOfStake_def)
  then have "fst ?r" by (simp add: SignBlock_def SignCompact_def sample_curve_def)
  then have "?r = (True, snd ?r)" by (simp add: prod_eq_iff)
  with pos have "CheckBlockSignature sample_sha sample_curve (HASH160 (2 # replicate 32 7)) (snd ?r) = (True, snd ?r)"
    by (intro SignBlock_verifies [where pub = "\<lambda>_ _. 2 # replicate 32 7" and GetKey = "\<lambda>_. Some ?k" and h = ?h])
      (simp_all add: curve_ok_def sample_curve_def CPubKey_Set_def CPubKey_GetLen_def)
  then show ?thesis by simp
qed

end
