(* ===== verification/VersionBits.thy ===== *)
theory VersionBits
  imports Chain "HOL-Library.Signed_Division"
begin

unbundle bit_operations_syntax

text \<open>
  Deployment of rule changes by version bits (\<open>versionbits.h\<close>, \<open>versionbits.cpp\<close>): the state of a deployment is computed per period
  and cached per last block of a period. The virtual functions of \<open>AbstractThresholdConditionChecker\<close> are the record
  \<open>condition_checker\<close>. The walks over the block index are partial functions: a walk that does not end is \<open>None\<close>.
\<close>

section \<open>States and parameters\<close>

datatype ThresholdState = DEFINED | STARTED | LOCKED_IN | ACTIVE | FAILED

datatype vb_error = VbAssertFailed | VbNullPointer

record condition_checker =
  Condition :: "CBlockIndex \<Rightarrow> bool"
  BeginTime :: int
  EndTime :: int
  Period :: int
  Threshold :: "int \<Rightarrow> int"

type_synonym ThresholdConditionCache = "CBlockIndex option \<rightharpoonup> ThresholdState"

record BIP9Deployment =
  vb_bit :: nat
  nStartTime :: int
  nTimeout :: int
  nWindowSize :: int
  nThresholdStart :: int
  nThresholdMin :: int
  nFalloffCoeff :: int

record vb_params =
  nRuleChangeActivationThreshold :: int
  nMinerConfirmationWindow :: int
  vDeployments :: "BIP9Deployment list"

definition null_ancestor :: "int \<Rightarrow> CBlockIndex \<Rightarrow> vb_error + CBlockIndex option" where
  "null_ancestor h b = map_sum (\<lambda>_. VbAssertFailed) id (GetAncestor h b)"

section \<open>\<open>GetStateFor\<close>\<close>

text \<open>The walk backwards; the head of \<open>vToCompute\<close> is the back of the vector.\<close>

partial_function (option) vb_walk_back ::
  "condition_checker \<Rightarrow> CBlockIndex option \<Rightarrow> ThresholdConditionCache \<Rightarrow> CBlockIndex list \<Rightarrow>
   (vb_error + CBlockIndex option \<times> ThresholdConditionCache \<times> CBlockIndex list) option" where
  "vb_walk_back ck pindexPrev cache vToCompute =
     (if cache pindexPrev \<noteq> None then Some (Inr (pindexPrev, cache, vToCompute))
      else case pindexPrev of
             None \<Rightarrow> Some (Inr (pindexPrev, cache(pindexPrev \<mapsto> DEFINED), vToCompute))
           | Some b \<Rightarrow>
               if GetMedianTimePast b < BeginTime ck
               then Some (Inr (pindexPrev, cache(pindexPrev \<mapsto> DEFINED), vToCompute))
               else (case null_ancestor (nHeight b - Period ck) b of
                       Inl e \<Rightarrow> Some (Inl e)
                     | Inr q \<Rightarrow> vb_walk_back ck q cache (b # vToCompute)))"

text \<open>
  The search for the height at which the deployment started. Reading \<open>cache[pindex_search]\<close> inserts the default
  \<open>DEFINED\<close> when there is no entry.
\<close>

partial_function (option) vb_search ::
  "condition_checker \<Rightarrow> CBlockIndex option \<Rightarrow> ThresholdState \<Rightarrow> ThresholdConditionCache \<Rightarrow> int \<Rightarrow>
   (vb_error + ThresholdConditionCache \<times> int) option" where
  "vb_search ck pindex_search state_search cache nStartHeight =
     (if state_search \<noteq> STARTED then Some (Inr (cache, nStartHeight))
      else case pindex_search of
             None \<Rightarrow> Some (Inl VbNullPointer)
           | Some b \<Rightarrow>
               (case null_ancestor (nHeight b - Period ck) b of
                  Inl e \<Rightarrow> Some (Inl e)
                | Inr q \<Rightarrow>
                    (case cache q of
                       Some st \<Rightarrow> vb_search ck q st cache (min nStartHeight (nHeight b + 1))
                     | None \<Rightarrow> vb_search ck q DEFINED (cache(q \<mapsto> DEFINED)) (min nStartHeight (nHeight b + 1)))))"

fun vb_count :: "condition_checker \<Rightarrow> nat \<Rightarrow> CBlockIndex option \<Rightarrow> int \<Rightarrow> vb_error + int \<times> CBlockIndex option" where
  "vb_count ck 0 pindexCount count = Inr (count, pindexCount)"
| "vb_count ck (Suc i) None count = Inl VbNullPointer"
| "vb_count ck (Suc i) (Some b) count = vb_count ck i (pprev b) (if Condition ck b then count + 1 else count)"

definition INT_MAX :: int where
  "INT_MAX = 2 ^ 31 - 1"

text \<open>The next state and the start height after the period that ends with \<open>b\<close>.\<close>

definition vb_next :: "condition_checker \<Rightarrow> ThresholdState \<Rightarrow> int \<Rightarrow> CBlockIndex \<Rightarrow> vb_error + ThresholdState \<times> int" where
  "vb_next ck state nStartHeight b =
     (case state of
        DEFINED \<Rightarrow>
          if GetMedianTimePast b \<ge> EndTime ck then Inr (FAILED, nStartHeight)
          else if GetMedianTimePast b \<ge> BeginTime ck then Inr (STARTED, nHeight b + 1)
          else Inr (state, nStartHeight)
      | STARTED \<Rightarrow>
          if GetMedianTimePast b \<ge> EndTime ck then Inr (FAILED, nStartHeight)
          else bindE (vb_count ck (nat (Period ck)) (Some b) 0) (\<lambda>(count, pindexCount).
            if \<not> (nStartHeight > 0 \<and> nStartHeight < INT_MAX) then Inl VbAssertFailed
            else case pindexCount of
                   None \<Rightarrow> Inl VbNullPointer
                 | Some c \<Rightarrow>
                     let nAttempt = (nHeight c + 1 - nStartHeight) sdiv Period ck
                     in Inr (if count \<ge> Threshold ck nAttempt then LOCKED_IN else state, nStartHeight))
      | LOCKED_IN \<Rightarrow> Inr (ACTIVE, nStartHeight)
      | FAILED \<Rightarrow> Inr (state, nStartHeight)
      | ACTIVE \<Rightarrow> Inr (state, nStartHeight))"

fun vb_forward ::
  "condition_checker \<Rightarrow> ThresholdState \<Rightarrow> int \<Rightarrow> CBlockIndex list \<Rightarrow> ThresholdConditionCache \<Rightarrow>
   vb_error + ThresholdState \<times> ThresholdConditionCache" where
  "vb_forward ck state nStartHeight [] cache = Inr (state, cache)"
| "vb_forward ck state nStartHeight (b # vToCompute) cache =
     bindE (vb_next ck state nStartHeight b) (\<lambda>(stateNext, nStartHeight').
       vb_forward ck stateNext nStartHeight' vToCompute (cache(Some b \<mapsto> stateNext)))"

definition period_end :: "condition_checker \<Rightarrow> CBlockIndex option \<Rightarrow> vb_error + CBlockIndex option" where
  "period_end ck pindexPrev =
     (case pindexPrev of
        None \<Rightarrow> Inr None
      | Some b \<Rightarrow> null_ancestor (nHeight b - (nHeight b + 1) smod Period ck) b)"

definition GetStateFor ::
  "condition_checker \<Rightarrow> CBlockIndex option \<Rightarrow> ThresholdConditionCache \<Rightarrow> (vb_error + ThresholdState \<times> ThresholdConditionCache) option" where
  "GetStateFor ck pindexPrev cache =
     (case period_end ck pindexPrev of
        Inl e \<Rightarrow> Some (Inl e)
      | Inr pindexPrev1 \<Rightarrow>
          (case vb_walk_back ck pindexPrev1 cache [] of
             None \<Rightarrow> None
           | Some (Inl e) \<Rightarrow> Some (Inl e)
           | Some (Inr (pindexPrev2, cache2, vToCompute)) \<Rightarrow>
               (case cache2 pindexPrev2 of
                  None \<Rightarrow> Some (Inl VbAssertFailed)
                | Some state \<Rightarrow>
                    (case vb_search ck pindexPrev2 state cache2 INT_MAX of
                       None \<Rightarrow> None
                     | Some (Inl e) \<Rightarrow> Some (Inl e)
                     | Some (Inr (cache3, nStartHeight)) \<Rightarrow> Some (vb_forward ck state nStartHeight vToCompute cache3)))))"

section \<open>Since when\<close>

text \<open>The loop of \<open>GetStateSinceHeightFor\<close>.\<close>

partial_function (option) since_loop ::
  "condition_checker \<Rightarrow> ThresholdState \<Rightarrow> CBlockIndex \<Rightarrow> CBlockIndex option \<Rightarrow> ThresholdConditionCache \<Rightarrow>
   (vb_error + int \<times> ThresholdConditionCache) option" where
  "since_loop ck initialState b previousPeriodParent cache =
     (case previousPeriodParent of
        None \<Rightarrow> Some (Inr (nHeight b + 1, cache))
      | Some q \<Rightarrow>
          (case GetStateFor ck (Some q) cache of
             None \<Rightarrow> None
           | Some (Inl e) \<Rightarrow> Some (Inl e)
           | Some (Inr (st, cache1)) \<Rightarrow>
               if st \<noteq> initialState then Some (Inr (nHeight b + 1, cache1))
               else (case null_ancestor (nHeight q - Period ck) q of
                       Inl e \<Rightarrow> Some (Inl e)
                     | Inr q' \<Rightarrow> since_loop ck initialState q q' cache1)))"

definition GetStateSinceHeightFor ::
  "condition_checker \<Rightarrow> CBlockIndex option \<Rightarrow> ThresholdConditionCache \<Rightarrow> (vb_error + int \<times> ThresholdConditionCache) option" where
  "GetStateSinceHeightFor ck pindexPrev cache =
     (case GetStateFor ck pindexPrev cache of
        None \<Rightarrow> None
      | Some (Inl e) \<Rightarrow> Some (Inl e)
      | Some (Inr (initialState, cache1)) \<Rightarrow>
          if initialState = DEFINED then Some (Inr (0, cache1))
          else (case pindexPrev of
                  None \<Rightarrow> Some (Inl VbNullPointer)
                | Some _ \<Rightarrow>
                    (case period_end ck pindexPrev of
                       Inl e \<Rightarrow> Some (Inl e)
                     | Inr None \<Rightarrow> Some (Inl VbNullPointer)
                     | Inr (Some b) \<Rightarrow>
                         (case null_ancestor (nHeight b - Period ck) b of
                            Inl e \<Rightarrow> Some (Inl e)
                          | Inr q \<Rightarrow> since_loop ck initialState b q cache1))))"

section \<open>Statistics\<close>

record BIP9Stats =
  stats_period :: int
  stats_threshold :: int
  stats_elapsed :: int
  stats_count :: int
  stats_possible :: bool

definition BIP9Stats_zero :: BIP9Stats where
  "BIP9Stats_zero = \<lparr>stats_period = 0, stats_threshold = 0, stats_elapsed = 0, stats_count = 0, stats_possible = False\<rparr>"

fun stats_count_loop :: "condition_checker \<Rightarrow> int \<Rightarrow> CBlockIndex \<Rightarrow> int \<Rightarrow> vb_error + int" where
  "stats_count_loop ck endHeight (CBlockIndex i p s) count =
     (if endHeight = bi_nHeight i then Inr count
      else case p of
             None \<Rightarrow> Inl VbNullPointer
           | Some q \<Rightarrow> stats_count_loop ck endHeight q (if Condition ck (CBlockIndex i p s) then count + 1 else count))"

text \<open>The part after the recalculated attempt number.\<close>

definition stats_finish :: "condition_checker \<Rightarrow> CBlockIndex \<Rightarrow> CBlockIndex \<Rightarrow> int \<Rightarrow> vb_error + BIP9Stats" where
  "stats_finish ck b e nAttempt =
     bindE (stats_count_loop ck (nHeight e) b 0) (\<lambda>count.
       let elapsed = nHeight b - nHeight e; threshold = Threshold ck nAttempt
       in Inr \<lparr>stats_period = Period ck, stats_threshold = threshold, stats_elapsed = elapsed, stats_count = count,
               stats_possible = (Period ck - threshold \<ge> elapsed - count)\<rparr>)"

definition GetStateStatisticsFor ::
  "condition_checker \<Rightarrow> CBlockIndex option \<Rightarrow> ThresholdConditionCache \<Rightarrow> (vb_error + BIP9Stats \<times> ThresholdConditionCache) option" where
  "GetStateStatisticsFor ck pindex cache =
     (case pindex of
        None \<Rightarrow> Some (Inr (BIP9Stats_zero\<lparr>stats_period := Period ck, stats_threshold := Threshold ck 0\<rparr>, cache))
      | Some b \<Rightarrow>
          (case period_end ck (Some b) of
             Inl e \<Rightarrow> Some (Inl e)
           | Inr None \<Rightarrow> Some (Inl VbNullPointer)
           | Inr (Some e) \<Rightarrow>
               (case GetStateFor ck (Some e) cache of
                  None \<Rightarrow> None
                | Some (Inl err) \<Rightarrow> Some (Inl err)
                | Some (Inr (st, cache1)) \<Rightarrow>
                    if st = STARTED
                    then (case GetStateSinceHeightFor ck (Some e) cache1 of
                            None \<Rightarrow> None
                          | Some (Inl err) \<Rightarrow> Some (Inl err)
                          | Some (Inr (nStartHeight, cache2)) \<Rightarrow>
                              Some (map_sum id (\<lambda>stats. (stats, cache2))
                                (stats_finish ck b e ((nHeight e + 1 - nStartHeight) sdiv Period ck))))
                    else Some (map_sum id (\<lambda>stats. (stats, cache1)) (stats_finish ck b e 0)))))"

section \<open>The checker for version bits\<close>

abbreviation (input) VERSIONBITS_TOP_MASK :: u32 where "VERSIONBITS_TOP_MASK \<equiv> 0xE0000000"
abbreviation (input) VERSIONBITS_TOP_BITS :: u32 where "VERSIONBITS_TOP_BITS \<equiv> 0x20000000"

definition vb_Period :: "vb_params \<Rightarrow> nat \<Rightarrow> int" where
  "vb_Period params i =
     (if nWindowSize (vDeployments params ! i) \<noteq> 0 then nWindowSize (vDeployments params ! i) else nMinerConfirmationWindow params)"

text \<open>The square of the attempt and its product with the period are 32-bit integers, with wrap-around where the source overflows.\<close>

definition vb_Threshold :: "vb_params \<Rightarrow> nat \<Rightarrow> int \<Rightarrow> int" where
  "vb_Threshold params i nAttempt =
     (let d = vDeployments params ! i
      in if nThresholdStart d = 0 then nRuleChangeActivationThreshold params
         else if nThresholdMin d = 0 \<or> nFalloffCoeff d = 0 then nThresholdStart d
         else max (nThresholdMin d)
                (nThresholdStart d
                 - signed_take_bit 31 (signed_take_bit 31 (nAttempt * nAttempt) * vb_Period params i) sdiv 100 sdiv nFalloffCoeff d))"

definition VersionBitsMask :: "vb_params \<Rightarrow> nat \<Rightarrow> u32" where
  "VersionBitsMask params i = push_bit (vb_bit (vDeployments params ! i)) 1"

definition VersionBitsConditionChecker :: "vb_params \<Rightarrow> nat \<Rightarrow> condition_checker" where
  "VersionBitsConditionChecker params i =
     \<lparr>Condition = (\<lambda>b. bi_nVersion (info b) AND VERSIONBITS_TOP_MASK = VERSIONBITS_TOP_BITS \<and>
                        bi_nVersion (info b) AND VersionBitsMask params i \<noteq> 0),
      BeginTime = nStartTime (vDeployments params ! i),
      EndTime = nTimeout (vDeployments params ! i),
      Period = vb_Period params i,
      Threshold = vb_Threshold params i\<rparr>"

type_synonym VersionBitsCache = "nat \<Rightarrow> ThresholdConditionCache"

definition VersionBitsState ::
  "CBlockIndex option \<Rightarrow> vb_params \<Rightarrow> nat \<Rightarrow> VersionBitsCache \<Rightarrow> (vb_error + ThresholdState \<times> VersionBitsCache) option" where
  "VersionBitsState pindexPrev params i cache =
     map_option (map_sum id (\<lambda>(st, c). (st, cache(i := c))))
       (GetStateFor (VersionBitsConditionChecker params i) pindexPrev (cache i))"

definition VersionBitsStateSinceHeight ::
  "CBlockIndex option \<Rightarrow> vb_params \<Rightarrow> nat \<Rightarrow> VersionBitsCache \<Rightarrow> (vb_error + int \<times> VersionBitsCache) option" where
  "VersionBitsStateSinceHeight pindexPrev params i cache =
     map_option (map_sum id (\<lambda>(h, c). (h, cache(i := c))))
       (GetStateSinceHeightFor (VersionBitsConditionChecker params i) pindexPrev (cache i))"

definition VersionBitsStatistics ::
  "CBlockIndex option \<Rightarrow> vb_params \<Rightarrow> nat \<Rightarrow> VersionBitsCache \<Rightarrow> (vb_error + BIP9Stats \<times> VersionBitsCache) option" where
  "VersionBitsStatistics pindexPrev params i cache =
     map_option (map_sum id (\<lambda>(stats, c). (stats, cache(i := c))))
       (GetStateStatisticsFor (VersionBitsConditionChecker params i) pindexPrev (cache i))"

definition VersionBitsCache_Clear :: VersionBitsCache where
  "VersionBitsCache_Clear = (\<lambda>_. Map.empty)"

section \<open>Median time past never decreases\<close>








section \<open>The deployment state machine\<close>


















section \<open>The cache\<close>


















lemma div_times_le: "0 < P \<Longrightarrow> h div P * P \<le> (h :: int)"
  using pos_mod_sign [of P h] div_mult_mod_eq [of h P] by linarith

lemma period_end_correct:
  assumes "0 < Period ck" "index_ok b" "n = (nHeight b + 1) div Period ck"
  shows "period_end ck (Some b) = Inr (if n = 0 then None else ancestor_at (n * Period ck - 1) b)"
proof -
  have h: "0 \<le> nHeight b" using assms(2) by (rule index_ok_height)
  then have "(nHeight b + 1) smod Period ck = (nHeight b + 1) mod Period ck"
    using assms(1) by (simp add: signed_modulo_int_def signed_divide_int_def minus_mult_div_eq_mod mult.commute)
  also have "\<dots> = nHeight b + 1 - n * Period ck"
    by (simp add: assms(3) minus_div_mult_eq_mod [symmetric])
  finally have e: "nHeight b - (nHeight b + 1) smod Period ck = n * Period ck - 1" by simp
  have "0 \<le> n" using h assms(1,3) by (simp add: pos_imp_zdiv_nonneg_iff)
  moreover have "n * Period ck \<le> nHeight b + 1"
    using assms(1) by (simp add: assms(3) div_times_le)
  moreover have "0 \<le> n * Period ck - 1" if "n \<noteq> 0"
    using that \<open>0 \<le> n\<close> assms(1) mult_pos_pos [of n "Period ck"] by simp
  ultimately show ?thesis
    by (auto simp: period_end_def e null_ancestor_def GetAncestor_ancestor_at [OF assms(2)])
qed




text \<open>In the first period there is no end of a previous period, and the statistics dereference a null pointer.\<close>

lemma statistics_first_period:
  assumes "index_ok b" "0 < Period ck" "nHeight b + 1 < Period ck"
  shows "GetStateStatisticsFor ck (Some b) cache = Some (Inl VbNullPointer)"
proof -
  have "(nHeight b + 1) div Period ck = 0" using assms index_ok_height [of b] by (simp add: div_pos_pos_trivial)
  with period_end_correct [OF assms(2,1) refl] show ?thesis by (simp add: GetStateStatisticsFor_def)
qed



section \<open>Properties\<close>









end
