(* ===== verification/Compressor.thy ===== *)
theory Compressor
  imports SigHash Coins
begin

unbundle bit_operations_syntax

text \<open>
  The compact disk formats: amounts and scripts (\<open>compressor.cpp\<close>, \<open>compressor.h\<close>), coins (\<open>coins.h\<close>) and undo data (\<open>undo.h\<close>,
  \<open>UndoWriteToDisk\<close> and \<open>UndoReadFromDisk\<close> of \<open>validation.cpp\<close>). A \<open>uint64_t\<close> is a natural number below \<open>2 ^ 64\<close>, reduced where
  the code can wrap. Parsing a public key and writing it uncompressed are done by libsecp256k1 (the record \<open>pubkey_ops\<close>).
\<close>

section \<open>Amounts\<close>

fun strip_zeros :: "nat \<Rightarrow> nat \<Rightarrow> nat \<Rightarrow> nat \<times> nat" where
  "strip_zeros 0 n e = (n, e)"
| "strip_zeros (Suc k) n e = (if n mod 10 = 0 then strip_zeros k (n div 10) (e + 1) else (n, e))"

text \<open>The loop runs while \<open>e < 9\<close>, that is at most nine times. The assertion on the digit holds since the loop stopped early.\<close>

definition CompressAmount :: "nat \<Rightarrow> nat option" where
  "CompressAmount n =
     (if n = 0 then Some 0
      else let (m, e) = strip_zeros 9 n 0
           in if e < 9
              then let d = m mod 10
                   in if \<not> (1 \<le> d \<and> d \<le> 9) then None else Some ((1 + (m div 10 * 9 + d - 1) * 10 + e) mod 2 ^ 64)
              else Some ((1 + (m - 1) * 10 + 9) mod 2 ^ 64))"

fun times_ten :: "nat \<Rightarrow> nat \<Rightarrow> nat" where
  "times_ten 0 n = n"
| "times_ten (Suc e) n = times_ten e (n * 10 mod 2 ^ 64)"

definition DecompressAmount :: "nat \<Rightarrow> nat" where
  "DecompressAmount x =
     (if x = 0 then 0
      else let e = (x - 1) mod 10; y = (x - 1) div 10
           in times_ten e (if e < 9 then (y div 9 * 10 + (y mod 9 + 1)) mod 2 ^ 64 else (y + 1) mod 2 ^ 64))"

section \<open>Scripts\<close>

record pubkey_ops =
  pubkey_parse :: "bytes \<Rightarrow> bool"
  pubkey_uncompressed :: "bytes \<Rightarrow> bytes"

definition IsToKeyID :: "bytes \<Rightarrow> bytes option" where
  "IsToKeyID script =
     (if length script = 25 \<and> unat (script ! 0) = OP_DUP \<and> unat (script ! 1) = OP_HASH160 \<and> unat (script ! 2) = 20
         \<and> unat (script ! 23) = OP_EQUALVERIFY \<and> unat (script ! 24) = OP_CHECKSIG
      then Some (take 20 (drop 3 script)) else None)"

definition IsToScriptID :: "bytes \<Rightarrow> bytes option" where
  "IsToScriptID script =
     (if length script = 23 \<and> unat (script ! 0) = OP_HASH160 \<and> unat (script ! 1) = 20 \<and> unat (script ! 22) = OP_EQUAL
      then Some (take 20 (drop 2 script)) else None)"

text \<open>A key is set from the bytes after the push; an uncompressed one must also be a point of the curve.\<close>

definition IsToPubKey :: "pubkey_ops \<Rightarrow> bytes \<Rightarrow> bytes option" where
  "IsToPubKey pk script =
     (if length script = 35 \<and> script ! 0 = 33 \<and> unat (script ! 34) = OP_CHECKSIG \<and> (script ! 1 = 2 \<or> script ! 1 = 3)
      then CPubKey_Set (take 33 (drop 1 script))
      else if length script = 67 \<and> script ! 0 = 65 \<and> unat (script ! 66) = OP_CHECKSIG \<and> script ! 1 = 4
      then (case CPubKey_Set (take 65 (drop 1 script)) of
              None \<Rightarrow> None
            | Some key \<Rightarrow> if pubkey_parse pk key then Some key else None)
      else None)"

definition CompressScript :: "pubkey_ops \<Rightarrow> bytes \<Rightarrow> bytes option" where
  "CompressScript pk script =
     (case IsToKeyID script of
        Some keyID \<Rightarrow> Some (0 # keyID)
      | None \<Rightarrow>
          (case IsToScriptID script of
             Some scriptID \<Rightarrow> Some (1 # scriptID)
           | None \<Rightarrow>
               (case IsToPubKey pk script of
                  Some key \<Rightarrow>
                    if key ! 0 = 2 \<or> key ! 0 = 3 then Some (key ! 0 # take 32 (drop 1 key))
                    else if key ! 0 = 4 then Some ((4 OR (key ! 64 AND 1)) # take 32 (drop 1 key))
                    else None
                | None \<Rightarrow> None)))"

definition GetSpecialScriptSize :: "nat \<Rightarrow> nat" where
  "GetSpecialScriptSize nSize =
     (if nSize = 0 \<or> nSize = 1 then 20 else if nSize = 2 \<or> nSize = 3 \<or> nSize = 4 \<or> nSize = 5 then 32 else 0)"

text \<open>\<open>DecompressScript\<close>; the script is left as it is when the result is false.\<close>

definition DecompressScript :: "pubkey_ops \<Rightarrow> bytes \<Rightarrow> nat \<Rightarrow> bytes \<Rightarrow> ser_error + bool \<times> bytes" where
  "DecompressScript pk script nSize inp =
     (if nSize = 0 then Inr (True, [0x76, 0xa9, 20] @ take 20 inp @ [0x88, 0xac])
      else if nSize = 1 then Inr (True, [0xa9, 20] @ take 20 inp @ [0x87])
      else if nSize = 2 \<or> nSize = 3 then Inr (True, [33, of_nat nSize] @ take 32 inp @ [0xac])
      else if nSize = 4 \<or> nSize = 5
      then (case CPubKey_Set (of_nat (nSize - 2) # take 32 inp) of
              None \<Rightarrow> Inr (False, script)
            | Some key \<Rightarrow>
                if \<not> pubkey_parse pk key then Inr (False, script)
                else (case CPubKey_Set (pubkey_uncompressed pk key) of
                        None \<Rightarrow> Inl SerAssertFailed
                      | Some full \<Rightarrow>
                          if length full \<noteq> 65 then Inl SerAssertFailed else Inr (True, [65] @ full @ [0xac])))
      else Inr (False, script))"

definition nSpecialScripts :: nat where
  "nSpecialScripts = 6"

definition ScriptCompression_Ser :: "pubkey_ops \<Rightarrow> bytes \<Rightarrow> bytes" where
  "ScriptCompression_Ser pk script =
     (case CompressScript pk script of
        Some compr \<Rightarrow> compr
      | None \<Rightarrow> WriteVarInt ((length script + nSpecialScripts) mod 2 ^ 32) @ script)"

definition ScriptCompression_Unser :: "pubkey_ops \<Rightarrow> bytes \<Rightarrow> bytes reader" where
  "ScriptCompression_Unser pk script s =
     bindE (ReadVarInt UINT32_MAX s) (\<lambda>(nSize, s1).
       if nSize < nSpecialScripts
       then bindE (stream_read (GetSpecialScriptSize nSize) s1) (\<lambda>(vch, s2).
              bindE (DecompressScript pk script nSize vch) (\<lambda>(_, script'). Inr (script', s2)))
       else let n = nSize - nSpecialScripts
            in if n > MAX_SCRIPT_SIZE
               then bindE (stream_read n s1) (\<lambda>(_, s2). Inr (script @ push_opcode OP_RETURN, s2))
               else stream_read n s1)"

section \<open>Outputs, coins and undo data\<close>

definition AmountCompression_Ser :: "CAmount \<Rightarrow> ser_error + bytes" where
  "AmountCompression_Ser v =
     (case CompressAmount (nat (v mod 2 ^ 64)) of None \<Rightarrow> Inl SerAssertFailed | Some n \<Rightarrow> Inr (WriteVarInt n))"

definition AmountCompression_Unser :: "CAmount reader" where
  "AmountCompression_Unser s =
     bindE (ReadVarInt UINT64_MAX s) (\<lambda>(v, s1).
       let n = DecompressAmount v in Inr (if n < 2 ^ 63 then int n else int n - 2 ^ 64, s1))"

definition TxOutCompression_Ser :: "pubkey_ops \<Rightarrow> CTxOut \<Rightarrow> ser_error + bytes" where
  "TxOutCompression_Ser pk out =
     bindE (AmountCompression_Ser (nValue out)) (\<lambda>a. Inr (a @ ScriptCompression_Ser pk (scriptPubKey out)))"

definition TxOutCompression_Unser :: "pubkey_ops \<Rightarrow> CTxOut \<Rightarrow> CTxOut reader" where
  "TxOutCompression_Unser pk out s =
     bindE (AmountCompression_Unser s) (\<lambda>(v, s1).
     bindE (ScriptCompression_Unser pk (scriptPubKey out) s1) (\<lambda>(script, s2).
     Inr (\<lparr>nValue = v, scriptPubKey = script\<rparr>, s2)))"

text \<open>The metadata of a coin in one 32-bit number: 30 bits of the height are left of it.\<close>

definition coin_code :: "Coin \<Rightarrow> nat" where
  "coin_code c =
     (coin_nHeight c * 4 + (if coin_fCoinBase c then 2 else 0) + (if coin_fCoinStake c then 1 else 0)) mod 2 ^ 32"

definition coin_of_code :: "nat \<Rightarrow> CTxOut \<Rightarrow> Coin" where
  "coin_of_code code out =
     \<lparr>coin_out = out, coin_fCoinBase = odd (code div 2), coin_fCoinStake = odd code, coin_nHeight = code div 4\<rparr>"

definition SerializeCoin :: "pubkey_ops \<Rightarrow> Coin \<Rightarrow> ser_error + bytes" where
  "SerializeCoin pk c =
     (if IsSpent c then Inl SerAssertFailed
      else bindE (TxOutCompression_Ser pk (coin_out c)) (\<lambda>out. Inr (WriteVarInt (coin_code c) @ out)))"

definition UnserializeCoin :: "pubkey_ops \<Rightarrow> Coin \<Rightarrow> Coin reader" where
  "UnserializeCoin pk obj s =
     bindE (ReadVarInt UINT32_MAX s) (\<lambda>(code, s1).
     bindE (TxOutCompression_Unser pk (coin_out obj) s1) (\<lambda>(out, s2).
     Inr (coin_of_code code out, s2)))"

definition TxInUndo_Ser :: "pubkey_ops \<Rightarrow> Coin \<Rightarrow> ser_error + bytes" where
  "TxInUndo_Ser pk c =
     bindE (TxOutCompression_Ser pk (coin_out c)) (\<lambda>out.
       Inr (WriteVarInt (coin_code c) @ (if coin_nHeight c > 0 then [0] else []) @ out))"

definition TxInUndo_Unser :: "pubkey_ops \<Rightarrow> Coin \<Rightarrow> Coin reader" where
  "TxInUndo_Unser pk obj s =
     bindE (ReadVarInt UINT32_MAX s) (\<lambda>(code, s1).
     bindE (if code div 4 > 0 then bindE (ReadVarInt UINT32_MAX s1) (\<lambda>(_, s2). Inr ((), s2)) else Inr ((), s1)) (\<lambda>(_, s3).
     bindE (TxOutCompression_Unser pk (coin_out obj) s3) (\<lambda>(out, s4).
     Inr (coin_of_code code out, s4))))"

fun ser_all :: "('a \<Rightarrow> ser_error + bytes) \<Rightarrow> 'a list \<Rightarrow> ser_error + bytes" where
  "ser_all ser [] = Inr []"
| "ser_all ser (x # xs) = bindE (ser x) (\<lambda>b. bindE (ser_all ser xs) (\<lambda>bs. Inr (b @ bs)))"

definition ser_vectorE :: "('a \<Rightarrow> ser_error + bytes) \<Rightarrow> 'a list \<Rightarrow> ser_error + bytes" where
  "ser_vectorE ser v = bindE (ser_all ser v) (\<lambda>bs. Inr (WriteCompactSize (length v) @ bs))"

type_synonym CTxUndo = "Coin list"
type_synonym CBlockUndo = "CTxUndo list"

definition SerializeBlockUndo :: "pubkey_ops \<Rightarrow> CBlockUndo \<Rightarrow> ser_error + bytes" where
  "SerializeBlockUndo pk = ser_vectorE (ser_vectorE (TxInUndo_Ser pk))"

definition UnserializeBlockUndo :: "pubkey_ops \<Rightarrow> CBlockUndo reader" where
  "UnserializeBlockUndo pk = unser_vector (unser_vector (TxInUndo_Unser pk coinEmpty))"

text \<open>
  The record that \<open>UndoWriteToDisk\<close> appends after the message start and the size, and how \<open>UndoReadFromDisk\<close> reads
  it at that position: the undo data and the hash of the previous block hash with the data. \<open>None\<close> is the error return.
\<close>

definition undo_record :: "pubkey_ops \<Rightarrow> CBlockUndo \<Rightarrow> bytes \<Rightarrow> ser_error + bytes" where
  "undo_record pk blockundo hashPrev =
     bindE (SerializeBlockUndo pk blockundo) (\<lambda>data. Inr (data @ HASH256 (hashPrev @ data)))"

definition UndoReadFromDisk :: "pubkey_ops \<Rightarrow> bytes \<Rightarrow> bytes \<Rightarrow> CBlockUndo option" where
  "UndoReadFromDisk pk hashPrev file =
     (case UnserializeBlockUndo pk file of
        Inl _ \<Rightarrow> None
      | Inr (blockundo, rest) \<Rightarrow>
          (case stream_read 32 rest of
             Inl _ \<Rightarrow> None
           | Inr (hashChecksum, _) \<Rightarrow>
               if hashChecksum \<noteq> HASH256 (hashPrev @ take (length file - length rest) file) then None else Some blockundo))"

section \<open>Amounts are compressed without loss\<close>

lemma strip_zeros_spec:
  "strip_zeros k n e = (m, e') \<Longrightarrow>
     e \<le> e' \<and> e' \<le> e + k \<and> n = m * 10 ^ (e' - e) \<and> (e' < e + k \<longrightarrow> m mod 10 \<noteq> 0) \<and> (0 < n \<longrightarrow> 0 < m)"
proof (induction k arbitrary: n e)
  case (Suc k)
  show ?case
  proof (cases "n mod 10 = 0")
    case True
    then have n: "n = n div 10 * 10" by (metis mod_0_imp_dvd dvd_div_mult_self)
    from True Suc.prems have "strip_zeros k (n div 10) (e + 1) = (m, e')" by simp
    note IH = Suc.IH [OF this]
    then have "n = m * 10 ^ (e' - (e + 1)) * 10" using n by simp
    also have "\<dots> = m * 10 ^ (e' - e)" 
    proof -
      obtain j where "e' = e + 1 + j" using IH le_Suc_ex by blast
      then show ?thesis by simp
    qed
    finally show ?thesis using IH n by (auto simp: Suc_le_eq)
  qed (use Suc.prems in auto)
qed auto

lemma times_ten_eq: "n * 10 ^ e < 2 ^ 64 \<Longrightarrow> times_ten e n = n * 10 ^ e"
proof (induction e arbitrary: n)
  case (Suc e)
  have "n * 10 * 1 \<le> n * 10 * 10 ^ e" by (intro mult_left_mono) simp_all
  also have "\<dots> < 2 ^ 64" using Suc.prems by (simp only: power_Suc mult.assoc)
  finally have "n * 10 mod 2 ^ 64 = n * 10" by (simp only: mod_less mult_1_right)
  then show ?case using Suc.IH [of "n * 10"] Suc.prems by (simp only: times_ten.simps power_Suc mult.assoc)
qed simp

lemma CompressAmount_spec:
  assumes "9 * n < 2 ^ 64" "0 < n"
  obtains m e where "n = m * 10 ^ e" "e < 9" "m mod 10 \<noteq> 0" "1 + (m div 10 * 9 + (m mod 10 - 1)) * 10 + e < 2 ^ 64"
    "CompressAmount n = Some (1 + (m div 10 * 9 + (m mod 10 - 1)) * 10 + e)"
  | m where "n = m * 10 ^ 9" "0 < m" "CompressAmount n = Some (1 + (m - 1) * 10 + 9)"
proof -
  obtain m e where me: "strip_zeros 9 n 0 = (m, e)" by fastforce
  note spec = strip_zeros_spec [OF me]
  have m: "0 < m" using spec assms(2) by simp
  show ?thesis
  proof (cases "e < 9")
    case True
    then have d: "m mod 10 \<noteq> 0" using spec by auto
    define x where "x = 1 + (m div 10 * 9 + (m mod 10 - 1)) * 10 + e"
    obtain q j where "m = q * 10 + Suc j" "j < 9" using d that [of "m div 10" "m mod 10 - 1"] by simp
    then have x: "x \<le> 9 * m + e" by (simp add: x_def mod_Suc div_Suc)
    have "x \<le> 9 * n"
    proof (cases "e = 0")
      case False
      then have "m * 10 ^ 1 \<le> n" using spec by (simp only: diff_zero) (intro mult_left_mono power_increasing, auto)
      with x True m show ?thesis by simp
    qed (use x spec in simp)
    with assms(1) have lt: "x < 2 ^ 64" by simp
    have x': "1 + (m div 10 * 9 + m mod 10 - 1) * 10 + e = x" using d by (simp add: x_def)
    have "1 \<le> m mod 10 \<and> m mod 10 \<le> 9" using d by linarith
    then have "CompressAmount n = Some x"
      using True me assms(2) lt by (simp only: CompressAmount_def Let_def prod.case x' mod_less) simp
    with that(1) [of m e] True d spec lt show ?thesis by (simp add: x_def)
  next
    case False
    then have e: "e = 9" using spec by simp
    then have n: "n = m * 10 ^ 9" using spec by simp
    with assms(1) m have "1 + (m - 1) * 10 + 9 < 2 ^ 64" by simp
    then have "CompressAmount n = Some (1 + (m - 1) * 10 + 9)"
      using me e assms(2) by (simp add: CompressAmount_def)
    with that(2) n m show ?thesis by blast
  qed
qed

lemma amount_lossless:
  assumes "9 * n < 2 ^ 64"
  shows "\<exists>x. CompressAmount n = Some x \<and> x < 2 ^ 64 \<and> DecompressAmount x = n"
proof (cases "n = 0")
  case True
  then show ?thesis by (simp add: CompressAmount_def DecompressAmount_def)
next
  case False
  then have "0 < n" by simp
  from assms this show ?thesis
  proof (cases rule: CompressAmount_spec)
    case (1 m e)
    define j where "j = m mod 10 - 1"
    define y where "y = m div 10 * 9 + j"
    have d: "j < 9" "j + 1 = m mod 10" using 1(3) by (simp_all add: j_def)
    then have y: "y div 9 = m div 10" "y mod 9 = j" by (simp_all add: y_def)
    have m: "m div 10 * 10 + (j + 1) = m" unfolding d(2) by simp
    have lt: "m * 10 ^ e < 2 ^ 64" using assms 1(1) by simp
    moreover have "m \<le> m * 10 ^ e" by simp
    ultimately have "m mod 2 ^ 64 = m" by (simp only: mod_less order_le_less_trans)
    with lt have "times_ten e (m mod 2 ^ 64) = n" using 1(1) by (simp only: times_ten_eq)
    moreover have "(1 + y * 10 + e - 1) mod 10 = e" "(1 + y * 10 + e - 1) div 10 = y" using 1(2) by simp_all
    ultimately have "DecompressAmount (1 + y * 10 + e) = n"
      using 1(2) by (simp only: DecompressAmount_def Let_def y m if_True) simp
    then show ?thesis using 1(4,5) by (simp add: y_def j_def)
  next
    case (2 m)
    have "(1 + (m - 1) * 10 + 9 - 1) mod 10 = 9" "(1 + (m - 1) * 10 + 9 - 1) div 10 + 1 = m" using 2(2) by simp_all
    moreover have "m * 10 ^ 9 < 2 ^ 64" "m mod 2 ^ 64 = m" using assms 2(1) by simp_all
    then have "times_ten 9 (m mod 2 ^ 64) = n" using 2(1) by (simp only: times_ten_eq)
    ultimately have "DecompressAmount (1 + (m - 1) * 10 + 9) = n"
      by (simp only: DecompressAmount_def Let_def) simp
    moreover have "1 + (m - 1) * 10 + 9 < 2 ^ 64" using assms 2(1,2) by simp
    ultimately show ?thesis using 2(3) by blast
  qed
qed

section \<open>Scripts are compressed without loss\<close>

text \<open>
  What the compression of an uncompressed key relies on: a point of the curve is determined by its first coordinate and the
  parity of the second one, and the library writes the point as the 65 bytes it was parsed from.
\<close>

definition pubkey_ops_ok :: "pubkey_ops \<Rightarrow> bool" where
  "pubkey_ops_ok pk \<longleftrightarrow>
     (\<forall>key. length key = 65 \<and> key ! 0 = 4 \<and> pubkey_parse pk key \<longrightarrow>
        (let c = (2 OR (key ! 64 AND 1)) # take 32 (drop 1 key) in pubkey_parse pk c \<and> pubkey_uncompressed pk c = key))"

lemma byte_of_unat: "unat (b :: byte) = n \<Longrightarrow> b = of_nat n"
  by auto

lemma list_split_at: "j = i + n \<Longrightarrow> drop i s = take n (drop i s) @ drop j s"
  by (metis append_take_drop_id drop_drop add.commute)

lemma drop_step: "i < length s \<Longrightarrow> j = i + 1 \<Longrightarrow> drop i s = s ! i # drop j s"
  by (simp add: Cons_nth_drop_Suc)

lemma IsToKeyID_Some:
  assumes "IsToKeyID s = Some h"
  shows "s = [0x76, 0xa9, 20] @ h @ [0x88, 0xac] \<and> length h = 20"
proof -
  have len: "length s = 25" and h: "h = take 20 (drop 3 s)"
    and b: "s ! 0 = 0x76" "s ! 1 = 0xa9" "s ! 2 = 20" "s ! 23 = 0x88" "s ! 24 = 0xac"
    using assms by (auto simp: IsToKeyID_def split: if_splits dest!: byte_of_unat)
  have "drop 0 s = s ! 0 # s ! 1 # s ! 2 # drop 3 s"
    using drop_step [of 0 s 1] drop_step [of 1 s 2] drop_step [of 2 s 3] len by (simp del: One_nat_def)
  also have "drop 3 s = h @ drop 23 s" unfolding h by (rule list_split_at) simp
  also have "drop 23 s = [s ! 23, s ! 24]" using len by (simp add: drop_step [of 23 s 24] drop_step [of 24 s 25])
  finally have "drop 0 s = [s ! 0, s ! 1, s ! 2] @ h @ [s ! 23, s ! 24]" by (simp only: append.simps)
  moreover have "length h = 20" using len by (simp add: h)
  ultimately show ?thesis unfolding b drop_0 by (rule conjI)
qed

lemma IsToScriptID_Some:
  assumes "IsToScriptID s = Some h"
  shows "s = [0xa9, 20] @ h @ [0x87] \<and> length h = 20"
proof -
  have len: "length s = 23" and h: "h = take 20 (drop 2 s)"
    and b: "s ! 0 = 0xa9" "s ! 1 = 20" "s ! 22 = 0x87"
    using assms by (auto simp: IsToScriptID_def split: if_splits dest!: byte_of_unat)
  have "drop 0 s = s ! 0 # s ! 1 # drop 2 s" using drop_step [of 0 s 1] drop_step [of 1 s 2] len by (simp del: One_nat_def)
  also have "drop 2 s = h @ drop 22 s" unfolding h by (rule list_split_at) simp
  also have "drop 22 s = [s ! 22]" using len by (simp add: drop_step [of 22 s 23])
  finally have "drop 0 s = [s ! 0, s ! 1] @ h @ [s ! 22]" by (simp only: append.simps)
  moreover have "length h = 20" using len by (simp add: h)
  ultimately show ?thesis unfolding b drop_0 by (rule conjI)
qed

lemma IsToPubKey_Some:
  assumes "IsToPubKey pk s = Some key"
  shows "(s = [33] @ key @ [0xac] \<and> length key = 33 \<and> (key ! 0 = 2 \<or> key ! 0 = 3))
    \<or> (s = [65] @ key @ [0xac] \<and> length key = 65 \<and> key ! 0 = 4 \<and> pubkey_parse pk key)"
proof -
  have split: "s = s ! 0 # take n (drop 1 s) @ [s ! Suc n]" if "length s = n + 2" for n
  proof -
    have "drop 0 s = s ! 0 # drop 1 s" using drop_step [of 0 s 1] that by (simp del: One_nat_def)
    also have "drop 1 s = take n (drop 1 s) @ drop (Suc n) s" by (rule list_split_at) simp
    also have "drop (Suc n) s = [s ! Suc n]" using drop_step [of "Suc n" s "n + 2"] that by simp
    finally show ?thesis unfolding drop_0 .
  qed
  consider (c) "length s = 35" "s ! 0 = 33" "s ! 34 = 0xac" "s ! 1 = 2 \<or> s ! 1 = 3" "key = take 33 (drop 1 s)"
    | (u) "length s = 67" "s ! 0 = 65" "s ! 66 = 0xac" "s ! 1 = 4" "key = take 65 (drop 1 s)" "pubkey_parse pk key"
    using assms by (auto simp: IsToPubKey_def CPubKey_Set_def Let_def split: if_splits option.splits dest!: byte_of_unat)
  then show ?thesis
  proof cases
    case c
    then show ?thesis using split [of 33] by (intro disjI1) simp
  next
    case u
    then show ?thesis using split [of 65] by (intro disjI2) simp
  qed
qed

lemma ReadVarInt_special:
  "ReadVarInt UINT32_MAX (0 # r) = Inr (0, r)" "ReadVarInt UINT32_MAX (1 # r) = Inr (1, r)"
  "ReadVarInt UINT32_MAX (2 # r) = Inr (2, r)" "ReadVarInt UINT32_MAX (3 # r) = Inr (3, r)"
  "ReadVarInt UINT32_MAX (4 # r) = Inr (4, r)" "ReadVarInt UINT32_MAX (5 # r) = Inr (5, r)"
proof -
  have w: "WriteVarInt 0 = [0]" "WriteVarInt 1 = [1]" "WriteVarInt 2 = [2]" "WriteVarInt 3 = [3]" "WriteVarInt 4 = [4]"
    "WriteVarInt 5 = [5]" by code_simp+
  have r: "n \<le> 5 \<Longrightarrow> ReadVarInt UINT32_MAX (WriteVarInt n @ r) = Inr (n, r)" for n
    by (rule var_int32.unser_ser) (simp add: UINT32_MAX_def)
  show "ReadVarInt UINT32_MAX (0 # r) = Inr (0, r)" "ReadVarInt UINT32_MAX (1 # r) = Inr (1, r)"
    "ReadVarInt UINT32_MAX (2 # r) = Inr (2, r)" "ReadVarInt UINT32_MAX (3 # r) = Inr (3, r)"
    "ReadVarInt UINT32_MAX (4 # r) = Inr (4, r)" "ReadVarInt UINT32_MAX (5 # r) = Inr (5, r)"
    using r [of 0] r [of 1] r [of 2] r [of 3] r [of 4] r [of 5] by (simp_all only: w append.simps)
qed

lemma parity_cases: "(b :: byte) AND 1 = 0 \<or> b AND 1 = 1"
  by (cases "even b") (auto simp: and_one_eq even_iff_mod_2_eq_zero odd_iff_mod_2_eq_one)

lemma CompressScript_special:
  assumes "CompressScript pk script = Some compr" "pubkey_ops_ok pk"
  shows "ScriptCompression_Unser pk script0 (compr @ r) = Inr (script, r)"
proof -
  consider (k) h where "IsToKeyID script = Some h" "compr = 0 # h"
    | (s) h where "IsToScriptID script = Some h" "compr = 1 # h"
    | (c) key where "IsToPubKey pk script = Some key" "key ! 0 = 2 \<or> key ! 0 = 3" "compr = key ! 0 # take 32 (drop 1 key)"
    | (u) key where "IsToPubKey pk script = Some key" "key ! 0 = 4" "compr = (4 OR (key ! 64 AND 1)) # take 32 (drop 1 key)"
    using assms(1) by (auto simp: CompressScript_def split: option.splits if_splits)
  then show ?thesis
  proof cases
    case k
    with IsToKeyID_Some [OF k(1)] show ?thesis
      by (simp add: ScriptCompression_Unser_def ReadVarInt_special nSpecialScripts_def GetSpecialScriptSize_def
          stream_read_append DecompressScript_def)
  next
    case s
    with IsToScriptID_Some [OF s(1)] show ?thesis
      by (simp add: ScriptCompression_Unser_def ReadVarInt_special nSpecialScripts_def GetSpecialScriptSize_def
          stream_read_append DecompressScript_def)
  next
    case c
    with IsToPubKey_Some [OF c(1)] obtain x tl where "script = [33] @ key @ [0xac]" "key = x # tl" "length tl = 32"
      by (auto simp: length_Suc_conv numeral_eq_Suc)
    with c show ?thesis
      by (auto simp: ScriptCompression_Unser_def ReadVarInt_special nSpecialScripts_def GetSpecialScriptSize_def
          stream_read_append DecompressScript_def)
  next
    case u
    with IsToPubKey_Some [OF u(1)] have key: "script = [65] @ key @ [0xac]" "length key = 65" "pubkey_parse pk key" by auto
    have "pubkey_parse pk ((2 OR (key ! 64 AND 1)) # take 32 (drop 1 key))
        \<and> pubkey_uncompressed pk ((2 OR (key ! 64 AND 1)) # take 32 (drop 1 key)) = key"
      using assms(2) key u(2) by (simp add: pubkey_ops_ok_def Let_def)
    moreover have "key \<noteq> [] \<and> hd key = 4" using key u(2) by (cases key) simp_all
    ultimately show ?thesis using parity_cases [of "key ! 64"] key(1,2) u(3)
      by (auto simp: ScriptCompression_Unser_def ReadVarInt_special nSpecialScripts_def GetSpecialScriptSize_def
          stream_read_append DecompressScript_def CPubKey_Set_def CPubKey_GetLen_def)
  qed
qed

lemma CompressScript_short: "CompressScript pk script = Some compr \<Longrightarrow> length script \<le> 67"
  by (auto simp: CompressScript_def split: option.splits dest: IsToKeyID_Some IsToScriptID_Some IsToPubKey_Some)

text \<open>A script above the size limit is replaced by the opcode that makes every spend fail.\<close>

lemma script_lossless:
  assumes "pubkey_ops_ok pk" "length script + nSpecialScripts < 2 ^ 32"
  shows "ScriptCompression_Unser pk script0 (ScriptCompression_Ser pk script @ r) =
    Inr (if length script \<le> MAX_SCRIPT_SIZE then script else script0 @ push_opcode OP_RETURN, r)"
proof (cases "CompressScript pk script")
  case (Some compr)
  then have "length script \<le> MAX_SCRIPT_SIZE" using CompressScript_short [OF Some] by (simp add: MAX_SCRIPT_SIZE_def)
  then show ?thesis
    using Some CompressScript_special [OF Some assms(1)] by (simp add: ScriptCompression_Ser_def)
next
  case None
  have "ReadVarInt UINT32_MAX (WriteVarInt (length script + nSpecialScripts) @ script @ r)
    = Inr (length script + nSpecialScripts, script @ r)"
    by (rule var_int32.unser_ser) (use assms(2) in \<open>simp add: UINT32_MAX_def\<close>)
  with None assms(2) show ?thesis
    by (simp add: ScriptCompression_Ser_def ScriptCompression_Unser_def stream_read_append)
qed

section \<open>Coins and undo data are stored without loss\<close>

text \<open>The contract of a writer with assertions: on well-formed data it succeeds, and the reader recovers the data.\<close>

locale checked_codec =
  fixes ser :: "'a \<Rightarrow> ser_error + bytes"
    and unser :: "'a reader"
    and wf :: "'a \<Rightarrow> bool"
  assumes unser_ser: "wf x \<Longrightarrow> \<exists>b. ser x = Inr b \<and> (\<forall>r. unser (b @ r) = Inr (x, r))"
begin

lemma ser_all_read_n:
  "list_all wf xs \<Longrightarrow> \<exists>b. ser_all ser xs = Inr b \<and> (\<forall>r. read_n unser (length xs) (b @ r) = Inr (xs, r))"
proof (induction xs)
  case (Cons x xs)
  then obtain b where b: "ser_all ser xs = Inr b" "read_n unser (length xs) (b @ r) = Inr (xs, r)" for r by auto
  from Cons.prems unser_ser [of x] obtain a where "ser x = Inr a" "unser (a @ r) = Inr (x, r)" for r by auto
  with b show ?case by (auto intro!: exI [of _ "a @ b"])
qed simp

lemma vector_checked_codec:
  "checked_codec (ser_vectorE ser) (unser_vector unser) (\<lambda>v. length v \<le> MAX_SIZE \<and> list_all wf v)"
proof
  fix v
  assume v: "length v \<le> MAX_SIZE \<and> list_all wf v"
  then obtain b where "ser_all ser v = Inr b" "read_n unser (length v) (b @ r) = Inr (v, r)" for r
    using ser_all_read_n by auto
  with v show "\<exists>b. ser_vectorE ser v = Inr b \<and> (\<forall>r. unser_vector unser (b @ r) = Inr (v, r))"
    by (auto simp: ser_vectorE_def unser_vector_def compact_size.unser_ser)
qed

end

text \<open>An output of the ledger: its amount is in the money range and its script can be executed.\<close>

definition stored_out :: "pubkey_ops \<Rightarrow> CTxOut \<Rightarrow> bool" where
  "stored_out pk out \<longleftrightarrow> pubkey_ops_ok pk \<and> MoneyRange (nValue out) \<and> length (scriptPubKey out) \<le> MAX_SCRIPT_SIZE"

definition stored_coin :: "pubkey_ops \<Rightarrow> Coin \<Rightarrow> bool" where
  "stored_coin pk c \<longleftrightarrow> stored_out pk (coin_out c) \<and> coin_nHeight c < 2 ^ 30"

lemma AmountCompression_correct:
  assumes "MoneyRange v"
  obtains b where "AmountCompression_Ser v = Inr b" "\<And>r. AmountCompression_Unser (b @ r) = Inr (v, r)"
proof -
  have v: "0 \<le> v" "v < 2 ^ 60" using assms by (simp_all add: MoneyRange_def MAX_MONEY_def COIN_def)
  then have "9 * nat v < 2 ^ 64" "nat v < 2 ^ 63" "v mod 2 ^ 64 = v" by simp_all
  then obtain x where x: "CompressAmount (nat v) = Some x" "x \<le> UINT64_MAX" "DecompressAmount x = nat v"
    using amount_lossless [of "nat v"] by (auto simp: UINT64_MAX_def)
  with v show thesis
    by (intro that [of "WriteVarInt x"])
      (auto simp: AmountCompression_Ser_def AmountCompression_Unser_def \<open>v mod 2 ^ 64 = v\<close> var_int64.unser_ser Let_def)
qed

interpretation out_codec: checked_codec "TxOutCompression_Ser pk" "TxOutCompression_Unser pk out0" "stored_out pk" for pk out0
proof
  fix out
  assume out: "stored_out pk out"
  then obtain b where b: "AmountCompression_Ser (nValue out) = Inr b" "\<And>r. AmountCompression_Unser (b @ r) = Inr (nValue out, r)"
    using AmountCompression_correct by (auto simp: stored_out_def)
  have "ScriptCompression_Unser pk (scriptPubKey out0) (ScriptCompression_Ser pk (scriptPubKey out) @ r)
    = Inr (scriptPubKey out, r)" for r
    using out by (subst script_lossless) (auto simp: stored_out_def MAX_SCRIPT_SIZE_def nSpecialScripts_def)
  with b show "\<exists>b. TxOutCompression_Ser pk out = Inr b \<and> (\<forall>r. TxOutCompression_Unser pk out0 (b @ r) = Inr (out, r))"
    by (auto simp: TxOutCompression_Ser_def TxOutCompression_Unser_def)
qed

lemma coin_of_code_code: "coin_nHeight c < 2 ^ 30 \<Longrightarrow> coin_of_code (coin_code c) (coin_out c) = c"
  by (cases c) (auto simp: coin_of_code_def coin_code_def)

lemma coin_code_bounds: "coin_code c \<le> UINT32_MAX" "coin_nHeight c < 2 ^ 30 \<Longrightarrow> coin_code c div 4 = coin_nHeight c"
  by (auto simp: coin_code_def UINT32_MAX_def)

interpretation coin_codec: checked_codec "SerializeCoin pk" "UnserializeCoin pk obj" "stored_coin pk" for pk obj
proof
  fix c
  assume c: "stored_coin pk c"
  then obtain b where "TxOutCompression_Ser pk (coin_out c) = Inr b"
    "TxOutCompression_Unser pk (coin_out obj) (b @ r) = Inr (coin_out c, r)" for r
    using out_codec.unser_ser [of pk "coin_out c" "coin_out obj"] by (auto simp: stored_coin_def)
  moreover have "\<not> IsSpent c" using c by (auto simp: stored_coin_def stored_out_def IsSpent_def MoneyRange_def)
  ultimately show "\<exists>b. SerializeCoin pk c = Inr b \<and> (\<forall>r. UnserializeCoin pk obj (b @ r) = Inr (c, r))"
    using c by (auto simp: SerializeCoin_def UnserializeCoin_def var_int32.unser_ser coin_code_bounds coin_of_code_code stored_coin_def)
qed

interpretation txin_undo: checked_codec "TxInUndo_Ser pk" "TxInUndo_Unser pk obj" "stored_coin pk" for pk obj
proof
  fix c
  assume c: "stored_coin pk c"
  then obtain b where "TxOutCompression_Ser pk (coin_out c) = Inr b"
    "TxOutCompression_Unser pk (coin_out obj) (b @ r) = Inr (coin_out c, r)" for r
    using out_codec.unser_ser [of pk "coin_out c" "coin_out obj"] by (auto simp: stored_coin_def)
  then show "\<exists>b. TxInUndo_Ser pk c = Inr b \<and> (\<forall>r. TxInUndo_Unser pk obj (b @ r) = Inr (c, r))"
    using c by (auto simp: TxInUndo_Ser_def TxInUndo_Unser_def var_int32.unser_ser coin_code_bounds coin_of_code_code
        ReadVarInt_special stored_coin_def)
qed

interpretation tx_undo: checked_codec "ser_vectorE (TxInUndo_Ser pk)" "unser_vector (TxInUndo_Unser pk obj)"
  "\<lambda>v. length v \<le> MAX_SIZE \<and> list_all (stored_coin pk) v" for pk obj
  by (rule txin_undo.vector_checked_codec)

definition stored_undo :: "pubkey_ops \<Rightarrow> CBlockUndo \<Rightarrow> bool" where
  "stored_undo pk u \<longleftrightarrow>
     length u \<le> MAX_SIZE \<and> list_all (\<lambda>v. length v \<le> MAX_SIZE \<and> list_all (stored_coin pk) v) u"

interpretation block_undo: checked_codec "SerializeBlockUndo pk" "UnserializeBlockUndo pk" "stored_undo pk" for pk
  using tx_undo.vector_checked_codec [of pk coinEmpty]
  by (simp only: SerializeBlockUndo_def UnserializeBlockUndo_def stored_undo_def [abs_def])

lemma UndoReadFromDisk_record:
  assumes "SerializeBlockUndo pk u = Inr data" "\<And>r. UnserializeBlockUndo pk (data @ r) = Inr (u, r)"
  shows "UndoReadFromDisk pk hashPrev ((data @ HASH256 m) @ r) =
    (if HASH256 m \<noteq> HASH256 (hashPrev @ data) then None else Some u)"
  using assms(2) [of "HASH256 m @ r"] by (simp add: UndoReadFromDisk_def stream_read_append)

text \<open>
C30: The coins database loses nothing. A coin whose amount is in the money range, whose script is not longer than
\<open>MAX_SCRIPT_SIZE\<close> and whose height is below \<open>2 ^ 30\<close> is written by \<open>Coin::Serialize\<close> (compressed amount, compressed script and
packed metadata) without tripping an assertion, and \<open>Coin::Unserialize\<close> reads exactly this coin back and leaves what
follows. The one thing needed of libsecp256k1 is that it recovers an uncompressed key from its compressed form.
\<close>

theorem coin_roundtrip:
  assumes "pubkey_ops_ok pk"
    and "MoneyRange (nValue (coin_out c))" "length (scriptPubKey (coin_out c)) \<le> MAX_SCRIPT_SIZE" "coin_nHeight c < 2 ^ 30"
  shows "\<exists>b. SerializeCoin pk c = Inr b \<and> (\<forall>r. UnserializeCoin pk obj (b @ r) = Inr (c, r))"
  using assms by (intro coin_codec.unser_ser) (simp add: stored_coin_def stored_out_def)

text \<open>A library with one curve point: the key \<open>4 1...1 3...3\<close>, whose second coordinate is odd.\<close>

definition sample_key :: bytes where
  "sample_key = 4 # replicate 32 1 @ replicate 32 3"

definition sample_pubkeys :: pubkey_ops where
  "sample_pubkeys = \<lparr>pubkey_parse = \<lambda>k. k \<in> {sample_key, 3 # replicate 32 1}, pubkey_uncompressed = \<lambda>_. sample_key\<rparr>"

definition stake_coin :: Coin where
  "stake_coin = \<lparr>coin_out = \<lparr>nValue = 50 * COIN, scriptPubKey = [65] @ sample_key @ [0xac]\<rparr>,
     coin_fCoinBase = False, coin_fCoinStake = True, coin_nHeight = 77\<rparr>"

lemma sample_pubkeys_ok: "pubkey_ops_ok sample_pubkeys"
proof -
  have "sample_key ! 64 = 3" "drop 1 sample_key = replicate 32 1 @ replicate 32 3" "length sample_key = 65" by code_simp+
  then show ?thesis
    by (auto simp: pubkey_ops_ok_def sample_pubkeys_def Let_def)
qed

lemma stake_coin_stored:
  "MoneyRange (nValue (coin_out stake_coin))" "length (scriptPubKey (coin_out stake_coin)) \<le> MAX_SCRIPT_SIZE"
  "coin_nHeight stake_coin < 2 ^ 30"
  by (simp_all add: stake_coin_def sample_key_def MoneyRange_def MAX_MONEY_def COIN_def MAX_SCRIPT_SIZE_def)

theorem coin_roundtrip_witness:
  "pubkey_ops_ok sample_pubkeys \<and>
   (\<exists>b. SerializeCoin sample_pubkeys stake_coin = Inr b \<and> UnserializeCoin sample_pubkeys coinEmpty b = Inr (stake_coin, []))"
  using coin_roundtrip [OF sample_pubkeys_ok stake_coin_stored, of coinEmpty] sample_pubkeys_ok
  by (metis append_Nil2)

text \<open>
C11: Undo data survives the disk and is tied to the parent of its block. For undo data of well-formed coins, the record that
\<open>UndoWriteToDisk\<close> writes for the previous block hash is read back by \<open>UndoReadFromDisk\<close> as the same undo data, whatever
follows it in the file. Read for a block with another previous hash, the same record is refused, unless \<open>HASH256\<close> collides on
the two checksummed messages. The checksum does not name the block itself: for another block with the same parent the record is accepted.
\<close>

theorem undo_file_roundtrip:
  assumes "stored_undo pk u"
  shows "\<exists>data. undo_record pk u prev = Inr (data @ HASH256 (prev @ data))
    \<and> UndoReadFromDisk pk prev ((data @ HASH256 (prev @ data)) @ r) = Some u
    \<and> (inj_on HASH256 {prev @ data, prev' @ data} \<and> prev' \<noteq> prev \<longrightarrow>
         UndoReadFromDisk pk prev' ((data @ HASH256 (prev @ data)) @ r) = None)"
proof -
  obtain data where data: "SerializeBlockUndo pk u = Inr data" "UnserializeBlockUndo pk (data @ r) = Inr (u, r)" for r
    using block_undo.unser_ser [OF assms] by auto
  note read = UndoReadFromDisk_record [OF data]
  have "undo_record pk u prev = Inr (data @ HASH256 (prev @ data))" by (simp add: undo_record_def data)
  moreover have "inj_on HASH256 {prev @ data, prev' @ data} \<and> prev' \<noteq> prev \<longrightarrow> HASH256 (prev @ data) \<noteq> HASH256 (prev' @ data)"
    by (auto simp: inj_on_def)
  ultimately show ?thesis by (intro exI [of _ data]) (auto simp only: read if_True if_False simp_thms)
qed

theorem undo_file_roundtrip_witness:
  "stored_undo sample_pubkeys [[stake_coin], []] \<and>
   (\<exists>data. UndoReadFromDisk sample_pubkeys (replicate 32 0) (data @ HASH256 (replicate 32 0 @ data)) = Some [[stake_coin], []])"
proof -
  have s: "stored_undo sample_pubkeys [[stake_coin], []]"
    using sample_pubkeys_ok stake_coin_stored by (simp add: stored_undo_def stored_coin_def stored_out_def MAX_SIZE_def)
  from undo_file_roundtrip [OF this, of "replicate 32 0" "[]"] s show ?thesis by auto
qed

end
