(* ===== verification/Pow.thy ===== *)
theory Pow
  imports Chain "HOL-Library.Signed_Division"
begin

text \<open>
  Difficulty (\<open>pow.cpp\<close>): the target of the next block under the rules of the old chain (\<open>GetNextTargetRequired\<close>) and of
  the present one (\<open>GetNextWorkRequired\<close> with its three algorithms), and the proof-of-work test. A failed assertion and a
  division by zero are errors. The floating-point expressions of \<open>KimotoGravityWell\<close> are the record \<open>kgw_floats\<close>.
\<close>

datatype pow_error = PowAssertFailed | PowDivisionByZero

record pow_params =
  powLimit :: bytes
  posLimit :: bytes
  fPowAllowMinDifficultyBlocks :: bool
  fPowNoRetargeting :: bool
  nPowTargetSpacing :: int
  nPosTargetSpacingV1 :: int
  nPosTargetSpacingV2 :: int
  nSpecTargetFix :: int
  nPowTargetTimespan :: int
  nPowKGWHeight :: int
  nPowDGWHeight :: int
  nMinimumDifficultyBlocks :: int

definition nTargetTimespan :: int where
  "nTargetTimespan = 10 * 60"

definition DifficultyAdjustmentInterval :: "pow_params \<Rightarrow> int" where
  "DifficultyAdjustmentInterval p = nPowTargetTimespan p sdiv nPowTargetSpacing p"

abbreviation nBits :: "CBlockIndex \<Rightarrow> nat" where
  "nBits b \<equiv> unat (bi_nBits (info b))"

section \<open>Arithmetic with 64-bit operands\<close>

text \<open>
  \<open>a *= x\<close> for an \<open>int64_t\<close> resolves to the operator with a 32-bit factor, so the factor is truncated; \<open>a /= x\<close> converts
  the divisor to a 256-bit number by way of \<open>uint64_t\<close>.
\<close>

definition times64 :: "base_uint \<Rightarrow> int \<Rightarrow> base_uint" where
  "times64 a x = uint_mul32 a (word_of_int x)"

definition div64 :: "base_uint \<Rightarrow> int \<Rightarrow> pow_error + base_uint" where
  "div64 a x =
     (case uint_div a (uint_of_u64 (nat (x mod 2 ^ 64))) of None \<Rightarrow> Inl PowDivisionByZero | Some q \<Rightarrow> Inr q)"

definition to_compact :: "base_uint \<Rightarrow> pow_error + nat" where
  "to_compact a = (case GetCompact a False of None \<Rightarrow> Inl PowAssertFailed | Some c \<Rightarrow> Inr c)"

definition from_compact :: "nat \<Rightarrow> base_uint" where
  "from_compact c = fst (SetCompact c)"

section \<open>The old chain\<close>

definition GetNextTargetRequired :: "CBlockIndex option \<Rightarrow> bool \<Rightarrow> pow_params \<Rightarrow> pow_error + nat" where
  "GetNextTargetRequired pindexLast fProofOfStake p =
     (case pindexLast of
        None \<Rightarrow> to_compact (UintToArith256 (powLimit p))
      | Some pindexTip \<Rightarrow>
          let bnTargetLimit = UintToArith256 (if fProofOfStake then posLimit p else powLimit p);
              pindexPrev = GetLastBlockIndex pindexTip fProofOfStake
          in case pprev pindexPrev of
               None \<Rightarrow> to_compact bnTargetLimit
             | Some q \<Rightarrow>
                 let pindexPrevPrev = GetLastBlockIndex q fProofOfStake
                 in case pprev pindexPrevPrev of
                      None \<Rightarrow> to_compact bnTargetLimit
                    | Some _ \<Rightarrow>
                        let spacing0 = GetBlockTime pindexPrev - GetBlockTime pindexPrevPrev;
                            nActualSpacing = (if nHeight pindexTip < nSpecTargetFix p \<and> spacing0 < 0 then nPosTargetSpacingV1 p else spacing0);
                            target_Spacing = (if nHeight pindexTip > nSpecTargetFix p then nPosTargetSpacingV2 p else nPosTargetSpacingV1 p);
                            nInterval = nTargetTimespan sdiv target_Spacing;
                            bnNew0 = times64 (from_compact (nBits pindexPrev)) ((nInterval - 1) * target_Spacing + nActualSpacing + nActualSpacing)
                        in bindE (div64 bnNew0 ((nInterval + 1) * target_Spacing)) (\<lambda>bnNew.
                             to_compact (if CompareTo bnNew (uint_of_u64 0) \<le> 0 \<or> CompareTo bnNew bnTargetLimit > 0
                                         then bnTargetLimit else bnNew)))"

section \<open>Kimoto gravity well\<close>

text \<open>
  \<open>min_seconds\<close> is the conversion of \<open>nPowTargetTimespan * 0.025\<close> to an integer, and \<open>horizon mass actual target\<close> the comparison of
  the rate \<open>target / actual\<close> (one if either is zero) with the two event horizons for \<open>mass\<close> blocks.
\<close>

record kgw_floats =
  min_seconds :: "int \<Rightarrow> nat"
  horizon :: "nat \<Rightarrow> int \<Rightarrow> int \<Rightarrow> bool"

definition kgw_average :: "nat \<Rightarrow> base_uint \<Rightarrow> base_uint \<Rightarrow> pow_error + base_uint" where
  "kgw_average i bnTarget prev =
     (if i > 1 then
        (if CompareTo bnTarget prev \<ge> 0 then bindE (div64 (uint_sub bnTarget prev) (int i)) (\<lambda>d. Inr (uint_add d prev))
         else bindE (div64 (uint_sub prev bnTarget) (int i)) (\<lambda>d. Inr (uint_sub prev d)))
      else Inr bnTarget)"

fun kgw_loop ::
  "kgw_floats \<Rightarrow> pow_params \<Rightarrow> CBlockIndex \<Rightarrow> nat \<Rightarrow> nat \<Rightarrow> nat \<Rightarrow> base_uint \<times> int \<times> int \<Rightarrow> CBlockIndex \<Rightarrow>
   pow_error + base_uint \<times> int \<times> int" where
  "kgw_loop fl p pindexLast minb maxb mass (avg, actual, target) (CBlockIndex i q s) =
     (if bi_nHeight i \<le> 0 \<or> (maxb > 0 \<and> mass + 1 > maxb) then Inr (avg, actual, target)
      else bindE (kgw_average (mass + 1) (from_compact (unat (bi_nBits i))) avg) (\<lambda>avg1.
        let actual1 = max 0 (GetBlockTime pindexLast - GetBlockTime (CBlockIndex i q s));
            target1 = nPowTargetSpacing p * int (mass + 1)
        in if mass + 1 \<ge> minb \<and> horizon fl (mass + 1) actual1 target1 then Inr (avg1, actual1, target1)
           else case q of
                  None \<Rightarrow> Inr (avg1, actual1, target1)
                | Some q1 \<Rightarrow> kgw_loop fl p pindexLast minb maxb (mass + 1) (avg1, actual1, target1) q1))"

definition KimotoGravityWell :: "kgw_floats \<Rightarrow> CBlockIndex \<Rightarrow> pow_params \<Rightarrow> pow_error + nat" where
  "KimotoGravityWell fl pindexLast p =
     (let limit = UintToArith256 (powLimit p);
          PastBlocksMin = min_seconds fl (nPowTargetTimespan p) div nat (nPowTargetSpacing p);
          PastBlocksMax = nat (nPowTargetTimespan p * 7) div nat (nPowTargetSpacing p)
      in if nHeight pindexLast = 0 \<or> nat (nHeight pindexLast) < PastBlocksMin then to_compact limit
         else bindE (kgw_loop fl p pindexLast PastBlocksMin PastBlocksMax 0 (uint_of_u64 0, 0, 0) pindexLast) (\<lambda>(avg, actual, target).
                bindE (if actual \<noteq> 0 \<and> target \<noteq> 0 then div64 (times64 avg actual) target else Inr avg) (\<lambda>bnNew.
                  to_compact (if CompareTo bnNew limit > 0 then limit else bnNew))))"

section \<open>Dark gravity wave\<close>

text \<open>The loop over the last blocks: \<open>k\<close> iterations follow the one with number \<open>n\<close>.\<close>

definition dgw_average :: "nat \<Rightarrow> base_uint \<Rightarrow> CBlockIndex \<Rightarrow> pow_error + base_uint" where
  "dgw_average n avg b =
     (let bnTarget = from_compact (nBits b)
      in if n = 1 then Inr bnTarget else div64 (uint_add (uint_mul32 avg (of_nat n)) bnTarget) (int n + 1))"

fun dgw_loop :: "nat \<Rightarrow> nat \<Rightarrow> base_uint \<Rightarrow> CBlockIndex \<Rightarrow> pow_error + base_uint \<times> CBlockIndex" where
  "dgw_loop 0 n avg b = bindE (dgw_average n avg b) (\<lambda>avg1. Inr (avg1, b))"
| "dgw_loop (Suc k) n avg b =
     bindE (dgw_average n avg b) (\<lambda>avg1.
       case pprev b of None \<Rightarrow> Inl PowAssertFailed | Some q \<Rightarrow> dgw_loop k (n + 1) avg1 q)"

definition DarkGravityWave :: "CBlockIndex \<Rightarrow> pow_params \<Rightarrow> pow_error + nat" where
  "DarkGravityWave pindexLast p =
     (let limit = UintToArith256 (powLimit p); nPastBlocks = 24; span = nPastBlocks * nPowTargetSpacing p
      in if nHeight pindexLast < nPastBlocks then to_compact limit
         else bindE (dgw_loop 23 1 (uint_of_u64 0) pindexLast) (\<lambda>(avg, b).
                let t0 = GetBlockTime pindexLast - GetBlockTime b;
                    t1 = (if t0 < span sdiv 3 then span sdiv 3 else t0);
                    nActualTimespan = (if t1 > span * 3 then span * 3 else t1)
                in bindE (div64 (times64 avg nActualTimespan) span) (\<lambda>bnNew.
                     to_compact (if CompareTo bnNew limit > 0 then limit else bnNew))))"

section \<open>The present chain\<close>

definition CalculateNextWorkRequired :: "CBlockIndex \<Rightarrow> int \<Rightarrow> pow_params \<Rightarrow> pow_error + nat" where
  "CalculateNextWorkRequired pindexLast nFirstBlockTime p =
     (if fPowNoRetargeting p then Inr (nBits pindexLast)
      else let t0 = GetBlockTime pindexLast - nFirstBlockTime;
               t1 = (if t0 < nPowTargetTimespan p sdiv 4 then nPowTargetTimespan p sdiv 4 else t0);
               nActualTimespan = (if t1 > nPowTargetTimespan p * 4 then nPowTargetTimespan p * 4 else t1);
               limit = UintToArith256 (powLimit p)
           in bindE (div64 (times64 (from_compact (nBits pindexLast)) nActualTimespan) (nPowTargetTimespan p)) (\<lambda>bnNew.
                to_compact (if CompareTo bnNew limit > 0 then limit else bnNew)))"

fun last_normal_block :: "int \<Rightarrow> nat \<Rightarrow> CBlockIndex \<Rightarrow> CBlockIndex" where
  "last_normal_block interval nProofOfWorkLimit (CBlockIndex i q s) =
     (case q of
        Some q1 \<Rightarrow>
          if bi_nHeight i smod interval \<noteq> 0 \<and> unat (bi_nBits i) = nProofOfWorkLimit
          then last_normal_block interval nProofOfWorkLimit q1 else CBlockIndex i q s
      | None \<Rightarrow> CBlockIndex i q s)"

definition GetNextWorkRequiredBTC :: "CBlockIndex \<Rightarrow> int \<Rightarrow> pow_params \<Rightarrow> pow_error + nat" where
  "GetNextWorkRequiredBTC pindexLast nBlockTime p =
     bindE (to_compact (UintToArith256 (powLimit p))) (\<lambda>nProofOfWorkLimit.
       let interval = DifficultyAdjustmentInterval p
       in if (nHeight pindexLast + 1) smod interval \<noteq> 0
          then if fPowAllowMinDifficultyBlocks p
               then if nBlockTime > GetBlockTime pindexLast + nPowTargetSpacing p * 2 then Inr nProofOfWorkLimit
                    else Inr (nBits (last_normal_block interval nProofOfWorkLimit pindexLast))
               else Inr (nBits pindexLast)
          else let nHeightFirst = nHeight pindexLast - (interval - 1)
               in if \<not> nHeightFirst \<ge> 0 then Inl PowAssertFailed
                  else case GetAncestor nHeightFirst pindexLast of
                         Inr (Some b) \<Rightarrow> CalculateNextWorkRequired pindexLast (GetBlockTime b) p
                       | _ \<Rightarrow> Inl PowAssertFailed)"

definition GetNextWorkRequired :: "kgw_floats \<Rightarrow> CBlockIndex \<Rightarrow> int \<Rightarrow> pow_params \<Rightarrow> pow_error + nat" where
  "GetNextWorkRequired fl pindexLast nBlockTime p =
     (let limit = UintToArith256 (powLimit p)
      in if nHeight pindexLast < nMinimumDifficultyBlocks p then to_compact limit
         else if nHeight pindexLast + 1 < nPowKGWHeight p then GetNextWorkRequiredBTC pindexLast nBlockTime p
         else if fPowAllowMinDifficultyBlocks p \<and> nBlockTime > GetBlockTime pindexLast + 2 * 60 * 60 then to_compact limit
         else if fPowAllowMinDifficultyBlocks p \<and> nBlockTime > GetBlockTime pindexLast + nPowTargetSpacing p * 4
         then let bnNew = uint_mul32 (from_compact (nBits pindexLast)) 10
              in if CompareTo bnNew limit > 0 then to_compact limit else to_compact bnNew
         else if nHeight pindexLast + 1 < nPowDGWHeight p then KimotoGravityWell fl pindexLast p
         else DarkGravityWave pindexLast p)"

definition CheckProofOfWork :: "bytes \<Rightarrow> nat \<Rightarrow> pow_params \<Rightarrow> bool" where
  "CheckProofOfWork hash bits p =
     (let (bnTarget, fNegative, fOverflow) = SetCompact bits
      in if fNegative \<or> EqualTo bnTarget 0 \<or> fOverflow \<or> CompareTo bnTarget (UintToArith256 (powLimit p)) > 0 then False
         else if CompareTo (UintToArith256 hash) bnTarget > 0 then False
         else True)"

section \<open>Targets stay within the limit\<close>

text \<open>
  A compact target that decodes to a number up to \<open>L\<close>, neither negative nor too large for 256 bits. Zero is such a target, although
  \<open>CheckProofOfWork\<close> refuses it.
\<close>

definition target_ok :: "nat \<Rightarrow> nat \<Rightarrow> bool" where
  "target_ok L c \<longleftrightarrow> (case SetCompact c of (t, fNegative, fOverflow) \<Rightarrow> \<not> fNegative \<and> \<not> fOverflow \<and> val t \<le> L)"

lemma length_UintToArith256 [simp]: "length (UintToArith256 h) = WIDTH"
  by (simp add: UintToArith256_def)

lemma length_from_compact [simp]: "length (from_compact c) = WIDTH"
  by (simp add: from_compact_def SetCompact_length)

lemma length_times64 [simp]: "length (times64 a x) = length a"
  by (simp add: times64_def)

lemma length_uint_of_u64 [simp]: "length (uint_of_u64 x) = WIDTH"
  by (simp add: uint_of_u64_def WIDTH_def)

lemma to_compact_round:
  assumes "length a = WIDTH"
  obtains c w where "to_compact a = Inr c" "SetCompact c = (w, False, False)" "val w \<le> val a" "2 ^ 15 * (val a - val w) \<le> val a"
  using compact_lossy [OF assms] by (auto simp: to_compact_def)

lemma to_compact_ok:
  assumes "length a = WIDTH" "val a \<le> L"
  shows "\<exists>c. to_compact a = Inr c \<and> target_ok L c"
proof -
  obtain c w where "to_compact a = Inr c" "SetCompact c = (w, False, False)" "val w \<le> val a"
    using assms(1) by (rule to_compact_round)
  with assms(2) show ?thesis by (simp add: target_ok_def)
qed

lemma to_compact_pos:
  assumes "length a = WIDTH" "0 < val a" "val a \<le> L"
  shows "\<exists>c. to_compact a = Inr c \<and> target_ok L c \<and> 0 < val (from_compact c)"
proof -
  obtain c w where "to_compact a = Inr c" "SetCompact c = (w, False, False)" "val w \<le> val a" "2 ^ 15 * (val a - val w) \<le> val a"
    using assms(1) by (rule to_compact_round)
  with assms(2,3) show ?thesis by (cases "val w = 0") (simp_all add: target_ok_def from_compact_def)
qed

lemma div64_ok:
  assumes "length a = WIDTH" "0 < x" "x < 2 ^ 64"
  obtains q where "div64 a x = Inr q" "length q = WIDTH" "val q = val a div nat x"
proof -
  have x: "nat (x mod 2 ^ 64) = nat x" "nat x < 2 ^ 64" using assms by simp_all
  then have "val (uint_of_u64 (nat (x mod 2 ^ 64))) = nat x" by (simp only: val_uint_of_u64)
  with val_uint_div [OF assms(1), of "uint_of_u64 (nat (x mod 2 ^ 64))"] assms(2)
  obtain q where q: "uint_div a (uint_of_u64 (nat (x mod 2 ^ 64))) = Some q" "val q = val a div nat x" by auto
  with length_uint_div [OF assms(1) _ q(1)] show thesis by (intro that [of q]) (simp_all add: div64_def)
qed

lemma clamp_ok:
  assumes "length q = WIDTH" "length limit = WIDTH"
  shows "length (if CompareTo q limit > 0 then limit else q) = WIDTH \<and>
    val (if CompareTo q limit > 0 then limit else q) = min (val limit) (val q)"
  using assms by (auto simp: CompareTo_val sgn_if split: if_splits)

lemma clamped_compact:
  "length q = WIDTH \<Longrightarrow> \<exists>c. to_compact (if CompareTo q (UintToArith256 h) > 0 then UintToArith256 h else q) = Inr c
     \<and> target_ok (val (UintToArith256 h)) c"
  using clamp_ok [of q "UintToArith256 h"] by (intro to_compact_ok) simp_all

text \<open>Every block of the branch has a target within the limit.\<close>

fun bits_ok :: "nat \<Rightarrow> CBlockIndex \<Rightarrow> bool" where
  "bits_ok L (CBlockIndex i q s) \<longleftrightarrow> target_ok L (unat (bi_nBits i)) \<and> (case q of None \<Rightarrow> True | Some q1 \<Rightarrow> bits_ok L q1)"

definition pow_params_ok :: "pow_params \<Rightarrow> bool" where
  "pow_params_ok p \<longleftrightarrow>
     0 < nPowTargetSpacing p \<and> nPowTargetSpacing p \<le> nPowTargetTimespan p \<and> nPowTargetTimespan p < 2 ^ 25"

lemma bits_ok_top: "bits_ok L b \<Longrightarrow> target_ok L (nBits b)"
  by (cases b) simp

lemma last_normal_block_ok: "bits_ok L b \<Longrightarrow> bits_ok L (last_normal_block n l b)"
  by (induction n l b rule: last_normal_block.induct) (auto split: option.splits)

lemma retarget_ok:
  assumes "length a = WIDTH" "0 < x" "x < 2 ^ 64"
  shows "\<exists>c. bindE (div64 a x) (\<lambda>q. to_compact (if CompareTo q (UintToArith256 h) > 0 then UintToArith256 h else q)) = Inr c
     \<and> target_ok (val (UintToArith256 h)) c"
proof -
  obtain q where "div64 a x = Inr q" "length q = WIDTH" using assms by (rule div64_ok)
  with clamped_compact [of q h] show ?thesis by simp
qed

lemma CalculateNextWorkRequired_ok:
  assumes "pow_params_ok p" "bits_ok (val (UintToArith256 (powLimit p))) b"
  shows "\<exists>c. CalculateNextWorkRequired b t p = Inr c \<and> target_ok (val (UintToArith256 (powLimit p))) c"
proof (cases "fPowNoRetargeting p")
  case True
  with assms show ?thesis by (simp add: CalculateNextWorkRequired_def bits_ok_top)
next
  case False
  have "0 < nPowTargetTimespan p" "nPowTargetTimespan p < 2 ^ 64" using assms(1) by (auto simp: pow_params_ok_def)
  with False show ?thesis unfolding CalculateNextWorkRequired_def Let_def if_not_P [OF False] by (intro retarget_ok) simp_all
qed

lemma GetNextWorkRequiredBTC_ok:
  assumes "pow_params_ok p" "index_ok b" "bits_ok (val (UintToArith256 (powLimit p))) b"
  shows "\<exists>c. GetNextWorkRequiredBTC b t p = Inr c \<and> target_ok (val (UintToArith256 (powLimit p))) c"
proof -
  let ?L = "val (UintToArith256 (powLimit p))"
  obtain l where l: "to_compact (UintToArith256 (powLimit p)) = Inr l" "target_ok ?L l"
    using to_compact_ok [of "UintToArith256 (powLimit p)" ?L] by auto
  define iv where "iv = DifficultyAdjustmentInterval p"
  have iv: "0 < iv" using assms(1)
    by (auto simp: iv_def DifficultyAdjustmentInterval_def pow_params_ok_def signed_divide_int_def sgn_if pos_imp_zdiv_pos_iff)
  show ?thesis
  proof (cases "(nHeight b + 1) smod iv = 0")
    case False
    with l assms(3) show ?thesis
      by (auto simp: GetNextWorkRequiredBTC_def iv_def [symmetric] bits_ok_top last_normal_block_ok)
  next
    case True
    have h: "0 \<le> nHeight b" using assms(2) by (rule index_ok_height)
    then have "(nHeight b + 1) mod iv = 0" using True iv by (simp add: signed_modulo_int_def signed_divide_int_def sgn_if minus_div_mult_eq_mod)
    then have "iv \<le> nHeight b + 1" using h by (intro zdvd_imp_le) (auto simp: dvd_eq_mod_eq_0)
    then have r: "0 \<le> nHeight b - (iv - 1)" "nHeight b - (iv - 1) \<le> nHeight b" using iv by simp_all
    obtain a where "ancestor_at (nHeight b - (iv - 1)) b = Some a" using assms(2) r by (rule ancestor_at_ok)
    then have "GetAncestor (nHeight b - (iv - 1)) b = Inr (Some a)" using GetAncestor_ancestor_at [OF assms(2)] r by simp
    with True r l CalculateNextWorkRequired_ok [OF assms(1,3)] show ?thesis
      by (simp add: GetNextWorkRequiredBTC_def iv_def [symmetric] Let_def)
  qed
qed

lemma kgw_average_ok:
  assumes "length t = WIDTH" "length prev = WIDTH" "0 < i" "i < 2 ^ 32"
  shows "\<exists>a. kgw_average i t prev = Inr a \<and> length a = WIDTH"
proof -
  have i: "0 < int i" "int i < 2 ^ 64" using assms(3,4) by simp_all
  obtain q1 where q1: "div64 (uint_sub t prev) (int i) = Inr q1" "length q1 = WIDTH"
    using div64_ok [OF _ i, of "uint_sub t prev"] assms by auto
  obtain q2 where "div64 (uint_sub prev t) (int i) = Inr q2" "length q2 = WIDTH"
    using div64_ok [OF _ i, of "uint_sub prev t"] assms by auto
  with q1 show ?thesis using assms by (simp add: kgw_average_def)
qed

lemma kgw_loop_ok:
  assumes "index_ok b" "0 < nPowTargetSpacing p" "nPowTargetSpacing p < 2 ^ 25" "int mass + nHeight b < 2 ^ 31"
    "length avg = WIDTH" "0 \<le> target" "target < 2 ^ 64"
  shows "\<exists>avg' actual' target'. kgw_loop fl p pindexLast mn mx mass (avg, actual, target) b = Inr (avg', actual', target')
    \<and> length avg' = WIDTH \<and> 0 \<le> target' \<and> target' < 2 ^ 64"
  using assms
proof (induction fl p pindexLast mn mx mass "(avg, actual, target)" b arbitrary: avg actual target rule: kgw_loop.induct)
  case (1 fl p pindexLast mn mx mass avg actual target i q s)
  show ?case
  proof (cases "bi_nHeight i \<le> 0 \<or> (mx > 0 \<and> mass + 1 > mx)")
    case False
    let ?target = "nPowTargetSpacing p * int (mass + 1)"
    obtain q1 where q1: "q = Some q1" "index_ok q1" "bi_nHeight i = nHeight q1 + 1"
      using 1(2) False by (auto split: option.splits)
    have m: "mass + 1 < 2 ^ 32" using 1(5) False by simp
    obtain avg1 where a: "kgw_average (mass + 1) (from_compact (unat (bi_nBits i))) avg = Inr avg1" "length avg1 = WIDTH"
      using kgw_average_ok [OF length_from_compact 1(6) _ m] by auto
    have "?target \<le> 2 ^ 25 * 2 ^ 32" using 1(3,4) m by (intro mult_mono) simp_all
    then have t: "0 \<le> ?target" "?target < 2 ^ 64" using 1(3) by simp_all
    have "int (mass + 1) + nHeight q1 < 2 ^ 31" using 1(5) q1(3) by simp
    note IH = 1(1) [OF False refl refl _ q1(1,2) 1(3,4) this a(2) t]
    show ?thesis using False a q1(1) t IH by (auto simp: Let_def simp del: of_nat_add of_nat_Suc)
  qed (use 1 in simp)
qed

lemma KimotoGravityWell_ok:
  assumes "pow_params_ok p" "index_ok b" "nHeight b < 2 ^ 31"
  shows "\<exists>c. KimotoGravityWell fl b p = Inr c \<and> target_ok (val (UintToArith256 (powLimit p))) c"
proof -
  have p: "0 < nPowTargetSpacing p" "nPowTargetSpacing p < 2 ^ 25" using assms(1) by (auto simp: pow_params_ok_def)
  define mn where "mn = min_seconds fl (nPowTargetTimespan p) div nat (nPowTargetSpacing p)"
  define mx where "mx = nat (nPowTargetTimespan p * 7) div nat (nPowTargetSpacing p)"
  obtain avg actual target where loop: "kgw_loop fl p b mn mx 0 (uint_of_u64 0, 0, 0) b = Inr (avg, actual, target)"
    "length avg = WIDTH" "0 \<le> target" "target < 2 ^ 64"
    using kgw_loop_ok [OF assms(2) p, of 0 "uint_of_u64 0" 0 fl b mn mx 0] assms(3) by auto
  obtain l where l: "to_compact (UintToArith256 (powLimit p)) = Inr l" "target_ok (val (UintToArith256 (powLimit p))) l"
    using to_compact_ok [of "UintToArith256 (powLimit p)"] by auto
  show ?thesis
    using loop l retarget_ok [of "times64 avg actual" target "powLimit p"] clamped_compact [of avg "powLimit p"]
    unfolding KimotoGravityWell_def Let_def mn_def [symmetric] mx_def [symmetric] by (cases "actual \<noteq> 0 \<and> target \<noteq> 0") auto
qed




lemma dgw_average_total:
  assumes "n \<le> 24" "length avg = WIDTH"
  shows "\<exists>a. dgw_average n avg b = Inr a \<and> length a = WIDTH"
proof -
  obtain q where "div64 (uint_add (uint_mul32 avg (of_nat n)) (from_compact (nBits b))) (int n + 1) = Inr q" "length q = WIDTH"
    using div64_ok [of "uint_add (uint_mul32 avg (of_nat n)) (from_compact (nBits b))" "int n + 1"] assms by auto
  then show ?thesis by (simp add: dgw_average_def Let_def)
qed

lemma dgw_loop_total:
  assumes "index_ok b" "int k \<le> nHeight b" "0 < n" "n + k \<le> 24" "length avg = WIDTH"
  shows "\<exists>a c. dgw_loop k n avg b = Inr (a, c) \<and> length a = WIDTH"
  using assms
proof (induction k arbitrary: n avg b)
  case (Suc k)
  have "0 < nHeight b" using Suc.prems(2) by simp
  then obtain q where q: "pprev b = Some q" "index_ok q" "nHeight b = nHeight q + 1"
    using Suc.prems(1) by (auto elim: index_ok_pprev)
  obtain a where a: "dgw_average n avg b = Inr a" "length a = WIDTH"
    using dgw_average_total [of n avg b] Suc.prems(4,5) by auto
  from Suc.IH [OF q(2), where n = "n + 1" and avg = a] Suc.prems a q show ?case by simp
next
  case 0
  then show ?case using dgw_average_total [of n avg b] by auto
qed

lemma DarkGravityWave_ok:
  assumes "pow_params_ok p" "index_ok b"
  shows "\<exists>c. DarkGravityWave b p = Inr c \<and> target_ok (val (UintToArith256 (powLimit p))) c"
proof (cases "nHeight b < 24")
  case True
  then show ?thesis using to_compact_ok [of "UintToArith256 (powLimit p)"] by (simp add: DarkGravityWave_def)
next
  case False
  then obtain avg c where loop: "dgw_loop 23 1 (uint_of_u64 0) b = Inr (avg, c)" "length avg = WIDTH"
    using dgw_loop_total [of b 23 1 "uint_of_u64 0"] assms(2) by auto
  have "0 < 24 * nPowTargetSpacing p" "24 * nPowTargetSpacing p < 2 ^ 64" using assms(1) by (auto simp: pow_params_ok_def)
  from retarget_ok [OF _ this] loop False show ?thesis by (simp add: DarkGravityWave_def Let_def)
qed

section \<open>Properties\<close>

lemma GetNextTargetRequired_ok:
  assumes "nPosTargetSpacingV1 p \<in> {1..600}" "nPosTargetSpacingV2 p \<in> {1..600}"
    and "0 < val (UintToArith256 (if fProofOfStake then posLimit p else powLimit p))"
  shows "\<exists>c. GetNextTargetRequired (Some b) fProofOfStake p = Inr c \<and>
    target_ok (val (UintToArith256 (if fProofOfStake then posLimit p else powLimit p))) c \<and> 0 < val (from_compact c)"
proof -
  let ?L = "UintToArith256 (if fProofOfStake then posLimit p else powLimit p)"
  have limit: "\<exists>c. to_compact ?L = Inr c \<and> target_ok (val ?L) c \<and> 0 < val (from_compact c)"
    using assms(3) by (intro to_compact_pos) simp_all
  have spacing: "0 < (nTargetTimespan sdiv x + 1) * x" "(nTargetTimespan sdiv x + 1) * x < 2 ^ 64" if "x \<in> {1..600}" for x
  proof -
    have x: "1 \<le> x" "x \<le> 600" using that by simp_all
    then have "0 \<le> 600 div x * x" by (simp add: pos_imp_zdiv_nonneg_iff)
    moreover have "600 div x * x \<le> 600" using div_mult_mod_eq [of 600 x] pos_mod_sign [of x 600] x(1) by linarith
    moreover have "(nTargetTimespan sdiv x + 1) * x = 600 div x * x + x"
      using x(1) by (simp add: nTargetTimespan_def signed_divide_int_def sgn_if distrib_right)
    ultimately show "0 < (nTargetTimespan sdiv x + 1) * x" "(nTargetTimespan sdiv x + 1) * x < 2 ^ 64" using x by simp_all
  qed
  have step: "\<exists>c. bindE (div64 (times64 (from_compact n) y) ((nTargetTimespan sdiv x + 1) * x))
      (\<lambda>q. to_compact (if CompareTo q (uint_of_u64 0) \<le> 0 \<or> CompareTo q ?L > 0 then ?L else q)) = Inr c \<and>
      target_ok (val ?L) c \<and> 0 < val (from_compact c)" if x: "x \<in> {1..600}" for n x y
  proof -
    obtain q where q: "div64 (times64 (from_compact n) y) ((nTargetTimespan sdiv x + 1) * x) = Inr q" "length q = WIDTH"
      using div64_ok [OF _ spacing [OF x], of "times64 (from_compact n) y"] by auto
    have "\<exists>c. to_compact (if CompareTo q (uint_of_u64 0) \<le> 0 \<or> CompareTo q ?L > 0 then ?L else q) = Inr c \<and>
        target_ok (val ?L) c \<and> 0 < val (from_compact c)"
      using assms(3) q(2) by (intro to_compact_pos) (auto simp: CompareTo_val val_uint_of_u64 sgn_if split: if_splits)
    with q(1) show ?thesis by simp
  qed
  have "(if nHeight b > nSpecTargetFix p then nPosTargetSpacingV2 p else nPosTargetSpacingV1 p) \<in> {1..600}" using assms(1,2) by simp
  note last = step [OF this]
  show ?thesis
    unfolding GetNextTargetRequired_def Let_def option.case
    by (simp only: split: option.split) (intro conjI allI impI limit last)
qed

text \<open>
C15: No block is asked for less than the limit of the network. For a well-formed branch whose blocks all have targets within \<open>powLimit\<close>,
the rules of the present chain (\<open>GetNextWorkRequired\<close>, whichever algorithm applies, whatever time the block claims and however the
floating-point part rounds) compute the next target without a failed assertion or a division by zero, and the target is not negative,
does not overflow and is within \<open>powLimit\<close> again; that it is not zero is not claimed. The rule of the old chain
(\<open>GetNextTargetRequired\<close>) does the same on every branch, for proofs of stake with \<open>posLimit\<close>, and its target is moreover positive. The
parameters are those of a network: positive spacings (for the old rule of at most ten minutes) and positive limits.
\<close>

theorem next_target_in_limit:
  assumes "pow_params_ok p" "index_ok b" "nHeight b < 2 ^ 31" "bits_ok (val (UintToArith256 (powLimit p))) b"
    and "nPosTargetSpacingV1 p \<in> {1..600}" "nPosTargetSpacingV2 p \<in> {1..600}"
    and "0 < val (UintToArith256 (powLimit p))" "0 < val (UintToArith256 (posLimit p))"
  shows "(\<exists>c. GetNextWorkRequired fl b t p = Inr c \<and> target_ok (val (UintToArith256 (powLimit p))) c) \<and>
    (\<exists>c. GetNextTargetRequired (Some b) fProofOfStake p = Inr c \<and>
       target_ok (val (UintToArith256 (if fProofOfStake then posLimit p else powLimit p))) c \<and> 0 < val (from_compact c))"
proof -
  let ?L = "UintToArith256 (powLimit p)" and ?n = "uint_mul32 (from_compact (nBits b)) 10"
  have limit: "\<exists>c. to_compact ?L = Inr c \<and> target_ok (val ?L) c" by (intro to_compact_ok) simp_all
  have tenfold: "\<exists>c. (if CompareTo ?n ?L > 0 then to_compact ?L else to_compact ?n) = Inr c \<and> target_ok (val ?L) c"
    using clamped_compact [of ?n "powLimit p"] by (simp split: if_splits)
  have "\<exists>c. GetNextWorkRequired fl b t p = Inr c \<and> target_ok (val ?L) c"
    unfolding GetNextWorkRequired_def Let_def
    using limit tenfold GetNextWorkRequiredBTC_ok [OF assms(1,2,4)] KimotoGravityWell_ok [OF assms(1-3)] DarkGravityWave_ok [OF assms(1,2)]
    by (simp only: split: if_split) blast
  with GetNextTargetRequired_ok [OF assms(5,6), of fProofOfStake b] assms(7,8) show ?thesis by simp
qed

definition sample_pow :: pow_params where
  "sample_pow =
     \<lparr>powLimit = replicate 30 0xff @ [0, 0], posLimit = replicate 29 0xff @ [0x0f, 0, 0], fPowAllowMinDifficultyBlocks = False,
      fPowNoRetargeting = False, nPowTargetSpacing = 120, nPosTargetSpacingV1 = 90, nPosTargetSpacingV2 = 120,
      nSpecTargetFix = 310000, nPowTargetTimespan = 28800, nPowKGWHeight = 0, nPowDGWHeight = 0, nMinimumDifficultyBlocks = 0\<rparr>"

lemma sample_pow_limit: "val (UintToArith256 (powLimit sample_pow)) = 2 ^ 240 - 1"
proof -
  have "[0..<8] = [0, 1, 2, 3, 4, 5, 6, 7]" by (simp add: upt_rec)
  moreover have "powLimit sample_pow = replicate 4 0xff @ replicate 4 0xff @ replicate 4 0xff @ replicate 4 0xff @ replicate 4 0xff
      @ replicate 4 0xff @ replicate 4 0xff @ [0xff, 0xff, 0, 0]" by (simp add: sample_pow_def numeral_eq_Suc)
  moreover have "replicate 4 x = [x, x, x, x]" for x :: byte by (simp add: numeral_eq_Suc)
  ultimately have "UintToArith256 (powLimit sample_pow) = [0xffffffff, 0xffffffff, 0xffffffff, 0xffffffff, 0xffffffff, 0xffffffff, 0xffffffff, 0xffff]"
    by (simp add: UintToArith256_def WIDTH_def)
  then show ?thesis by simp
qed

lemma sample_target:
  "SetCompact 0x1d00ffff = (from_compact 0x1d00ffff, False, False)" "val (from_compact 0x1d00ffff) = 0xffff * 256 ^ 26"
proof -
  have "compact_rep (0xffff * 256 ^ 26) 29 0xffff" by (simp add: compact_rep_def)
  from SetCompact_rep [OF this] obtain w where "SetCompact 0x1d00ffff = (w, False, False)" "val w = 0xffff * 256 ^ 26" by auto
  then show "SetCompact 0x1d00ffff = (from_compact 0x1d00ffff, False, False)" "val (from_compact 0x1d00ffff) = 0xffff * 256 ^ 26"
    by (simp_all add: from_compact_def)
qed

lemma sample_target_ok: "target_ok (val (UintToArith256 (powLimit sample_pow))) 0x1d00ffff"
  by (simp add: target_ok_def sample_target sample_pow_limit)

lemma sample_pos_limit: "val (UintToArith256 (posLimit sample_pow)) = 2 ^ 236 - 1"
proof -
  have "[0..<8] = [0, 1, 2, 3, 4, 5, 6, 7]" by (simp add: upt_rec)
  moreover have "posLimit sample_pow = replicate 4 0xff @ replicate 4 0xff @ replicate 4 0xff @ replicate 4 0xff @ replicate 4 0xff
      @ replicate 4 0xff @ replicate 4 0xff @ [0xff, 0x0f, 0, 0]" by (simp add: sample_pow_def numeral_eq_Suc)
  moreover have "replicate 4 x = [x, x, x, x]" for x :: byte by (simp add: numeral_eq_Suc)
  ultimately have "UintToArith256 (posLimit sample_pow) = [0xffffffff, 0xffffffff, 0xffffffff, 0xffffffff, 0xffffffff, 0xffffffff, 0xffffffff, 0xfff]"
    by (simp add: UintToArith256_def WIDTH_def)
  then show ?thesis by simp
qed

theorem next_target_in_limit_witness:
  "(\<exists>c. GetNextWorkRequired \<lparr>min_seconds = \<lambda>_. 0, horizon = \<lambda>_ _ _. False\<rparr> sample_1 0 sample_pow = Inr c
     \<and> target_ok (val (UintToArith256 (powLimit sample_pow))) c) \<and>
   (\<exists>c. GetNextTargetRequired (Some sample_1) True sample_pow = Inr c
     \<and> target_ok (val (UintToArith256 (if True then posLimit sample_pow else powLimit sample_pow))) c \<and> 0 < val (from_compact c))"
proof (rule next_target_in_limit)
  show "pow_params_ok sample_pow" by (simp add: pow_params_ok_def sample_pow_def)
  show "index_ok sample_1" by (rule sample_index_ok)
  show "nHeight sample_1 < 2 ^ 31" by (simp add: sample_1_def sample_block_def)
  show "bits_ok (val (UintToArith256 (powLimit sample_pow))) sample_1"
    using sample_target_ok by (simp add: sample_1_def sample_0_def sample_block_def)
  show "nPosTargetSpacingV1 sample_pow \<in> {1..600}" "nPosTargetSpacingV2 sample_pow \<in> {1..600}" by (simp_all add: sample_pow_def)
qed (simp_all add: sample_pow_limit sample_pos_limit)





text \<open>
C27: A block cannot claim more work than its hash proves. If \<open>CheckProofOfWork\<close> accepts a hash for the target of a block, the work
\<open>GetBlockProof\<close> credits to this block, times the hash read as a number plus one, is at most \<open>2 ^ 256\<close>; the credited work is positive.
\<close>

theorem claimed_work_is_proved:
  assumes "CheckProofOfWork hash (nBits b) p"
  shows "\<exists>w. GetBlockProof b = Some w \<and> 0 < val w \<and> val w * (val (UintToArith256 hash) + 1) \<le> 2 ^ 256"
proof -
  obtain t neg ov where t: "SetCompact (nBits b) = (t, neg, ov)" by (rule prod_cases3)
  have len: "length t = WIDTH" using SetCompact_length [of "nBits b"] by (simp add: t)
  have c: "\<not> neg" "\<not> ov" "val t \<noteq> 0" "val (UintToArith256 hash) \<le> val t"
    using assms len by (auto simp: CheckProofOfWork_def t EqualTo_val CompareTo_val sgn_if split: if_splits)
  obtain w where w: "GetBlockProof b = Some w" "val w = 2 ^ 256 div (val t + 1)"
    using GetBlockProof_correct [of b] c by (auto simp: t)
  have "val t < 2 ^ 256" using val_bound [of t] len by (simp add: WIDTH_def)
  then have "0 < val w" unfolding w(2) by (simp add: div_greater_zero_iff)
  moreover have "val w * (val (UintToArith256 hash) + 1) \<le> 2 ^ 256"
  proof (rule order_trans)
    show "val w * (val (UintToArith256 hash) + 1) \<le> val w * (val t + 1)" using c(4) by simp
    show "val w * (val t + 1) \<le> 2 ^ 256" unfolding w(2) by (rule div_times_less_eq_dividend)
  qed
  ultimately show ?thesis using w(1) by blast
qed

theorem claimed_work_is_proved_witness:
  "CheckProofOfWork (replicate 32 0) (nBits sample_1) sample_pow \<and> (\<exists>w. GetBlockProof sample_1 = Some w \<and> 0 < val w)"
proof -
  have "UintToArith256 (replicate 32 0) = replicate WIDTH 0" by (simp add: UintToArith256_def WIDTH_def map_replicate_const)
  then have z: "val (UintToArith256 (replicate 32 0)) = 0" by simp
  have b: "nBits sample_1 = 0x1d00ffff" by (simp add: sample_1_def sample_block_def)
  have "CheckProofOfWork (replicate 32 0) (nBits sample_1) sample_pow"
    unfolding b CheckProofOfWork_def sample_target(1)
    by (simp add: EqualTo_val CompareTo_val sample_target(2) sample_pow_limit z)
  with claimed_work_is_proved [OF this] show ?thesis by blast
qed

end
