(* ===== verification/BlockCheck.thy ===== *)
theory BlockCheck
  imports Block TxVerify VersionBits Pow
begin

unbundle bit_operations_syntax

text \<open>
  The checks of headers and blocks before they are connected (\<open>validation.cpp\<close>): context-free (\<open>CheckBlockHeader\<close>,
  \<open>CheckBlock\<close>) and against the preceding headers (\<open>ContextualCheckBlockHeader\<close>, \<open>ContextualCheckTransaction\<close>,
  \<open>ContextualCheckBlock\<close>), with the script flags and the version of a block and the subsidy. A rejection carries the penalty, the
  reason (without the numbers some messages print) and the flag \<open>corruptionPossible\<close>. The proof-of-stake kernel is the argument \<open>CheckProofOfStake\<close>.
\<close>

datatype block_error = BlockReject nat string bool | BlockOutOfRange | BlockAssertFailed

record consensus_params =
  hashGenesisBlock :: bytes
  hashDevnetGenesisBlock :: bytes
  nForkHeight :: int
  nSkipTimeUntil :: int
  BIP34Height :: int
  BIP65Height :: int
  BIP66Height :: int
  DIP0001Height :: int
  DIP0003Height :: int
  nRewForkDecreaseV18 :: int
  nRestoreRewardV18 :: int
  nSuperblockCycle :: int
  FirstPoSv2Block :: u32
  cp_pow :: pow_params
  cp_vb :: vb_params

section \<open>Limits\<close>

definition MAX_DIP0001_BLOCK_SIZE :: nat where
  "MAX_DIP0001_BLOCK_SIZE = 6000000"

definition MaxBlockSize :: "bool \<Rightarrow> nat" where
  "MaxBlockSize fDIP0001Active = (if fDIP0001Active then MAX_DIP0001_BLOCK_SIZE else MAX_LEGACY_BLOCK_SIZE)"

definition MaxBlockSigOps :: "bool \<Rightarrow> nat" where
  "MaxBlockSigOps fDIP0001Active = MaxBlockSize fDIP0001Active div 50"

abbreviation (input) SER_NETWORK :: u32 where "SER_NETWORK \<equiv> 1"

section \<open>Context-free checks\<close>

text \<open>The block with time \<open>1541202300\<close> is exempt from the proof-of-work test.\<close>

definition CheckBlockHeader :: "'c sha_ops \<Rightarrow> consensus_params \<Rightarrow> 'a CBlockHeader_scheme \<Rightarrow> bool \<Rightarrow> block_error + unit" where
  "CheckBlockHeader ops cp h fCheckProof =
     (if fCheckProof \<and> \<not> CheckProofOfWork (GetPoWHash ops h) (unat (bh_nBits h)) (cp_pow cp) \<and> bh_nTime h \<noteq> 1541202300
      then Inl (BlockReject 50 ''high-hash'' False)
      else if hashDevnetGenesisBlock cp \<noteq> uint256_null \<and> bh_hashPrevBlock h = hashGenesisBlock cp
              \<and> hdr_GetHash ops h \<noteq> hashDevnetGenesisBlock cp
      then Inl (BlockReject 100 ''devnet-genesis'' False)
      else Inr ())"

fun check_transactions :: "CTransaction list \<Rightarrow> block_error + unit" where
  "check_transactions [] = Inr ()"
| "check_transactions (tx # txs) =
     (case CheckTransaction tx of
        Inl (Reject level reason) \<Rightarrow> Inl (BlockReject level reason False)
      | Inl _ \<Rightarrow> Inl BlockAssertFailed
      | Inr _ \<Rightarrow> check_transactions txs)"

text \<open>
  \<open>CheckBlock\<close> on a block and its mutable flag \<open>fChecked\<close>. Two calls of \<open>state.DoS\<close> pass their message in the place of
  \<open>corruptionIn\<close>, where a string literal converts to \<open>true\<close>. The first output of the coinbase is read before anything has checked
  that it exists.
\<close>

definition CheckBlock ::
  "'c sha_ops \<Rightarrow> curve_ops \<Rightarrow> consensus_params \<Rightarrow> bool \<Rightarrow> bool \<Rightarrow> bool \<times> CBlock \<Rightarrow> block_error + bool \<times> CBlock" where
  "CheckBlock ops cv cp fCheckProof fCheckMerkleRoot s =
     (let (fChecked, b) = s
      in if fChecked then Inr (fChecked, b)
         else bindE (CheckBlockHeader ops cp b (fCheckProof \<and> \<not> hdr_IsProofOfStake b)) (\<lambda>_.
           if fCheckMerkleRoot \<and> bh_hashMerkleRoot b \<noteq> fst (BlockMerkleRoot (vtx b)) then Inl (BlockReject 100 ''bad-txnmrklroot'' True)
           else if fCheckMerkleRoot \<and> snd (BlockMerkleRoot (vtx b)) then Inl (BlockReject 100 ''bad-txns-duplicate'' True)
           else if vtx b = [] \<or> length (vtx b) > MaxBlockSize True \<or> length (SerializeBlock SER_NETWORK b) > MaxBlockSize True
           then Inl (BlockReject 100 ''bad-blk-length'' False)
           else if \<not> HasCoinBase b then Inl (BlockReject 100 ''bad-cb-missing'' False)
           else if list_ex IsCoinBase (drop 1 (vtx b)) then Inl (BlockReject 100 ''bad-cb-multiple'' False)
           else if list_ex IsCoinStake (drop 2 (vtx b)) then Inl (BlockReject 100 ''bad-cs-missing'' True)
           else if hdr_IsProofOfStake b \<and> \<not> IsProofOfStakeV2 b \<and> vout (vtx b ! 0) = [] then Inl BlockOutOfRange
           else if hdr_IsProofOfStake b \<and> \<not> IsProofOfStakeV2 b \<and> \<not> CTxOut_IsEmpty (vout (vtx b ! 0) ! 0)
           then Inl (BlockReject 100 ''bad-cb-notempty'' True)
           else
             let (stake, b1) = (if IsProofOfStakeV2 b \<and> fCheckProof then HasStake ops cv b else (True, b))
             in if \<not> stake then Inl (BlockReject 100 ''bad-PoS-stake'' False)
                else bindE (check_transactions (vtx b)) (\<lambda>_.
                  if sum_list (map GetLegacySigOpCount (vtx b)) > MaxBlockSigOps True then Inl (BlockReject 100 ''bad-blk-sigops'' False)
                  else Inr (fCheckProof \<and> fCheckMerkleRoot, b1))))"

section \<open>Proofs of work and stake\<close>

definition CheckProof ::
  "('a CBlockHeader_scheme \<Rightarrow> block_error + unit) \<Rightarrow> 'c sha_ops \<Rightarrow> consensus_params \<Rightarrow> 'a CBlockHeader_scheme \<Rightarrow> block_error + unit" where
  "CheckProof CheckProofOfStake ops cp h =
     (if \<not> (bh_nFlags h AND 1 \<noteq> 0 \<or> IsProofOfStakeV2 h)
      then if \<not> CheckProofOfWork (GetPoWHash ops h) (unat (bh_nBits h)) (cp_pow cp) \<and> bh_nTime h \<noteq> 1541202300
           then Inl (BlockReject 100 ''bad-pow-proof'' False) else Inr ()
      else if IsProofOfStakeV2 h then CheckProofOfStake h
      else Inr ())"

definition MAX_FUTURE_BLOCK_TIME :: int where
  "MAX_FUTURE_BLOCK_TIME = 5 * 60"

definition MAX_POS_BLOCK_AHEAD_TIME :: int where
  "MAX_POS_BLOCK_AHEAD_TIME = 180"

definition IsPoSEnforcedHeight :: "int \<Rightarrow> bool" where
  "IsPoSEnforcedHeight nBlockHeight \<longleftrightarrow> (word_of_int nBlockHeight :: u32) \<ge> 4070908800"

definition IsPoSV2EnforcedHeight :: "consensus_params \<Rightarrow> int \<Rightarrow> bool" where
  "IsPoSV2EnforcedHeight cp nBlockHeight \<longleftrightarrow> (word_of_int nBlockHeight :: u32) \<ge> FirstPoSv2Block cp"

text \<open>
  What the header check reads beside the header and its predecessor: the network, the comparison of the difficulties as floating
  point numbers, the gravity well, the height of the last known checkpoint (if checkpoints are enabled) and the adjusted time.
\<close>

record 'a header_env =
  is_main :: bool
  bits_differ :: "nat \<Rightarrow> nat \<Rightarrow> bool"
  env_floats :: kgw_floats
  checkpoint_height :: "int option"
  nAdjustedTime :: int
  stake_kernel :: "'a CBlockHeader_scheme \<Rightarrow> block_error + unit"

definition check_bits :: "'a header_env \<Rightarrow> consensus_params \<Rightarrow> CBlockIndex \<Rightarrow> 'a CBlockHeader_scheme \<Rightarrow> block_error + unit" where
  "check_bits env cp pindexPrev h =
     (let height = nHeight pindexPrev + 1; bits = unat (bh_nBits h)
      in if height < nForkHeight cp
         then case GetNextTargetRequired (Some pindexPrev) (bh_nFlags h AND 1 \<noteq> 0 \<or> IsProofOfStakeV2 h) (cp_pow cp) of
                Inl _ \<Rightarrow> Inl BlockAssertFailed
              | Inr c \<Rightarrow> if bits \<noteq> c then Inl (BlockReject 0 ''bad-diffbits'' False) else Inr ()
         else case GetNextWorkRequired (env_floats env) pindexPrev (uint (bh_nTime h)) (cp_pow cp) of
                Inl _ \<Rightarrow> Inl BlockAssertFailed
              | Inr c \<Rightarrow>
                  if is_main env \<and> height \<le> 68589
                  then if bits_differ env bits c then Inl (BlockReject 100 ''bad-diffbits'' False) else Inr ()
                  else if bits \<noteq> c then Inl (BlockReject 100 ''bad-diffbits'' False) else Inr ())"

definition ContextualCheckBlockHeader ::
  "'a header_env \<Rightarrow> 'c sha_ops \<Rightarrow> consensus_params \<Rightarrow> CBlockIndex \<Rightarrow> 'a CBlockHeader_scheme \<Rightarrow> bool \<Rightarrow> block_error + unit" where
  "ContextualCheckBlockHeader env ops cp pindexPrev h fCheckProof =
     (let height = nHeight pindexPrev + 1; t = uint (bh_nTime h); v = sint (bh_nVersion h)
      in bindE (check_bits env cp pindexPrev h) (\<lambda>_.
        if (case checkpoint_height env of None \<Rightarrow> False | Some c \<Rightarrow> height < c)
        then Inl (BlockReject 100 ''bad-fork-prior-to-checkpoint'' False)
        else if t \<le> GetMedianTimePast pindexPrev \<and> t > nSkipTimeUntil cp then Inl (BlockReject 0 ''time-too-old'' False)
        else if t > nAdjustedTime env + (if hdr_IsProofOfStake h then MAX_POS_BLOCK_AHEAD_TIME else MAX_FUTURE_BLOCK_TIME)
        then Inl (BlockReject 0 ''time-too-new'' False)
        else if (v < 2 \<and> height \<ge> BIP34Height cp) \<or> (v < 3 \<and> height \<ge> BIP66Height cp) \<or> (v < 4 \<and> height \<ge> BIP65Height cp)
        then Inl (BlockReject 0 ''bad-version'' False)
        else if fCheckProof then CheckProof (stake_kernel env) ops cp h
        else Inr ()))"

section \<open>Blocks in context\<close>

definition MAX_STANDARD_TX_SIZE :: nat where
  "MAX_STANDARD_TX_SIZE = 2900000"

definition prev_height :: "CBlockIndex option \<Rightarrow> int" where
  "prev_height pindexPrev = (case pindexPrev of None \<Rightarrow> 0 | Some b \<Rightarrow> nHeight b + 1)"

definition ContextualCheckTransaction :: "consensus_params \<Rightarrow> CBlockIndex option \<Rightarrow> CTransaction \<Rightarrow> block_error + unit" where
  "ContextualCheckTransaction cp pindexPrev tx =
     (let height = prev_height pindexPrev; dip3 = (height \<ge> DIP0003Height cp)
      in if dip3 \<and> sint (nVersion tx) \<ge> 3 \<and> nType tx > 7 then Inl (BlockReject 100 ''bad-txns-type'' False)
         else if dip3 \<and> sint (nVersion tx) \<ge> 3 \<and> IsCoinBase tx \<and> nType tx \<noteq> TRANSACTION_COINBASE
         then Inl (BlockReject 100 ''bad-txns-cb-type'' False)
         else if dip3 \<and> \<not> sint (nVersion tx) \<ge> 3 \<and> nType tx \<noteq> 0 then Inl (BlockReject 100 ''bad-txns-type'' False)
         else if height \<ge> DIP0001Height cp \<and> length (SerializeTx tx) > MAX_STANDARD_TX_SIZE
         then Inl (BlockReject 100 ''bad-txns-oversize'' False)
         else Inr ())"

fun contextual_transactions ::
  "consensus_params \<Rightarrow> CBlockIndex option \<Rightarrow> int \<Rightarrow> CTransaction list \<Rightarrow> block_error + unit" where
  "contextual_transactions cp pindexPrev nLockTimeCutoff [] = Inr ()"
| "contextual_transactions cp pindexPrev nLockTimeCutoff (tx # txs) =
     (if \<not> IsFinalTx tx (prev_height pindexPrev) nLockTimeCutoff then Inl (BlockReject 10 ''bad-txns-nonfinal'' False)
      else bindE (ContextualCheckTransaction cp pindexPrev tx) (\<lambda>_. contextual_transactions cp pindexPrev nLockTimeCutoff txs))"

abbreviation (input) DEPLOYMENT_CSV :: nat where "DEPLOYMENT_CSV \<equiv> 1"
abbreviation (input) DEPLOYMENT_BIP147 :: nat where "DEPLOYMENT_BIP147 \<equiv> 3"
abbreviation (input) DEPLOYMENT_DIP0020 :: nat where "DEPLOYMENT_DIP0020 \<equiv> 7"

text \<open>The part of \<open>ContextualCheckBlock\<close> after the state \<open>csv\<close> of the deployment is known.\<close>

definition contextual_rules ::
  "consensus_params \<Rightarrow> CBlockIndex option \<Rightarrow> bool \<Rightarrow> CBlock \<Rightarrow> block_error + unit" where
  "contextual_rules cp pindexPrev csv b =
     (let height = prev_height pindexPrev;
          dip1 = (height \<ge> DIP0001Height cp);
          dip3 = (height \<ge> DIP0003Height cp);
          expect = push_int64 height
      in bindE (if csv then (case pindexPrev of None \<Rightarrow> Inl BlockOutOfRange | Some p \<Rightarrow> Inr (GetMedianTimePast p)) else Inr (uint (bh_nTime b)))
           (\<lambda>nLockTimeCutoff.
         if vtx b = [] \<or> length (vtx b) > MaxBlockSize dip1 \<or> length (SerializeBlock SER_NETWORK b) > MaxBlockSize dip1
         then Inl (BlockReject 100 ''bad-blk-length'' False)
         else bindE (contextual_transactions cp pindexPrev nLockTimeCutoff (vtx b)) (\<lambda>_.
           if sum_list (map GetLegacySigOpCount (vtx b)) > MaxBlockSigOps dip1 then Inl (BlockReject 100 ''bad-blk-sigops'' False)
           else if height \<ge> BIP34Height cp \<and> \<not> dip3 \<and> vin (vtx b ! 0) = [] then Inl BlockOutOfRange
           else if height \<ge> BIP34Height cp \<and> \<not> dip3 \<and> take (length expect) (scriptSig (vin (vtx b ! 0) ! 0)) \<noteq> expect
           then Inl (BlockReject 100 ''bad-cb-height'' False)
           else if dip3 \<and> nType (vtx b ! 0) \<noteq> TRANSACTION_COINBASE then Inl (BlockReject 100 ''bad-cb-type'' False)
           else Inr ())))"

text \<open>The outer \<open>None\<close> stands for a version-bits computation that does not return.\<close>

definition is_active ::
  "CBlockIndex option \<Rightarrow> vb_params \<Rightarrow> nat \<Rightarrow> VersionBitsCache \<Rightarrow> (block_error + bool \<times> VersionBitsCache) option" where
  "is_active pindexPrev params pos cache =
     map_option (case_sum (\<lambda>_. Inl BlockAssertFailed) (\<lambda>(st, cache1). Inr (st = ACTIVE, cache1)))
       (VersionBitsState pindexPrev params pos cache)"

definition ContextualCheckBlock ::
  "consensus_params \<Rightarrow> CBlockIndex option \<Rightarrow> CBlock \<Rightarrow> VersionBitsCache \<Rightarrow> (block_error + VersionBitsCache) option" where
  "ContextualCheckBlock cp pindexPrev b cache =
     map_option (\<lambda>r. bindE r (\<lambda>(csv, cache1). bindE (contextual_rules cp pindexPrev csv b) (\<lambda>_. Inr cache1)))
       (is_active pindexPrev (cp_vb cp) DEPLOYMENT_CSV cache)"

section \<open>Flags, versions and subsidies\<close>

definition set_if :: "bool \<Rightarrow> u32 \<Rightarrow> u32" where
  "set_if c f = (if c then f else 0)"

definition GetBlockScriptFlags ::
  "consensus_params \<Rightarrow> CBlockIndex \<Rightarrow> VersionBitsCache \<Rightarrow> (block_error + u32 \<times> VersionBitsCache) option" where
  "GetBlockScriptFlags cp b cache =
     Option.bind (is_active (pprev b) (cp_vb cp) DEPLOYMENT_CSV cache) (\<lambda>r1. case r1 of Inl e \<Rightarrow> Some (Inl e) | Inr (csv, cache1) \<Rightarrow>
     Option.bind (is_active (pprev b) (cp_vb cp) DEPLOYMENT_BIP147 cache1) (\<lambda>r2. case r2 of Inl e \<Rightarrow> Some (Inl e) | Inr (bip147, cache2) \<Rightarrow>
     map_option (map_sum id (\<lambda>(dip20, cache3).
         (set_if (GetBlockTime b \<ge> 1333238400) SCRIPT_VERIFY_P2SH
          OR set_if (nHeight b \<ge> BIP66Height cp) SCRIPT_VERIFY_DERSIG
          OR set_if (nHeight b \<ge> BIP65Height cp) SCRIPT_VERIFY_CHECKLOCKTIMEVERIFY
          OR set_if csv SCRIPT_VERIFY_CHECKSEQUENCEVERIFY
          OR set_if bip147 SCRIPT_VERIFY_NULLDUMMY
          OR set_if dip20 SCRIPT_ENABLE_DIP0020_OPCODES, cache3)))
       (is_active (pprev b) (cp_vb cp) DEPLOYMENT_DIP0020 cache2)))"

fun version_loop ::
  "vb_params \<Rightarrow> CBlockIndex option \<Rightarrow> nat list \<Rightarrow> u32 \<Rightarrow> VersionBitsCache \<Rightarrow> (block_error + u32 \<times> VersionBitsCache) option" where
  "version_loop params pindexPrev [] v cache = Some (Inr (v, cache))"
| "version_loop params pindexPrev (i # is) v cache =
     Option.bind (VersionBitsState pindexPrev params i cache) (\<lambda>r.
       case r of
         Inl _ \<Rightarrow> Some (Inl BlockAssertFailed)
       | Inr (st, cache1) \<Rightarrow>
           version_loop params pindexPrev is (if st = LOCKED_IN \<or> st = STARTED then v OR VersionBitsMask params i else v) cache1)"

definition index_IsProofOfStakeV2 :: "CBlockIndex \<Rightarrow> bool" where
  "index_IsProofOfStakeV2 b \<longleftrightarrow> bi_nVersion (info b) AND POSV2_BITS = POSV2_BITS"

definition ComputeBlockVersion ::
  "consensus_params \<Rightarrow> CBlockIndex option \<Rightarrow> bool \<Rightarrow> VersionBitsCache \<Rightarrow> (block_error + u32 \<times> VersionBitsCache) option" where
  "ComputeBlockVersion cp pindexPrev isPos cache =
     map_option (map_sum id (\<lambda>(v, cache1).
         (case pindexPrev of
            None \<Rightarrow> v
          | Some p \<Rightarrow>
              if index_IsProofOfStakeV2 p \<and> isPos then v OR POSV2_BITS
              else if IsPoSV2EnforcedHeight cp (nHeight p + 1) \<and> isPos then v OR POSV2_BITS
              else if IsProofOfStake p \<and> isPos then v OR POS_BIT
              else if IsPoSEnforcedHeight (nHeight p + 1) \<and> isPos then v OR POS_BIT
              else v, cache1)))
       (version_loop (cp_vb cp) pindexPrev [0..<9] VERSIONBITS_TOP_BITS cache)"

definition GetBlockSubsidy :: "consensus_params \<Rightarrow> int \<Rightarrow> CAmount" where
  "GetBlockSubsidy cp nPrevHeight =
     (let halvings = drop_bit 20 nPrevHeight
      in if halvings \<ge> 34 then 0
         else if nPrevHeight \<le> nRestoreRewardV18 cp \<and> nPrevHeight > nRewForkDecreaseV18 cp then 150
         else drop_bit (nat halvings) (50 * COIN))"

definition vecPeriods :: "int list" where
  "vecPeriods =
     [10, 50, 100, 150, 200, 250, 300, 350, 400, 450, 500, 513, 526, 533, 540, 546, 552, 557, 562, 567, 572, 577, 582, 585, 588, 591,
      594, 597, 599, 600]"

definition GetMasternodePayment :: "consensus_params \<Rightarrow> int \<Rightarrow> CAmount \<Rightarrow> int \<Rightarrow> CAmount" where
  "GetMasternodePayment cp height blockValue nReallocActivationHeight =
     (let ret = (if height < 917000 then blockValue * 3 sdiv 5 else blockValue sdiv 1000);
          nReallocStart = nReallocActivationHeight - nReallocActivationHeight smod nSuperblockCycle cp + nSuperblockCycle cp
      in if height < nReallocActivationHeight then ret
         else if height < nReallocStart then ret
         else let nCurrentPeriod = min ((height - nReallocStart) sdiv (nSuperblockCycle cp * 3)) (int (length vecPeriods) - 1)
              in blockValue * (vecPeriods ! nat nCurrentPeriod) sdiv 1000)"

section \<open>The money supply\<close>

lemma halving_sum: "(\<Sum>k<N. a div 2 ^ k) + 2 * (a div 2 ^ N) \<le> 2 * (a :: nat)"
proof (induction N)
  case (Suc N)
  have "2 * (a div 2 ^ Suc N) \<le> a div 2 ^ N" by (simp add: div_mult2_eq mult.commute [of 2])
  with Suc show ?case by simp
qed simp

lemma subsidy_in_era:
  assumes "nRestoreRewardV18 cp < 25 * 2 ^ 20" "k * 2 ^ 20 \<le> h" "h < Suc k * 2 ^ 20"
  shows "0 \<le> GetBlockSubsidy cp (int h)" "GetBlockSubsidy cp (int h) \<le> int (5000000000 div 2 ^ k)"
proof -
  have hd: "h div 2 ^ 20 = k" using assms(2,3) by (simp add: div_nat_eqI)
  then have d: "drop_bit 20 (int h) = int k" unfolding drop_bit_of_nat by (simp only: drop_bit_eq_div)
  have "50 * COIN = int 5000000000" by (simp add: COIN_def)
  then have b: "drop_bit k (50 * COIN) = int (5000000000 div 2 ^ k)" by (simp only: drop_bit_of_nat) (simp only: drop_bit_eq_div)
  have "150 \<le> int (5000000000 div 2 ^ k)" if "int h \<le> nRestoreRewardV18 cp"
  proof -
    have "k < 25" using that assms(1,2) by simp
    then have "(5000000000 :: nat) div 2 ^ 24 \<le> 5000000000 div 2 ^ k" by (intro div_le_mono2 power_increasing) simp_all
    then show ?thesis by simp
  qed
  then show "GetBlockSubsidy cp (int h) \<le> int (5000000000 div 2 ^ k)" "0 \<le> GetBlockSubsidy cp (int h)"
    by (auto simp: GetBlockSubsidy_def Let_def d b)
qed

text \<open>
C28: The subsidies never add up to more than the maximum supply. However many blocks the chain has, the sum of what
\<open>GetBlockSubsidy\<close> grants them is at most \<open>MAX_MONEY\<close> (for parameters whose period of reduced rewards ends before the subsidy itself
has fallen below the reduced one).
\<close>

theorem supply_bounded:
  assumes "nRestoreRewardV18 cp < 25 * 2 ^ 20"
  shows "(\<Sum>h<n. GetBlockSubsidy cp (int h)) \<le> MAX_MONEY"
proof -
  have nn: "0 \<le> GetBlockSubsidy cp (int h)" for h
    using subsidy_in_era(1) [OF assms, of "h div 2 ^ 20" h] by (simp add: dividend_less_div_times)
  have "(\<Sum>h<n. GetBlockSubsidy cp (int h)) \<le> (\<Sum>h<n * 2 ^ 20. GetBlockSubsidy cp (int h))"
    by (intro sum_mono2) (auto simp: nn intro: less_le_trans)
  also have "\<dots> = (\<Sum>k<n. \<Sum>h = k * 2 ^ 20..<k * 2 ^ 20 + 2 ^ 20. GetBlockSubsidy cp (int h))"
    by (simp only: sum.nat_group)
  also have "\<dots> \<le> (\<Sum>k<n. 2 ^ 20 * int (5000000000 div 2 ^ k))"
  proof (rule sum_mono)
    fix k
    have "(\<Sum>h = k * 2 ^ 20..<k * 2 ^ 20 + 2 ^ 20. GetBlockSubsidy cp (int h)) \<le> of_nat (card {k * 2 ^ 20..<k * 2 ^ 20 + 2 ^ 20}) * int (5000000000 div 2 ^ k)"
      by (rule sum_bounded_above) (auto intro: subsidy_in_era(2) [OF assms])
    then show "(\<Sum>h = k * 2 ^ 20..<k * 2 ^ 20 + 2 ^ 20. GetBlockSubsidy cp (int h)) \<le> 2 ^ 20 * int (5000000000 div 2 ^ k)" by simp
  qed
  also have "\<dots> = 2 ^ 20 * int (\<Sum>k<n. 5000000000 div 2 ^ k)" by (simp only: of_nat_sum sum_distrib_left)
  also have "\<dots> \<le> MAX_MONEY" using halving_sum [of 5000000000 n] by (simp add: MAX_MONEY_def COIN_def del: of_nat_sum)
  finally show ?thesis .
qed

definition sample_consensus :: consensus_params where
  "sample_consensus =
     \<lparr>hashGenesisBlock = replicate 32 1, hashDevnetGenesisBlock = uint256_null, nForkHeight = 1265800, nSkipTimeUntil = 0, BIP34Height = 1,
      BIP65Height = 1, BIP66Height = 1, DIP0001Height = 1, DIP0003Height = 1, nRewForkDecreaseV18 = 1265000,
      nRestoreRewardV18 = 1268999, nSuperblockCycle = 16616, FirstPoSv2Block = 1, cp_pow = sample_pow,
      cp_vb = \<lparr>nRuleChangeActivationThreshold = 1916, nMinerConfirmationWindow = 2016, vDeployments = []\<rparr>\<rparr>"

theorem supply_bounded_witness: "(\<Sum>h<100000000. GetBlockSubsidy sample_consensus (int h)) \<le> MAX_MONEY"
  by (rule supply_bounded) (simp add: sample_consensus_def)

section \<open>Accepted blocks\<close>

lemma check_transactions_iff: "check_transactions txs = Inr () \<longleftrightarrow> (\<forall>tx \<in> set txs. CheckTransaction tx = Inr ())"
  by (induction txs) (auto split: sum.splits tx_error.splits)

lemma list_ex_drop: "\<not> list_ex P (drop k xs) \<longleftrightarrow> (\<forall>i. k \<le> i \<and> i < length xs \<longrightarrow> \<not> P (xs ! i))"
proof -
  have "list_ex P (drop k xs) \<longleftrightarrow> (\<exists>j < length xs - k. P (xs ! (k + j)))" by (auto simp: list_ex_length)
  also have "\<dots> \<longleftrightarrow> (\<exists>i. k \<le> i \<and> i < length xs \<and> P (xs ! i))"
    by (metis add.commute le_add1 le_add_diff_inverse less_diff_conv)
  finally show ?thesis by blast
qed

lemma only_first_coinbase:
  "HasCoinBase b \<and> \<not> list_ex IsCoinBase (drop 1 (vtx b)) \<longleftrightarrow>
     vtx b \<noteq> [] \<and> (\<forall>i < length (vtx b). IsCoinBase (vtx b ! i) \<longleftrightarrow> i = 0)"
  unfolding HasCoinBase_def list_ex_drop by (auto simp: Suc_le_eq)

text \<open>
C13: What a checked block is. \<open>CheckBlock\<close>, called with both flags on a block that has not been checked before, accepts exactly if
the header passes, the Merkle root is the one of the transactions and they are not a mutated duplicate, the sizes are within the
limits, the first transaction and no other is a coinbase, no transaction after the second is a coinstake, the first output of
the coinbase of an old stake block is empty, a new stake block meets the stake constraints, every transaction
passes \<open>CheckTransaction\<close> and the signature operations are within the limit. It then sets the flag that makes later calls return at once.
\<close>

theorem CheckBlock_correct:
  "(\<exists>b'. CheckBlock ops cv cp True True (False, b) = Inr (True, b')) \<longleftrightarrow>
     CheckBlockHeader ops cp b (\<not> hdr_IsProofOfStake b) = Inr () \<and>
     BlockMerkleRoot (vtx b) = (bh_hashMerkleRoot b, False) \<and>
     length (vtx b) \<le> 6000000 \<and> length (SerializeBlock SER_NETWORK b) \<le> 6000000 \<and>
     vtx b \<noteq> [] \<and> (\<forall>i < length (vtx b). IsCoinBase (vtx b ! i) \<longleftrightarrow> i = 0) \<and>
     (\<forall>i < length (vtx b). 2 \<le> i \<longrightarrow> \<not> IsCoinStake (vtx b ! i)) \<and>
     (hdr_IsProofOfStake b \<and> \<not> IsProofOfStakeV2 b \<longrightarrow> vout (vtx b ! 0) \<noteq> [] \<and> CTxOut_IsEmpty (vout (vtx b ! 0) ! 0)) \<and>
     (IsProofOfStakeV2 b \<longrightarrow> fst (HasStake ops cv b)) \<and>
     (\<forall>tx \<in> set (vtx b). CheckTransaction tx = Inr ()) \<and>
     sum_list (map GetLegacySigOpCount (vtx b)) \<le> 120000"
proof -
  have cs: "(\<forall>i < length (vtx b). 2 \<le> i \<longrightarrow> \<not> IsCoinStake (vtx b ! i)) \<longleftrightarrow> \<not> list_ex IsCoinStake (drop 2 (vtx b))"
    unfolding list_ex_drop by blast
  have st: "(case if IsProofOfStakeV2 b \<and> True then HasStake ops cv b else (True, b) of (stake, b1) \<Rightarrow> P stake b1) =
      P (IsProofOfStakeV2 b \<longrightarrow> fst (HasStake ops cv b)) (if IsProofOfStakeV2 b then snd (HasStake ops cv b) else b)" for P :: "bool \<Rightarrow> CBlock \<Rightarrow> _"
    by (simp add: case_prod_beta)
  have vt: "vtx b \<noteq> [] \<and> (\<forall>i < length (vtx b). IsCoinBase (vtx b ! i) \<longleftrightarrow> i = 0) \<and> Q \<longleftrightarrow>
      vtx b \<noteq> [] \<and> HasCoinBase b \<and> \<not> list_ex IsCoinBase (drop 1 (vtx b)) \<and> Q" for Q
    using only_first_coinbase [of b] by (auto simp: HasCoinBase_def)
  show ?thesis
    unfolding CheckBlock_def Let_def prod.case cs vt check_transactions_iff [symmetric] st
    by (cases "CheckBlockHeader ops cp b (\<not> hdr_IsProofOfStake b)"; cases "check_transactions (vtx b)")
       (auto simp: prod_eq_iff MaxBlockSize_def MaxBlockSigOps_def MAX_DIP0001_BLOCK_SIZE_def)
qed

text \<open>A stake block of the old kind with a single transaction, the coinbase with the outputs \<open>outs\<close>.\<close>

definition sample_cb :: "CTxOut list \<Rightarrow> CTransaction" where
  "sample_cb outs =
     \<lparr>vin = [\<lparr>prevout = COutPoint.make uint256_null NULL_INDEX, scriptSig = [1, 1], nSequence = 0\<rparr>], vout = outs,
      nVersion = 3, nType = 0, nLockTime = 0, nTime = 0, vExtraPayload = []\<rparr>"

definition sample_pos_block :: "CTxOut list \<Rightarrow> CBlock" where
  "sample_pos_block outs =
     (CBlock_of_header CBlockHeader_null)\<lparr>bh_nVersion := 0x10000004, bh_hashMerkleRoot := GetHash (sample_cb outs), vtx := [sample_cb outs]\<rparr>"

lemma sample_pos_block_simps [simp]:
  "bh_nVersion (sample_pos_block outs) = 0x10000004" "bh_hashMerkleRoot (sample_pos_block outs) = GetHash (sample_cb outs)"
  "vtx (sample_pos_block outs) = [sample_cb outs]" "bh_hashPrevBlock (sample_pos_block outs) = uint256_null"
  "oldVchBlockSig (sample_pos_block outs) = []"
  by (simp_all add: sample_pos_block_def CBlock_of_header_def CBlockHeader.extend_def CBlockHeader_null_def)

lemma sample_pos_block_kind:
  "hdr_IsProofOfStake (sample_pos_block outs)" "\<not> IsProofOfStakeV2 (sample_pos_block outs)" "IsCoinBase (sample_cb outs)"
  "BlockMerkleRoot [sample_cb outs] = (GetHash (sample_cb outs), False)"
  by (simp_all add: hdr_IsProofOfStake_def IsProofOfStakeV2_def IsCoinBase_def sample_cb_def COutPoint.defs COutPoint_IsNull_def BlockMerkleRoot_def
      ComputeMerkleRoot_def merkle_loop.simps)

lemma sample_pos_block_size:
  "length outs \<le> 1 \<Longrightarrow> list_all (\<lambda>o'. scriptPubKey o' = []) outs \<Longrightarrow>
     length (SerializeTx (sample_cb outs)) \<le> 100 \<and> length (SerializeBlock SER_NETWORK (sample_pos_block outs)) \<le> 1000"
  using sample_pos_block_kind(2) [of outs]
  by (cases outs) (simp_all add: SerializeBlock_def SerializeHeader_def header_core_def sample_cb_def SerializeTx_def has_time_def
      has_payload_def ser_u32_def ser_vector_def ser_txin_def ser_txout_def ser_outpoint_def ser_blob_def ser_int64_def
      COutPoint.defs WriteCompactSize_def uint256_null_def wire_simps len_simps)

theorem CheckBlock_correct_witness:
  "\<exists>b'. CheckBlock sample_sha sample_curve sample_consensus True True (False, sample_pos_block [\<lparr>nValue = 0, scriptPubKey = []\<rparr>]) = Inr (True, b')"
proof (rule CheckBlock_correct [THEN iffD2], intro conjI)
  let ?o = "[\<lparr>nValue = 0, scriptPubKey = []\<rparr>] :: CTxOut list"
  have sz: "length (SerializeTx (sample_cb ?o)) \<le> 100" "length (SerializeBlock SER_NETWORK (sample_pos_block ?o)) \<le> 1000"
    using sample_pos_block_size [of ?o] by simp_all
  show "length (SerializeBlock SER_NETWORK (sample_pos_block ?o)) \<le> 6000000" using sz by simp
  have "CheckTransaction (sample_cb ?o) = Inr ()"
    using sz(1) sample_pos_block_kind(3) [of ?o]
    by (simp add: CheckTransaction_def GetTotalSize_def MAX_LEGACY_BLOCK_SIZE_def MAX_TX_EXTRA_PAYLOAD_def) (simp add: sample_cb_def MoneyRange_def MAX_MONEY_def COIN_def)
  then show "\<forall>tx \<in> set (vtx (sample_pos_block ?o)). CheckTransaction tx = Inr ()" by simp
  show "sum_list (map GetLegacySigOpCount (vtx (sample_pos_block ?o))) \<le> 120000"
    using sigop_loop_bound [of False OP_INVALIDOPCODE "[1, 1]"] sigop_loop_bound [of False OP_INVALIDOPCODE "[]"]
    by (simp add: GetLegacySigOpCount_def GetSigOpCount_def MAX_PUBKEYS_PER_MULTISIG_def) (simp add: sample_cb_def)
  show "CheckBlockHeader sample_sha sample_consensus (sample_pos_block ?o) (\<not> hdr_IsProofOfStake (sample_pos_block ?o)) = Inr ()"
    by (simp add: CheckBlockHeader_def sample_consensus_def sample_pos_block_kind)
qed (simp_all add: sample_pos_block_kind, simp_all add: sample_cb_def CTxOut_IsEmpty_def)

text \<open>
C14: A block can make the node read past the outputs of its coinbase. For every stake block of the old kind whose Merkle root and sizes
are right and whose coinbase has no outputs, \<open>CheckBlock\<close> reads the first of them before \<open>CheckTransaction\<close> could reject the
transaction. Nothing in the hypotheses costs work: the proof of work of stake blocks is not checked here.
\<close>

theorem CheckBlock_reads_missing_output:
  assumes "hdr_IsProofOfStake b" "\<not> IsProofOfStakeV2 b" "HasCoinBase b" "vout (vtx b ! 0) = []" "length (vtx b) \<le> 1"
    and "BlockMerkleRoot (vtx b) = (bh_hashMerkleRoot b, False)" "length (SerializeBlock SER_NETWORK b) \<le> 6000000"
    and "hashDevnetGenesisBlock cp = uint256_null"
  shows "CheckBlock ops cv cp True True (False, b) = Inl BlockOutOfRange"
  using assms
  by (auto simp: CheckBlock_def CheckBlockHeader_def HasCoinBase_def MaxBlockSize_def MAX_DIP0001_BLOCK_SIZE_def)

theorem CheckBlock_reads_missing_output_witness:
  "CheckBlock sample_sha sample_curve sample_consensus True True (False, sample_pos_block []) = Inl BlockOutOfRange"
proof (rule CheckBlock_reads_missing_output)
  show "length (SerializeBlock SER_NETWORK (sample_pos_block [])) \<le> 6000000" using sample_pos_block_size [of "[]"] by simp
qed (simp_all add: sample_pos_block_kind HasCoinBase_def sample_consensus_def, simp add: sample_cb_def)

end
