(* ===== verification/Ledger.thy ===== *)
theory Ledger
  imports TxVerify Compressor
begin

text \<open>
  How a transaction changes the coins and how the change is undone (\<open>UpdateCoins\<close>, \<open>ApplyTxInUndo\<close> and the loops of
  \<open>DisconnectBlock\<close> over the outputs and inputs of a transaction, \<open>validation.cpp\<close>), against an abstract ledger: a map from outpoints to
  coins. An \<open>assert\<close> that fails and the \<open>logic_error\<close> of \<open>AddCoin\<close> are errors of type \<open>coins_error\<close>.
\<close>

section \<open>Spending and creating coins\<close>

fun spend_inputs :: "(bytes \<Rightarrow> nat) \<Rightarrow> 'b view_ops \<Rightarrow> CTxIn list \<Rightarrow> 'b cached \<Rightarrow> coins_error + CTxUndo \<times> 'b cached" where
  "spend_inputs usage ops [] s = Inr ([], s)"
| "spend_inputs usage ops (txin # ins) s =
     (case SpendCoin usage ops (prevout txin) s of
        (None, _) \<Rightarrow> Inl AssertionFailed
      | (Some coin, s1) \<Rightarrow> bindE (spend_inputs usage ops ins s1) (\<lambda>(vprevout, s2). Inr (coin # vprevout, s2)))"

definition UpdateCoins :: "(bytes \<Rightarrow> nat) \<Rightarrow> 'b view_ops \<Rightarrow> CTransaction \<Rightarrow> nat \<Rightarrow> 'b cached \<Rightarrow> coins_error + CTxUndo \<times> 'b cached" where
  "UpdateCoins usage ops tx height s =
     bindE (if IsCoinBase tx then Inr ([], s) else spend_inputs usage ops (vin tx) s) (\<lambda>(txundo, s1).
     bindE (AddCoins usage ops tx height False s1) (\<lambda>s2. Inr (txundo, s2)))"

section \<open>Undoing\<close>

datatype DisconnectResult = DISCONNECT_OK | DISCONNECT_UNCLEAN | DISCONNECT_FAILED

definition ApplyTxInUndo ::
  "(bytes \<Rightarrow> nat) \<Rightarrow> 'b view_ops \<Rightarrow> Coin \<Rightarrow> COutPoint \<Rightarrow> 'b cached \<Rightarrow> coins_error + DisconnectResult \<times> 'b cached" where
  "ApplyTxInUndo usage ops undo out s =
     (let (have_coin, s1) = HaveCoin usage ops out s;
          (restored, s2) =
            (if coin_nHeight undo = 0
             then (case AccessByTxid usage ops (COutPoint.op_hash out) s1 of
                     (alternate, s2) \<Rightarrow>
                       (if \<not> IsSpent alternate
                        then Some (undo\<lparr>coin_nHeight := coin_nHeight alternate, coin_fCoinBase := coin_fCoinBase alternate,
                                        coin_fCoinStake := coin_fCoinStake alternate\<rparr>)
                        else None, s2))
             else (Some undo, s1))
      in case restored of
           None \<Rightarrow> Inr (DISCONNECT_FAILED, s2)
         | Some coin \<Rightarrow>
             bindE (AddCoin usage out coin have_coin (fst s2))
               (\<lambda>c. Inr (if have_coin then DISCONNECT_UNCLEAN else DISCONNECT_OK, (c, snd s2))))"

text \<open>
  The loop that removes the outputs of a transaction, from index \<open>n\<close> on; the first component of the result is \<open>fClean\<close>. The height is
  compared as an \<open>int\<close>.
\<close>

fun remove_outputs ::
  "(bytes \<Rightarrow> nat) \<Rightarrow> 'b view_ops \<Rightarrow> bytes \<Rightarrow> bool \<Rightarrow> bool \<Rightarrow> int \<Rightarrow> nat \<Rightarrow> CTxOut list \<Rightarrow> bool \<Rightarrow> 'b cached \<Rightarrow> bool \<times> 'b cached" where
  "remove_outputs usage ops txid is_coinbase is_coinstake height n [] fClean s = (fClean, s)"
| "remove_outputs usage ops txid is_coinbase is_coinstake height n (txout # outs) fClean s =
     (if IsUnspendable (scriptPubKey txout)
      then remove_outputs usage ops txid is_coinbase is_coinstake height (n + 1) outs fClean s
      else case SpendCoin usage ops (COutPoint.make txid (of_nat n)) s of
             (r, s1) \<Rightarrow>
               remove_outputs usage ops txid is_coinbase is_coinstake height (n + 1) outs
                 (fClean \<and> (case r of
                    None \<Rightarrow> False
                  | Some coin \<Rightarrow> txout = coin_out coin \<and> height = int (coin_nHeight coin) \<and> is_coinbase = coin_fCoinBase coin
                                 \<and> is_coinstake = coin_fCoinStake coin)) s1)"

section \<open>The ledger\<close>

type_synonym ledger = "COutPoint \<Rightarrow> Coin option"

definition new_coin :: "CTransaction \<Rightarrow> nat \<Rightarrow> CTxOut \<Rightarrow> Coin" where
  "new_coin tx h txout =
     \<lparr>coin_out = txout, coin_fCoinBase = IsCoinBase tx, coin_fCoinStake = IsCoinStake tx, coin_nHeight = h\<rparr>"

lemma new_coin_fun:
  "new_coin tx h = (\<lambda>x. \<lparr>coin_out = x, coin_fCoinBase = IsCoinBase tx, coin_fCoinStake = IsCoinStake tx, coin_nHeight = h\<rparr>)"
  by (simp add: new_coin_def fun_eq_iff)

definition indexed_output :: "nat \<Rightarrow> CTxOut list \<Rightarrow> u32 \<Rightarrow> CTxOut option" where
  "indexed_output i outs n =
     (if i \<le> unat n \<and> unat n < i + length outs \<and> \<not> IsUnspendable (scriptPubKey (outs ! (unat n - i))) then Some (outs ! (unat n - i)) else None)"

definition tx_outputs :: "CTransaction \<Rightarrow> nat \<Rightarrow> ledger" where
  "tx_outputs tx h p =
     (if COutPoint.op_hash p = GetHash tx then map_option (new_coin tx h) (indexed_output 0 (vout tx) (op_n p)) else None)"

definition spent_by :: "CTransaction \<Rightarrow> COutPoint set" where
  "spent_by tx = (if IsCoinBase tx then {} else prevout ` set (vin tx))"

definition ledger_tx :: "nat \<Rightarrow> CTransaction \<Rightarrow> ledger \<Rightarrow> ledger" where
  "ledger_tx h tx v = v |` (- spent_by tx) ++ tx_outputs tx h"

lemma indexed_output_Cons:
  assumes "i + Suc (length outs) \<le> 2 ^ 32"
  shows "indexed_output i (x # outs) n =
    (if n = of_nat i then (if IsUnspendable (scriptPubKey x) then None else Some x) else indexed_output (Suc i) outs n)"
proof -
  have "n = of_nat i \<longleftrightarrow> unat n = i" using assms by (auto simp: unat_of_nat word_unat_eq_iff)
  then show ?thesis by (auto simp: indexed_output_def nth_Cons' Suc_diff_le split: if_splits)
qed

lemma indexed_output_below: "unat n < i \<Longrightarrow> indexed_output i outs n = None"
  by (simp add: indexed_output_def)

lemma outpoint_eq: "p = COutPoint.make h n \<longleftrightarrow> COutPoint.op_hash p = h \<and> op_n p = n"
  by (cases p) (auto simp: COutPoint.defs)

lemma outpoint_make_simps [simp]: "COutPoint.op_hash (COutPoint.make h n) = h" "op_n (COutPoint.make h n) = n"
  by (simp_all add: COutPoint.defs)

lemma indexed_output_None: "indexed_output i [] n = None"
  by (simp add: indexed_output_def)

context coins_view
begin

lemma AddCoin_step:
  assumes "cached_inv usage view vinv s" "\<not> IsSpent coin"
    and "overwrite \<or> IsUnspendable (scriptPubKey (coin_out coin)) \<or> cached_view view s p = None"
  shows "\<exists>c. AddCoin usage p coin overwrite (fst s) = Inr c \<and> cached_inv usage view vinv (c, snd s) \<and>
    cached_view view (c, snd s) =
      (if IsUnspendable (scriptPubKey (coin_out coin)) then cached_view view s else (cached_view view s)(p \<mapsto> coin))"
proof (cases "IsUnspendable (scriptPubKey (coin_out coin))")
  case True
  with assms show ?thesis by (simp add: AddCoin_def)
next
  case False
  with AddCoin_correct [of usage "view (snd s)" "fst s" coin overwrite p] assms show ?thesis
    by (auto simp: cached_inv_def cached_view_def)
qed

lemma add_coins_loop_correct:
  assumes "cached_inv usage view vinv s" "\<forall>x \<in> set outs. nValue x \<noteq> -1" "i + length outs \<le> 2 ^ 32"
    and "cb \<or> (\<forall>n. indexed_output i outs n \<noteq> None \<longrightarrow> cached_view view s (COutPoint.make txid n) = None)"
  shows "\<exists>s'. add_coins_loop usage ops txid cb cs h False i outs s = Inr s' \<and> cached_inv usage view vinv s' \<and>
    cached_view view s' = cached_view view s ++
      (\<lambda>p. if COutPoint.op_hash p = txid
           then map_option (\<lambda>x. \<lparr>coin_out = x, coin_fCoinBase = cb, coin_fCoinStake = cs, coin_nHeight = h\<rparr>) (indexed_output i outs (op_n p))
           else None)"
  using assms
proof (induction outs arbitrary: i s)
  case (Cons x outs)
  let ?p = "COutPoint.make txid (of_nat i)"
  let ?mk = "\<lambda>x. \<lparr>coin_out = x, coin_fCoinBase = cb, coin_fCoinStake = cs, coin_nHeight = h\<rparr>"
  have i: "i + Suc (length outs) \<le> 2 ^ 32" using Cons.prems(3) by simp
  then have io: "indexed_output (Suc i) outs (of_nat i) = None" by (intro indexed_output_below) (simp add: unat_of_nat)
  have "cb \<or> IsUnspendable (scriptPubKey x) \<or> cached_view view s ?p = None"
    using Cons.prems(4) indexed_output_Cons [OF i, of x "of_nat i"] by (metis option.distinct(1))
  then obtain c where c: "AddCoin usage ?p (?mk x) cb (fst s) = Inr c" "cached_inv usage view vinv (c, snd s)"
    "cached_view view (c, snd s) = (if IsUnspendable (scriptPubKey x) then cached_view view s else (cached_view view s)(?p \<mapsto> ?mk x))"
    using AddCoin_step [OF Cons.prems(1), of "?mk x" cb ?p] Cons.prems(2) by (auto simp: IsSpent_def)
  have "cached_view view (c, snd s) (COutPoint.make txid n) = None" if n: "indexed_output (Suc i) outs n \<noteq> None" "\<not> cb" for n
  proof -
    from n io have "n \<noteq> of_nat i" by auto
    with n Cons.prems(4) indexed_output_Cons [OF i, of x n] show ?thesis unfolding c(3) by (simp add: outpoint_eq)
  qed
  then have "cb \<or> (\<forall>n. indexed_output (Suc i) outs n \<noteq> None \<longrightarrow> cached_view view (c, snd s) (COutPoint.make txid n) = None)"
    by blast
  with Cons.IH [OF c(2), of "Suc i"] Cons.prems(2) i obtain s' where
    s': "add_coins_loop usage ops txid cb cs h False (Suc i) outs (c, snd s) = Inr s'" "cached_inv usage view vinv s'"
    "cached_view view s' = cached_view view (c, snd s) ++
      (\<lambda>p. if COutPoint.op_hash p = txid then map_option ?mk (indexed_output (Suc i) outs (op_n p)) else None)" by auto
  have "add_coins_loop usage ops txid cb cs h False i (x # outs) s = Inr s'"
    using c(1) s'(1) by (simp add: COutPoint.defs)
  moreover have "cached_view view s' = cached_view view s ++
      (\<lambda>p. if COutPoint.op_hash p = txid then map_option ?mk (indexed_output i (x # outs) (op_n p)) else None)"
    unfolding s'(3) c(3) indexed_output_Cons [OF i] using io
    by (auto simp: fun_eq_iff map_add_def outpoint_eq split: option.splits)
  ultimately show ?case using s'(2) by blast
qed (auto simp: indexed_output_None map_add_def fun_eq_iff)

lemma spend_inputs_correct:
  assumes "cached_inv usage view vinv s" "usage [] = 0" "distinct (map prevout ins)"
    and "\<forall>i \<in> set ins. cached_view view s (prevout i) \<noteq> None"
  shows "\<exists>s'. spend_inputs usage ops ins s = Inr (map (\<lambda>i. the (cached_view view s (prevout i))) ins, s') \<and>
    cached_inv usage view vinv s' \<and> cached_view view s' = cached_view view s |` (- prevout ` set ins)"
  using assms(1,3,4)
proof (induction ins arbitrary: s)
  case (Cons i ins)
  obtain r s1 where sp: "SpendCoin usage ops (prevout i) s = (r, s1)" by (rule prod.exhaust)
  obtain coin where coin: "cached_view view s (prevout i) = Some coin" using Cons.prems(3) by auto
  have s1: "cached_inv usage view vinv s1" "cached_view view s1 = (cached_view view s)(prevout i := None)" "r = Some coin"
    using SpendCoin_correct [OF Cons.prems(1) assms(2) sp] coin by blast+
  have d: "distinct (map prevout ins)" "prevout i \<notin> prevout ` set ins" using Cons.prems(2) by auto
  then have ne: "prevout j \<noteq> prevout i" if "j \<in> set ins" for j using that by (metis imageI)
  have "\<forall>j \<in> set ins. cached_view view s1 (prevout j) \<noteq> None" using Cons.prems(3) ne unfolding s1(2) by auto
  from Cons.IH [OF s1(1) d(1) this] obtain s' where
    s': "spend_inputs usage ops ins s1 = Inr (map (\<lambda>j. the (cached_view view s1 (prevout j))) ins, s')" "cached_inv usage view vinv s'"
      "cached_view view s' = cached_view view s1 |` (- prevout ` set ins)" by blast
  have "map (\<lambda>j. the (cached_view view s1 (prevout j))) ins = map (\<lambda>j. the (cached_view view s (prevout j))) ins"
    using ne unfolding s1(2) by auto
  moreover have "cached_view view s' = cached_view view s |` (- prevout ` set (i # ins))"
    unfolding s'(3) s1(2) by (auto simp: restrict_map_def fun_eq_iff)
  ultimately show ?case using s' sp s1(3) coin by simp
qed (simp add: restrict_map_def)

lemma UpdateCoins_correct:
  assumes "cached_inv usage view vinv s" "usage [] = 0" "distinct (map prevout (vin tx))" "length (vout tx) \<le> 2 ^ 32"
    and "\<forall>x \<in> set (vout tx). nValue x \<noteq> -1"
    and "\<forall>p \<in> spent_by tx. cached_view view s p \<noteq> None"
    and "IsCoinBase tx \<or> (\<forall>p \<in> dom (tx_outputs tx h) - spent_by tx. cached_view view s p = None)"
  shows "\<exists>s'. UpdateCoins usage ops tx h s =
      Inr (if IsCoinBase tx then [] else map (\<lambda>i. the (cached_view view s (prevout i))) (vin tx), s') \<and>
    cached_inv usage view vinv s' \<and> cached_view view s' = ledger_tx h tx (cached_view view s)"
proof -
  let ?u = "if IsCoinBase tx then [] else map (\<lambda>i. the (cached_view view s (prevout i))) (vin tx)"
  obtain s1 where s1: "(if IsCoinBase tx then Inr ([], s) else spend_inputs usage ops (vin tx) s) = Inr (?u, s1)"
    "cached_inv usage view vinv s1" "cached_view view s1 = cached_view view s |` (- spent_by tx)"
  proof (cases "IsCoinBase tx")
    case True
    with assms(1) that [of s] show thesis by (simp add: spent_by_def restrict_map_def)
  next
    case False
    with spend_inputs_correct [OF assms(1-3)] assms(6) that show thesis by (auto simp: spent_by_def)
  qed
  have "IsCoinBase tx \<or> (\<forall>n. indexed_output 0 (vout tx) n \<noteq> None \<longrightarrow> cached_view view s1 (COutPoint.make (GetHash tx) n) = None)"
    using assms(7) unfolding s1(3) by (auto simp: tx_outputs_def restrict_map_def dom_def)
  from add_coins_loop_correct [OF s1(2) assms(5) _ this, of "IsCoinStake tx" h] assms(4) obtain s' where
    s': "AddCoins usage ops tx h False s1 = Inr s'" "cached_inv usage view vinv s'"
    "cached_view view s' = cached_view view s1 ++ tx_outputs tx h"
    unfolding AddCoins_def tx_outputs_def [abs_def] new_coin_fun by auto
  with s1 show ?thesis by (auto simp: UpdateCoins_def ledger_tx_def)
qed

lemma remove_outputs_correct:
  assumes "cached_inv usage view vinv s" "usage [] = 0" "\<forall>x \<in> set outs. nValue x \<noteq> -1" "i + length outs \<le> 2 ^ 32"
    and "remove_outputs usage ops txid cb cs (int h) i outs fClean s = (r, s')"
  shows "cached_inv usage view vinv s' \<and>
    cached_view view s' = cached_view view s |` {p. COutPoint.op_hash p = txid \<longrightarrow> indexed_output i outs (op_n p) = None} \<and>
    (r \<longleftrightarrow> fClean \<and> (\<forall>n x. indexed_output i outs n = Some x \<longrightarrow>
       cached_view view s (COutPoint.make txid n) = Some \<lparr>coin_out = x, coin_fCoinBase = cb, coin_fCoinStake = cs, coin_nHeight = h\<rparr>))"
  using assms(1,3-5)
proof (induction outs arbitrary: i s fClean)
  case (Cons x outs)
  let ?mk = "\<lambda>x. \<lparr>coin_out = x, coin_fCoinBase = cb, coin_fCoinStake = cs, coin_nHeight = h\<rparr>"
  have i: "i + Suc (length outs) \<le> 2 ^ 32" "Suc i + length outs \<le> 2 ^ 32" using Cons.prems(3) by simp_all
  then have io: "indexed_output (Suc i) outs (of_nat i) = None" by (intro indexed_output_below) (simp add: unat_of_nat)
  note ioC = indexed_output_Cons [OF i(1)]
  show ?case
  proof (cases "IsUnspendable (scriptPubKey x)")
    case True
    then have "indexed_output i (x # outs) = indexed_output (Suc i) outs" using io by (auto simp: ioC fun_eq_iff)
    with Cons.IH [OF Cons.prems(1) _ i(2), of fClean] Cons.prems(2,4) True show ?thesis by simp
  next
    case False
    let ?p = "COutPoint.make txid (of_nat i)"
    obtain q s1 where sp: "SpendCoin usage ops ?p s = (q, s1)" by (rule prod.exhaust)
    note sc = SpendCoin_correct [OF Cons.prems(1) assms(2) sp]
    let ?ok = "case q of None \<Rightarrow> False | Some coin \<Rightarrow> x = coin_out coin \<and> int h = int (coin_nHeight coin) \<and> cb = coin_fCoinBase coin
      \<and> cs = coin_fCoinStake coin"
    have ok: "?ok \<longleftrightarrow> cached_view view s ?p = Some (?mk x)"
    proof
      assume "?ok"
      then have q: "q = Some (?mk x)" by (auto split: option.splits)
      with Cons.prems(2) have "\<not> IsSpent (?mk x)" by (simp add: IsSpent_def)
      with sc q show "cached_view view s ?p = Some (?mk x)" by blast
    next
      assume "cached_view view s ?p = Some (?mk x)"
      with sc have "q = Some (?mk x)" by blast
      then show ?ok by simp
    qed
    have v1: "cached_inv usage view vinv s1" "cached_view view s1 = (cached_view view s)(?p := None)" using sc by auto
    have "remove_outputs usage ops txid cb cs (int h) (Suc i) outs (fClean \<and> ?ok) s1 = (r, s')"
      using Cons.prems(4) False sp by simp
    note IH = Cons.IH [OF v1(1) _ i(2) this]
    have "cached_view view s1 |` {p. COutPoint.op_hash p = txid \<longrightarrow> indexed_output (Suc i) outs (op_n p) = None} =
        cached_view view s |` {p. COutPoint.op_hash p = txid \<longrightarrow> indexed_output i (x # outs) (op_n p) = None}"
      unfolding v1(2) using False by (auto simp: fun_eq_iff restrict_map_def ioC outpoint_eq)
    moreover have "(\<forall>n y. indexed_output i (x # outs) n = Some y \<longrightarrow> cached_view view s (COutPoint.make txid n) = Some (?mk y)) \<longleftrightarrow>
        cached_view view s ?p = Some (?mk x) \<and>
        (\<forall>n y. indexed_output (Suc i) outs n = Some y \<longrightarrow> cached_view view s1 (COutPoint.make txid n) = Some (?mk y))"
      unfolding v1(2) using False io by (auto simp: ioC outpoint_eq)
    ultimately show ?thesis using IH Cons.prems(2) ok by simp
  qed
qed (auto simp: indexed_output_None restrict_map_def)

lemma ApplyTxInUndo_correct:
  assumes "cached_inv usage view vinv s" "0 < coin_nHeight undo" "\<not> IsSpent undo" "\<not> IsUnspendable (scriptPubKey (coin_out undo))"
  shows "\<exists>s'. ApplyTxInUndo usage ops undo p s = Inr (if cached_view view s p = None then DISCONNECT_OK else DISCONNECT_UNCLEAN, s') \<and>
    cached_inv usage view vinv s' \<and> cached_view view s' = (cached_view view s)(p \<mapsto> undo)"
proof -
  obtain b s1 where h: "HaveCoin usage ops p s = (b, s1)" by (rule prod.exhaust)
  have s1: "b = (cached_view view s p \<noteq> None)" "cached_view view s1 = cached_view view s" "cached_inv usage view vinv s1"
    using HaveCoin_correct [OF assms(1) h] by auto
  from AddCoin_step [OF s1(3) assms(3), of b p] assms(4) s1 obtain c where
    "AddCoin usage p undo b (fst s1) = Inr c" "cached_inv usage view vinv (c, snd s1)"
    "cached_view view (c, snd s1) = (cached_view view s)(p \<mapsto> undo)" by auto
  with assms(2) h s1(1) show ?thesis by (auto simp: ApplyTxInUndo_def)
qed

end

end
