(* ===== verification/Indexes.thy ===== *)
theory Indexes
  imports Hashing Transaction
begin

text \<open>
  The optional indexes over addresses, spent outputs and times: their keys and values (\<open>spentindex.h\<close>) and the functions of the
  block tree database that write and scan them (\<open>txdb.cpp\<close>). The database is modelled by the documented behaviour of LevelDB: the keys are
  byte strings, a batch of writes and deletions is applied in order, and an iterator visits the keys from the sought one on in the
  order of their bytes. Each index has a prefix byte of its own, so it is a table of its own here.
\<close>

section \<open>Keys and values\<close>

record CAddressIndexKey =
  ak_type :: nat
  ak_hashBytes :: bytes
  ak_blockHeight :: int
  ak_txindex :: nat
  ak_txhash :: bytes
  ak_index :: nat
  ak_spending :: bool

record CAddressUnspentKey =
  uk_type :: nat
  uk_hashBytes :: bytes
  uk_txhash :: bytes
  uk_index :: nat

record CAddressUnspentValue =
  uv_satoshis :: CAmount
  uv_script :: bytes
  uv_blockHeight :: int

definition CAddressUnspentValue_null :: CAddressUnspentValue where
  "CAddressUnspentValue_null = \<lparr>uv_satoshis = -1, uv_script = [], uv_blockHeight = 0\<rparr>"

definition CAddressUnspentValue_IsNull :: "CAddressUnspentValue \<Rightarrow> bool" where
  "CAddressUnspentValue_IsNull v \<longleftrightarrow> uv_satoshis v = -1"

record CSpentIndexKey =
  sk_txid :: bytes
  sk_outputIndex :: u32

record CSpentIndexValue =
  sv_txid :: bytes
  sv_inputIndex :: nat
  sv_blockHeight :: int
  sv_satoshis :: CAmount
  sv_addressType :: nat
  sv_addressHash :: bytes

definition uint160_null :: bytes where
  "uint160_null = replicate 20 0"

definition CSpentIndexValue_null :: CSpentIndexValue where
  "CSpentIndexValue_null =
     \<lparr>sv_txid = uint256_null, sv_inputIndex = 0, sv_blockHeight = 0, sv_satoshis = 0, sv_addressType = 0, sv_addressHash = uint160_null\<rparr>"

definition CSpentIndexValue_IsNull :: "CSpentIndexValue \<Rightarrow> bool" where
  "CSpentIndexValue_IsNull v \<longleftrightarrow> sv_txid v = uint256_null"

record CTimestampIndexKey =
  tk_timestamp :: u32
  tk_blockHash :: bytes

section \<open>Encodings\<close>

definition ser_writedata32be :: "u32 \<Rightarrow> bytes" where
  "ser_writedata32be obj = rev (le_bytes 4 (unat obj))"

definition ser_address_key :: "CAddressIndexKey \<Rightarrow> bytes" where
  "ser_address_key k =
     of_nat (ak_type k) # ak_hashBytes k @ ser_writedata32be (word_of_int (ak_blockHeight k))
     @ ser_writedata32be (of_nat (ak_txindex k)) @ ak_txhash k @ le_bytes 4 (ak_index k) @ [if ak_spending k then 1 else 0]"

definition ser_unspent_key :: "CAddressUnspentKey \<Rightarrow> bytes" where
  "ser_unspent_key k = of_nat (uk_type k) # uk_hashBytes k @ uk_txhash k @ le_bytes 4 (uk_index k)"

definition ser_spent_key :: "CSpentIndexKey \<Rightarrow> bytes" where
  "ser_spent_key k = sk_txid k @ ser_u32 (sk_outputIndex k)"

definition ser_timestamp_key :: "CTimestampIndexKey \<Rightarrow> bytes" where
  "ser_timestamp_key k = ser_writedata32be (tk_timestamp k) @ tk_blockHash k"

definition ser_iterator_key :: "nat \<Rightarrow> bytes \<Rightarrow> bytes" where
  "ser_iterator_key type hashBytes = of_nat type # hashBytes"

definition ser_iterator_height_key :: "nat \<Rightarrow> bytes \<Rightarrow> int \<Rightarrow> bytes" where
  "ser_iterator_height_key type hashBytes height = of_nat type # hashBytes @ ser_writedata32be (word_of_int height)"

text \<open>The \<open>Unserialize\<close> functions, on a key long enough for them; \<open>GetKey\<close> catches the exception of a shorter one.\<close>

definition unser_address_key :: "bytes \<Rightarrow> CAddressIndexKey option" where
  "unser_address_key s =
     (if length s < 66 then None
      else Some \<lparr>ak_type = unat (s ! 0), ak_hashBytes = take 20 (drop 1 s), ak_blockHeight = sint (ReadBE32 (drop 21 s)),
                 ak_txindex = unat (ReadBE32 (drop 25 s)), ak_txhash = take 32 (drop 29 s), ak_index = le_val (take 4 (drop 61 s)),
                 ak_spending = (s ! 65 \<noteq> 0)\<rparr>)"

definition unser_unspent_key :: "bytes \<Rightarrow> CAddressUnspentKey option" where
  "unser_unspent_key s =
     (if length s < 57 then None
      else Some \<lparr>uk_type = unat (s ! 0), uk_hashBytes = take 20 (drop 1 s), uk_txhash = take 32 (drop 21 s),
                 uk_index = le_val (take 4 (drop 53 s))\<rparr>)"

definition unser_timestamp_key :: "bytes \<Rightarrow> CTimestampIndexKey option" where
  "unser_timestamp_key s =
     (if length s < 36 then None else Some \<lparr>tk_timestamp = ReadBE32 s, tk_blockHash = take 32 (drop 4 s)\<rparr>)"

section \<open>The database\<close>

abbreviation bytes_less :: "bytes \<Rightarrow> bytes \<Rightarrow> bool" where
  "bytes_less \<equiv> ord_class.lexordp"

text \<open>
  The keys are bytes, because their order decides what a range query finds; the values are held decoded, so that reading one cannot fail and
  the error returns of the read functions do not occur.
\<close>

type_synonym 'v table = "(bytes \<times> 'v) list"

fun db_write :: "bytes \<Rightarrow> 'v \<Rightarrow> 'v table \<Rightarrow> 'v table" where
  "db_write k v [] = [(k, v)]"
| "db_write k v ((k', v') # t) =
     (if k = k' then (k, v) # t else if bytes_less k k' then (k, v) # (k', v') # t else (k', v') # db_write k v t)"

definition db_erase :: "bytes \<Rightarrow> 'v table \<Rightarrow> 'v table" where
  "db_erase k t = filter (\<lambda>(k', _). k' \<noteq> k) t"

definition db_seek :: "bytes \<Rightarrow> 'v table \<Rightarrow> 'v table" where
  "db_seek k t = dropWhile (\<lambda>(k', _). bytes_less k' k) t"

definition db_ok :: "'v table \<Rightarrow> bool" where
  "db_ok t \<longleftrightarrow> sorted_wrt bytes_less (map fst t)"

fun UpdateSpentIndex :: "(CSpentIndexKey \<times> CSpentIndexValue) list \<Rightarrow> CSpentIndexValue table \<Rightarrow> CSpentIndexValue table" where
  "UpdateSpentIndex [] t = t"
| "UpdateSpentIndex ((k, v) # vect) t =
     UpdateSpentIndex vect (if CSpentIndexValue_IsNull v then db_erase (ser_spent_key k) t else db_write (ser_spent_key k) v t)"

fun UpdateAddressUnspentIndex ::
  "(CAddressUnspentKey \<times> CAddressUnspentValue) list \<Rightarrow> CAddressUnspentValue table \<Rightarrow> CAddressUnspentValue table" where
  "UpdateAddressUnspentIndex [] t = t"
| "UpdateAddressUnspentIndex ((k, v) # vect) t =
     UpdateAddressUnspentIndex vect
       (if CAddressUnspentValue_IsNull v then db_erase (ser_unspent_key k) t else db_write (ser_unspent_key k) v t)"

fun WriteAddressIndex :: "(CAddressIndexKey \<times> CAmount) list \<Rightarrow> CAmount table \<Rightarrow> CAmount table" where
  "WriteAddressIndex [] t = t"
| "WriteAddressIndex ((k, v) # vect) t = WriteAddressIndex vect (db_write (ser_address_key k) v t)"

fun EraseAddressIndex :: "(CAddressIndexKey \<times> CAmount) list \<Rightarrow> CAmount table \<Rightarrow> CAmount table" where
  "EraseAddressIndex [] t = t"
| "EraseAddressIndex ((k, v) # vect) t = EraseAddressIndex vect (db_erase (ser_address_key k) t)"

definition WriteTimestampIndex :: "CTimestampIndexKey \<Rightarrow> unit table \<Rightarrow> unit table" where
  "WriteTimestampIndex k t = db_write (ser_timestamp_key k) () t"

fun read_address_loop :: "bytes \<Rightarrow> int \<Rightarrow> CAmount table \<Rightarrow> (CAddressIndexKey \<times> CAmount) list" where
  "read_address_loop addressHash stop [] = []"
| "read_address_loop addressHash stop ((s, v) # t) =
     (case unser_address_key s of
        None \<Rightarrow> []
      | Some key \<Rightarrow>
          if ak_hashBytes key = addressHash
          then if stop > 0 \<and> ak_blockHeight key > stop then [] else (key, v) # read_address_loop addressHash stop t
          else [])"

definition ReadAddressIndex :: "bytes \<Rightarrow> nat \<Rightarrow> int \<Rightarrow> int \<Rightarrow> CAmount table \<Rightarrow> (CAddressIndexKey \<times> CAmount) list" where
  "ReadAddressIndex addressHash type start stop t =
     read_address_loop addressHash stop
       (db_seek (if start > 0 \<and> stop > 0 then ser_iterator_height_key type addressHash start else ser_iterator_key type addressHash) t)"

fun read_unspent_loop :: "bytes \<Rightarrow> CAddressUnspentValue table \<Rightarrow> (CAddressUnspentKey \<times> CAddressUnspentValue) list" where
  "read_unspent_loop addressHash [] = []"
| "read_unspent_loop addressHash ((s, v) # t) =
     (case unser_unspent_key s of
        None \<Rightarrow> []
      | Some key \<Rightarrow> if uk_hashBytes key = addressHash then (key, v) # read_unspent_loop addressHash t else [])"

definition ReadAddressUnspentIndex :: "bytes \<Rightarrow> nat \<Rightarrow> CAddressUnspentValue table \<Rightarrow> (CAddressUnspentKey \<times> CAddressUnspentValue) list" where
  "ReadAddressUnspentIndex addressHash type t = read_unspent_loop addressHash (db_seek (ser_iterator_key type addressHash) t)"

fun read_timestamp_loop :: "u32 \<Rightarrow> unit table \<Rightarrow> bytes list" where
  "read_timestamp_loop high [] = []"
| "read_timestamp_loop high ((s, _) # t) =
     (case unser_timestamp_key s of
        None \<Rightarrow> []
      | Some key \<Rightarrow> if tk_timestamp key \<le> high then tk_blockHash key # read_timestamp_loop high t else [])"

definition ReadTimestampIndex :: "u32 \<Rightarrow> u32 \<Rightarrow> unit table \<Rightarrow> bytes list" where
  "ReadTimestampIndex high low t = read_timestamp_loop high (db_seek (ser_writedata32be low) t)"

definition ReadSpentIndex :: "CSpentIndexKey \<Rightarrow> CSpentIndexValue table \<Rightarrow> CSpentIndexValue option" where
  "ReadSpentIndex k t = map_of t (ser_spent_key k)"

section \<open>Order\<close>

lemma bytes_less_append:
  "length a = length c \<Longrightarrow> bytes_less (a @ b) (c @ d) \<longleftrightarrow> bytes_less a c \<or> a = c \<and> bytes_less b (d :: bytes)"
  by (induction a c rule: list_induct2) auto

lemma div_mod_less: "x < y \<longleftrightarrow> x div 256 < y div 256 \<or> x div 256 = y div 256 \<and> x mod 256 < y mod (256 :: nat)"
proof -
  have "256 * a + b < 256 * c + d \<longleftrightarrow> a < c \<or> a = c \<and> b < d" if "b < 256" "d < 256" for a b c d :: nat
    using that by (cases a c rule: linorder_cases) auto
  from this [of "x mod 256" "y mod 256" "x div 256" "y div 256"] show ?thesis by simp
qed

lemma be_order:
  "x < 256 ^ k \<Longrightarrow> y < 256 ^ k \<Longrightarrow> bytes_less (rev (le_bytes k x)) (rev (le_bytes k y)) \<longleftrightarrow> x < y"
proof (induction k arbitrary: x y)
  case (Suc k)
  have d: "x div 256 < 256 ^ k" "y div 256 < 256 ^ k" using Suc.prems by (simp_all add: div_less_iff_less_mult mult.commute)
  have "bytes_less (rev (le_bytes (Suc k) x)) (rev (le_bytes (Suc k) y)) \<longleftrightarrow>
      x div 256 < y div 256 \<or> le_bytes k (x div 256) = le_bytes k (y div 256) \<and> x mod 256 < y mod 256"
    using Suc.IH [OF d] by (simp add: bytes_less_append word_less_nat_alt)
  also have "le_bytes k (x div 256) = le_bytes k (y div 256) \<longleftrightarrow> x div 256 = y div 256"
    using d by (auto dest: le_bytes_inj)
  also have "x div 256 < y div 256 \<or> x div 256 = y div 256 \<and> x mod 256 < y mod 256 \<longleftrightarrow> x < y"
    by (rule div_mod_less [symmetric])
  finally show ?case .
qed simp

lemma sorted_scan:
  assumes "sorted_wrt R xs" "\<And>x y. x \<in> set xs \<Longrightarrow> y \<in> set xs \<Longrightarrow> R x y \<Longrightarrow> D y \<Longrightarrow> D x"
    and "\<And>x y. x \<in> set xs \<Longrightarrow> y \<in> set xs \<Longrightarrow> R x y \<Longrightarrow> \<not> D x \<Longrightarrow> \<not> Q x \<Longrightarrow> \<not> P y"
    and "\<And>x. x \<in> set xs \<Longrightarrow> P x \<longleftrightarrow> \<not> D x \<and> Q x"
  shows "takeWhile Q (dropWhile D xs) = filter P xs"
  using assms
proof (induction xs)
  case (Cons x xs)
  have IH: "takeWhile Q (dropWhile D xs) = filter P xs"
    by (rule Cons.IH) (use Cons.prems in \<open>auto\<close>)
  show ?case
  proof (cases "D x")
    case True
    with IH Cons.prems(4) [of x] show ?thesis by simp
  next
    case False
    then have "\<forall>y \<in> set xs. \<not> D y" using Cons.prems(1,2) by auto
    then have "dropWhile D xs = xs" by (cases xs) auto
    moreover have "\<forall>y \<in> set xs. \<not> P y" if "\<not> Q x" using Cons.prems(1,3) False that by auto
    ultimately show ?thesis using IH False Cons.prems(4) [of x] by (auto simp: filter_empty_conv)
  qed
qed simp

lemma db_write_lookup: "map_of (db_write k v t) = (map_of t)(k \<mapsto> v)"
  by (induction k v t rule: db_write.induct) (auto simp: fun_eq_iff)

lemma db_erase_lookup: "map_of (db_erase k t) = (map_of t)(k := None)"
  by (induction t) (auto simp: db_erase_def fun_eq_iff)

lemma bytes_less_linear: "a = b \<or> bytes_less a b \<or> bytes_less b a"
  using lexordp_linear by blast

lemma set_db_write: "fst ` set (db_write k v t) = insert k (fst ` set t)"
  by (induction k v t rule: db_write.induct) auto

lemma db_write_ok: "db_ok t \<Longrightarrow> db_ok (db_write k v t)"
proof (induction k v t rule: db_write.induct)
  case (2 k v k' v' t)
  then have s: "\<forall>x \<in> fst ` set t. bytes_less k' x" "db_ok t" by (auto simp: db_ok_def)
  consider "k = k'" | "k \<noteq> k'" "bytes_less k k'" | "k \<noteq> k'" "\<not> bytes_less k k'" "bytes_less k' k"
    using bytes_less_linear [of k k'] by blast
  then show ?case
  proof cases
    case 2
    with s "2.prems" show ?thesis by (auto simp: db_ok_def intro: lexordp_trans)
  next
    case 3
    with s "2.IH" [OF 3(1,2) s(2)] set_db_write [of k v t] show ?thesis by (auto simp: db_ok_def)
  qed (use "2.prems" in \<open>auto simp: db_ok_def\<close>)
qed (simp add: db_ok_def)

lemma db_erase_ok: "db_ok t \<Longrightarrow> db_ok (db_erase k t)"
  by (induction t) (auto simp: db_ok_def db_erase_def)

section \<open>Keys in range\<close>

definition address_key_ok :: "CAddressIndexKey \<Rightarrow> bool" where
  "address_key_ok k \<longleftrightarrow> ak_type k < 256 \<and> length (ak_hashBytes k) = 20 \<and> 0 \<le> ak_blockHeight k \<and> ak_blockHeight k < 2 ^ 31 \<and>
     ak_txindex k < 2 ^ 32 \<and> length (ak_txhash k) = 32 \<and> ak_index k < 2 ^ 32"

definition unspent_key_ok :: "CAddressUnspentKey \<Rightarrow> bool" where
  "unspent_key_ok k \<longleftrightarrow> uk_type k < 256 \<and> length (uk_hashBytes k) = 20 \<and> length (uk_txhash k) = 32 \<and> uk_index k < 2 ^ 32"

lemma length_be32 [simp]: "length (ser_writedata32be x) = 4"
  by (simp add: ser_writedata32be_def)

lemma ReadBE32_write: "ReadBE32 (ser_writedata32be x @ r) = x"
  using unsigned_less [of x, where 'a = nat] by (simp add: ReadBE32_def ser_writedata32be_def)

lemma unser_address_key_ser:
  assumes "address_key_ok k"
  shows "unser_address_key (ser_address_key k) = Some k"
proof -
  have "sint (word_of_int (ak_blockHeight k) :: u32) = ak_blockHeight k"
    using assms by (simp add: address_key_ok_def int_word_sint mod_pos_pos_trivial)
  with assms show ?thesis
    by (cases k) (simp add: unser_address_key_def ser_address_key_def address_key_ok_def ReadBE32_write nth_append unat_of_nat)
qed

lemma unser_unspent_key_ser: "unspent_key_ok k \<Longrightarrow> unser_unspent_key (ser_unspent_key k) = Some k"
  by (cases k) (simp add: unser_unspent_key_def ser_unspent_key_def unspent_key_ok_def)

section \<open>Scans\<close>

text \<open>The order of the keys of the address index up to the height: it is the numeric order of the heights within an address.\<close>

lemma unat_height: "0 \<le> h \<Longrightarrow> h < 2 ^ 31 \<Longrightarrow> unat (word_of_int h :: u32) = nat h"
  by (simp add: unsigned_of_int take_bit_int_eq_self)

lemma be32_order:
  "bytes_less (ser_writedata32be x) (ser_writedata32be y) \<longleftrightarrow> unat x < unat y"
  "ser_writedata32be x = ser_writedata32be y \<longleftrightarrow> x = y"
proof -
  have b: "unat x < 256 ^ 4" "unat y < 256 ^ 4"
    using unsigned_less [of x, where 'a = nat] unsigned_less [of y, where 'a = nat] by simp_all
  then show "bytes_less (ser_writedata32be x) (ser_writedata32be y) \<longleftrightarrow> unat x < unat y"
    by (simp only: ser_writedata32be_def be_order)
  show "ser_writedata32be x = ser_writedata32be y \<longleftrightarrow> x = y"
    using le_bytes_inj [OF _ b] by (auto simp: ser_writedata32be_def word_unat_eq_iff)
qed

lemma byte_type_order:
  "a < 256 \<Longrightarrow> b < 256 \<Longrightarrow> (of_nat a :: byte) < of_nat b \<longleftrightarrow> a < b"
  by (simp add: word_less_nat_alt)

definition before :: "CAddressIndexKey \<Rightarrow> nat \<Rightarrow> bytes \<Rightarrow> int \<Rightarrow> bool" where
  "before k type hsh height \<longleftrightarrow> ak_type k < type \<or> ak_type k = type \<and>
     (bytes_less (ak_hashBytes k) hsh \<or> ak_hashBytes k = hsh \<and> ak_blockHeight k < height)"

lemma prefix_order:
  assumes "t < 256" "t' < 256" "length h = 20" "length h' = 20" "0 \<le> x" "x < 2 ^ 31" "0 \<le> y" "y < 2 ^ 31"
  shows "bytes_less (of_nat t # h @ ser_writedata32be (word_of_int x) @ r) (of_nat t' # h' @ ser_writedata32be (word_of_int y) @ r') \<longleftrightarrow>
    t < t' \<or> t = t' \<and> (bytes_less h h' \<or> h = h' \<and> (x < y \<or> x = y \<and> bytes_less r r'))"
proof -
  have "bytes_less (ser_writedata32be (word_of_int x) @ r) (ser_writedata32be (word_of_int y) @ r') \<longleftrightarrow> x < y \<or> x = y \<and> bytes_less r r'"
  proof -
    have "(word_of_int x :: u32) = word_of_int y \<longleftrightarrow> x = y" using assms(5-8) by (metis eq_nat_nat_iff unat_height)
    with assms(5-8) show ?thesis by (auto simp: bytes_less_append be32_order unat_height)
  qed
  moreover have "of_nat t < (of_nat t' :: byte) \<longleftrightarrow> t < t'" "of_nat t' < (of_nat t :: byte) \<longleftrightarrow> t' < t"
    using assms(1,2) by (simp_all add: byte_type_order)
  ultimately show ?thesis using assms(3,4) by (auto simp: bytes_less_append)
qed

lemma seek_order:
  assumes "address_key_ok k" "type < 256" "length hsh = 20" "0 \<le> height" "height < 2 ^ 31"
  shows "bytes_less (ser_address_key k) (ser_iterator_height_key type hsh height) \<longleftrightarrow> before k type hsh height"
  using assms prefix_order [where r' = "[]"]
  by (simp add: ser_address_key_def ser_iterator_height_key_def address_key_ok_def before_def)

lemma key_order:
  assumes "address_key_ok k" "address_key_ok k'" "bytes_less (ser_address_key k) (ser_address_key k')"
  shows "\<not> before k' (ak_type k) (ak_hashBytes k) (ak_blockHeight k)"
proof -
  have ok: "ak_type k < 256" "ak_type k' < 256" "length (ak_hashBytes k) = 20" "length (ak_hashBytes k') = 20" "0 \<le> ak_blockHeight k"
    "ak_blockHeight k < 2 ^ 31" "0 \<le> ak_blockHeight k'" "ak_blockHeight k' < 2 ^ 31"
    using assms(1,2) by (simp_all add: address_key_ok_def)
  have "ak_type k < ak_type k' \<or> ak_type k = ak_type k' \<and>
      (bytes_less (ak_hashBytes k) (ak_hashBytes k') \<or> ak_hashBytes k = ak_hashBytes k' \<and> ak_blockHeight k \<le> ak_blockHeight k')"
    using assms(3) unfolding ser_address_key_def prefix_order [OF ok] by auto
  then show ?thesis by (auto simp: before_def lexordp_irreflexive' dest: lexordp_antisym)
qed

lemma before_trans:
  assumes "\<not> before k' (ak_type k) (ak_hashBytes k) (ak_blockHeight k)" "before k' type hsh height"
  shows "before k type hsh height"
  using assms bytes_less_linear [of "ak_hashBytes k" "ak_hashBytes k'"] by (auto simp: before_def dest: lexordp_trans)

definition address_table :: "(CAddressIndexKey \<times> CAmount) list \<Rightarrow> CAmount table" where
  "address_table es = map (\<lambda>(k, v). (ser_address_key k, v)) es"

lemma read_address_loop_table:
  "0 < stop \<Longrightarrow> \<forall>(k, _) \<in> set es. address_key_ok k \<Longrightarrow>
   read_address_loop h stop (address_table es) = takeWhile (\<lambda>(k, _). ak_hashBytes k = h \<and> ak_blockHeight k \<le> stop) es"
  by (induction es) (auto simp: address_table_def unser_address_key_ser split: if_splits)

lemma db_seek_table:
  assumes "\<forall>(k, _) \<in> set es. address_key_ok k" "type < 256" "length h = 20" "0 \<le> start" "start < 2 ^ 31"
  shows "db_seek (ser_iterator_height_key type h start) (address_table es) =
    address_table (dropWhile (\<lambda>(k, _). before k type h start) es)"
  using assms(1) by (induction es) (auto simp: db_seek_def address_table_def seek_order [OF _ assms(2-5)])

text \<open>
C22: A scan of the address index finds everything in its range. On a database that holds the entries \<open>es\<close> in the order of the bytes of their
keys, \<open>ReadAddressIndex\<close> for an address and a range of heights returns exactly the entries of the address with a height in the range, in order;
the heights are stored with the high byte first for that. The scan compares the hash and not the kind of the address, so it is assumed that no
script hash in the index is also a key hash.
\<close>

theorem ReadAddressIndex_range:
  assumes "db_ok (address_table es)" "\<forall>(k, _) \<in> set es. address_key_ok k"
    and "\<forall>(k, _) \<in> set es. ak_hashBytes k = h \<longrightarrow> ak_type k = type"
    and "type < 256" "length h = 20" "0 < start" "start < 2 ^ 31" "0 < stop"
  shows "ReadAddressIndex h type start stop (address_table es) =
    filter (\<lambda>(k, _). ak_hashBytes k = h \<and> start \<le> ak_blockHeight k \<and> ak_blockHeight k \<le> stop) es"
proof -
  let ?D = "\<lambda>(k, _). before k type h start" and ?Q = "\<lambda>(k, _). ak_hashBytes k = h \<and> ak_blockHeight k \<le> stop"
  let ?P = "\<lambda>(k, _). ak_hashBytes k = h \<and> start \<le> ak_blockHeight k \<and> ak_blockHeight k \<le> stop"
  let ?R = "\<lambda>(k, _ :: CAmount) (k', _ :: CAmount). bytes_less (ser_address_key k) (ser_address_key k')"
  have "\<forall>(k, _) \<in> set (dropWhile ?D es). address_key_ok k" using assms(2) set_dropWhileD by fast
  with assms(8) have "read_address_loop h stop (address_table (dropWhile ?D es)) = takeWhile ?Q (dropWhile ?D es)"
    by (rule read_address_loop_table)
  then have "ReadAddressIndex h type start stop (address_table es) = takeWhile ?Q (dropWhile ?D es)"
    unfolding ReadAddressIndex_def using assms(2,4-8) by (simp add: db_seek_table)
  also have "\<dots> = filter ?P es"
  proof (rule sorted_scan [where R = ?R])
    show "sorted_wrt ?R es" using assms(1) by (simp add: db_ok_def address_table_def sorted_wrt_map case_prod_unfold)
  next
    fix x y assume xy: "x \<in> set es" "y \<in> set es" "?R x y"
    then have o: "\<not> before (fst y) (ak_type (fst x)) (ak_hashBytes (fst x)) (ak_blockHeight (fst x))"
      using assms(2) by (intro key_order) (auto simp: case_prod_unfold)
    show "?D y \<Longrightarrow> ?D x" using before_trans [OF o] by (simp add: case_prod_unfold)
    assume "\<not> ?D x" "\<not> ?Q x"
    moreover have "ak_hashBytes (fst y) = h \<longrightarrow> ak_type (fst y) = type" using assms(3) xy(2) by (simp add: case_prod_unfold)
    ultimately show "\<not> ?P y"
      using o bytes_less_linear [of "ak_hashBytes (fst x)" h] by (auto simp: before_def case_prod_unfold)
  next
    fix x assume "x \<in> set es"
    then have "ak_hashBytes (fst x) = h \<longrightarrow> ak_type (fst x) = type" using assms(3) by (simp add: case_prod_unfold)
    then show "?P x \<longleftrightarrow> \<not> ?D x \<and> ?Q x" by (auto simp: before_def case_prod_unfold lexordp_irreflexive')
  qed
  finally show ?thesis .
qed

definition sample_address_key :: "int \<Rightarrow> CAddressIndexKey" where
  "sample_address_key height =
     \<lparr>ak_type = 1, ak_hashBytes = replicate 20 7, ak_blockHeight = height, ak_txindex = 0, ak_txhash = replicate 32 9, ak_index = 0,
      ak_spending = False\<rparr>"

theorem ReadAddressIndex_range_witness:
  "ReadAddressIndex (replicate 20 7) 1 2 300
     (address_table [(sample_address_key 1, 10), (sample_address_key 255, 11), (sample_address_key 256, 12), (sample_address_key 301, 13)]) =
   [(sample_address_key 255, 11), (sample_address_key 256, 12)]"
proof -
  let ?es = "[(sample_address_key 1, 10), (sample_address_key 255, 11), (sample_address_key 256, 12), (sample_address_key 301, 13)]"
  have "db_ok (address_table ?es)" unfolding sample_address_key_def by code_simp
  from ReadAddressIndex_range [OF this, of "replicate 20 7" 1 2 300] show ?thesis
    by (simp add: sample_address_key_def address_key_ok_def)
qed

end
