(* ===== verification/CuckooCache.thy ===== *)
theory CuckooCache
  imports SigHash
begin

unbundle bit_operations_syntax

text \<open>
  The set of hashes that remembers valid signatures and executed scripts (\<open>cuckoocache.h\<close>) and the signature cache
  (\<open>script/sigcache.cpp\<close>). The elements lie in a table, each at one of eight places that its hashes give; an insertion
  displaces elements and may drop one, so the only promise is that nothing is found that was not put in. The atomic bytes of
  the collection flags are a list of bytes; the table elements and the hash functions are parameters as in the class template.
\<close>

section \<open>Bit-packed flags\<close>

type_synonym bit_packed_flags = "byte list"

definition bit_packed_flags_new :: "nat \<Rightarrow> bit_packed_flags" where
  "bit_packed_flags_new sz = replicate (((sz + 7) mod 2 ^ 32) div 8) 0xFF"

definition bit_set :: "nat \<Rightarrow> bit_packed_flags \<Rightarrow> bit_packed_flags" where
  "bit_set s mem = mem[s div 8 := mem ! (s div 8) OR push_bit (s mod 8) 1]"

definition bit_unset :: "nat \<Rightarrow> bit_packed_flags \<Rightarrow> bit_packed_flags" where
  "bit_unset s mem = mem[s div 8 := mem ! (s div 8) AND NOT (push_bit (s mod 8) 1)]"

definition bit_is_set :: "nat \<Rightarrow> bit_packed_flags \<Rightarrow> bool" where
  "bit_is_set s mem \<longleftrightarrow> push_bit (s mod 8) 1 AND mem ! (s div 8) \<noteq> 0"

section \<open>The cache\<close>

record 'e cuckoo =
  ck_table :: "'e list"
  ck_size :: nat
  collection_flags :: bit_packed_flags
  epoch_flags :: "bool list"
  epoch_heuristic_counter :: nat
  epoch_size :: nat
  depth_limit :: nat

type_synonym 'e ck_hash = "nat \<Rightarrow> 'e \<Rightarrow> u32"

definition compute_hashes :: "'e ck_hash \<Rightarrow> nat \<Rightarrow> 'e \<Rightarrow> nat list" where
  "compute_hashes hash_function sz e = map (\<lambda>k. (unat (hash_function k e) * sz) div 2 ^ 32) [0..<8]"

definition ck_invalid :: nat where
  "ck_invalid = 2 ^ 32 - 1"

definition allow_erase :: "nat \<Rightarrow> 'e cuckoo \<Rightarrow> 'e cuckoo" where
  "allow_erase n c = c\<lparr>collection_flags := bit_set n (collection_flags c)\<rparr>"

definition please_keep :: "nat \<Rightarrow> 'e cuckoo \<Rightarrow> 'e cuckoo" where
  "please_keep n c = c\<lparr>collection_flags := bit_unset n (collection_flags c)\<rparr>"

text \<open>The loop of \<open>epoch_check\<close> that ages the elements, from index \<open>i\<close> on.\<close>

fun age_loop :: "nat list \<Rightarrow> 'e cuckoo \<Rightarrow> 'e cuckoo" where
  "age_loop [] c = c"
| "age_loop (i # is) c =
     age_loop is (if epoch_flags c ! i then c\<lparr>epoch_flags := (epoch_flags c)[i := False]\<rparr> else allow_erase i c)"

definition epoch_check :: "'e cuckoo \<Rightarrow> 'e cuckoo" where
  "epoch_check c =
     (if epoch_heuristic_counter c \<noteq> 0 then c\<lparr>epoch_heuristic_counter := epoch_heuristic_counter c - 1\<rparr>
      else
        let epoch_unused_count = length (filter (\<lambda>i. epoch_flags c ! i \<and> \<not> bit_is_set i (collection_flags c)) [0..<ck_size c])
        in if epoch_unused_count \<ge> epoch_size c
           then (age_loop [0..<ck_size c] c)\<lparr>epoch_heuristic_counter := epoch_size c\<rparr>
           else c\<lparr>epoch_heuristic_counter := max 1 (max (epoch_size c div 16) (epoch_size c - epoch_unused_count))\<rparr>)"

text \<open>\<open>vector::resize\<close>; the logarithm of a \<open>float\<close> is the parameter \<open>log2f\<close>, its conversion to a byte keeps the low bits.\<close>

definition resize_to :: "'a \<Rightarrow> nat \<Rightarrow> 'a list \<Rightarrow> 'a list" where
  "resize_to d n xs = take n xs @ replicate (n - length xs) d"

definition cuckoo_new :: "'e cuckoo" where
  "cuckoo_new =
     \<lparr>ck_table = [], ck_size = 0, collection_flags = bit_packed_flags_new 0, epoch_flags = [], epoch_heuristic_counter = 0,
      epoch_size = 0, depth_limit = 0\<rparr>"

definition cuckoo_setup :: "(nat \<Rightarrow> nat) \<Rightarrow> 'e \<Rightarrow> nat \<Rightarrow> 'e cuckoo \<Rightarrow> 'e cuckoo" where
  "cuckoo_setup log2f null_e new_size c =
     (let sz = max 2 new_size; es = max 1 ((45 * sz) mod 2 ^ 32 div 100)
      in \<lparr>ck_table = resize_to null_e sz (ck_table c), ck_size = sz, collection_flags = bit_packed_flags_new sz,
          epoch_flags = resize_to False sz (epoch_flags c), epoch_heuristic_counter = es, epoch_size = es,
          depth_limit = log2f sz mod 2 ^ 8\<rparr>)"

definition cuckoo_setup_bytes :: "(nat \<Rightarrow> nat) \<Rightarrow> 'e \<Rightarrow> nat \<Rightarrow> nat \<Rightarrow> 'e cuckoo \<Rightarrow> 'e cuckoo" where
  "cuckoo_setup_bytes log2f null_e sizeof n c = cuckoo_setup log2f null_e (n div sizeof mod 2 ^ 32) c"

definition store_at :: "nat \<Rightarrow> 'e \<Rightarrow> bool \<Rightarrow> 'e cuckoo \<Rightarrow> 'e cuckoo" where
  "store_at loc e epoch c = c\<lparr>ck_table := (ck_table c)[loc := e], epoch_flags := (epoch_flags c)[loc := epoch]\<rparr>"

text \<open>The loop of \<open>insert\<close>: \<open>d\<close> iterations are left, \<open>e\<close> is the element without a place.\<close>

fun insert_loop :: "'e ck_hash \<Rightarrow> nat \<Rightarrow> 'e \<Rightarrow> nat list \<Rightarrow> nat \<Rightarrow> bool \<Rightarrow> 'e cuckoo \<Rightarrow> 'e cuckoo" where
  "insert_loop hash_function 0 e locs last_loc last_epoch c = c"
| "insert_loop hash_function (Suc d) e locs last_loc last_epoch c =
     (case List.find (\<lambda>loc. bit_is_set loc (collection_flags c)) locs of
        Some loc \<Rightarrow> please_keep loc (store_at loc e last_epoch c)
      | None \<Rightarrow>
          let loc = locs ! ((1 + length (takeWhile (\<lambda>l. l \<noteq> last_loc) locs)) mod 8);
              e' = ck_table c ! loc
          in insert_loop hash_function d e' (compute_hashes hash_function (ck_size c) e') loc (epoch_flags c ! loc)
               (store_at loc e last_epoch c))"

definition cuckoo_insert :: "'e ck_hash \<Rightarrow> 'e \<Rightarrow> 'e cuckoo \<Rightarrow> 'e cuckoo" where
  "cuckoo_insert hash_function e c0 =
     (let c = epoch_check c0;
          locs = compute_hashes hash_function (ck_size c) e
      in case List.find (\<lambda>loc. ck_table c ! loc = e) locs of
           Some loc \<Rightarrow> (please_keep loc c)\<lparr>epoch_flags := (epoch_flags c)[loc := True]\<rparr>
         | None \<Rightarrow> insert_loop hash_function (depth_limit c) e locs ck_invalid True c)"

definition cuckoo_contains :: "'e ck_hash \<Rightarrow> 'e \<Rightarrow> bool \<Rightarrow> 'e cuckoo \<Rightarrow> bool \<times> 'e cuckoo" where
  "cuckoo_contains hash_function e erase c =
     (case List.find (\<lambda>loc. ck_table c ! loc = e) (compute_hashes hash_function (ck_size c) e) of
        Some loc \<Rightarrow> (True, if erase then allow_erase loc c else c)
      | None \<Rightarrow> (False, c))"

section \<open>The contract of a cache of facts\<close>

text \<open>
  What the users of the cache rely on: nothing is found that is not an element, a lookup does not change the elements and an
  insertion adds at most the inserted element.
\<close>

locale fact_cache =
  fixes contains :: "'e \<Rightarrow> bool \<Rightarrow> 'c \<Rightarrow> bool \<times> 'c"
    and insrt :: "'e \<Rightarrow> 'c \<Rightarrow> 'c"
    and elems :: "'c \<Rightarrow> 'e set"
    and ok :: "'c \<Rightarrow> bool"
  assumes contains_elem: "ok c \<Longrightarrow> contains e erase c = (r, c') \<Longrightarrow> ok c' \<and> elems c' = elems c \<and> (r \<longrightarrow> e \<in> elems c)"
    and insert_elems: "ok c \<Longrightarrow> ok (insrt e c) \<and> elems (insrt e c) \<subseteq> insert e (elems c)"
begin

text \<open>All elements but \<open>null_e\<close> stand for requests in \<open>R\<close> that have been found to satisfy \<open>P\<close>.\<close>

definition facts :: "'e \<Rightarrow> ('r \<Rightarrow> 'e) \<Rightarrow> ('r \<Rightarrow> bool) \<Rightarrow> 'r set \<Rightarrow> 'c \<Rightarrow> bool" where
  "facts null_e key P R c \<longleftrightarrow> ok c \<and> elems c \<subseteq> insert null_e (key ` {x \<in> R. P x})"

lemma facts_contains:
  assumes "facts null_e key P R c" "contains (key x) erase c = (r, c')"
    and "inj_on key R" "x \<in> R" "\<not> P x \<longrightarrow> key x \<noteq> null_e"
  shows "facts null_e key P R c' \<and> (r \<longrightarrow> P x)"
proof -
  have "ok c" using assms(1) by (simp add: facts_def)
  note c = contains_elem [OF this assms(2)]
  have "P x" if r
  proof (rule ccontr)
    assume "\<not> P x"
    then have "key x \<in> key ` {x \<in> R. P x}" using c that assms(1,5) by (auto simp: facts_def)
    then obtain y where "key x = key y" "y \<in> R" "P y" by auto
    with assms(3,4) \<open>\<not> P x\<close> show False by (metis inj_onD)
  qed
  with c assms(1) show ?thesis by (auto simp: facts_def)
qed

lemma facts_insert:
  assumes "facts null_e key P R c" "x \<in> R" "P x"
  shows "facts null_e key P R (insrt (key x) c)"
  using assms insert_elems [of c "key x"] by (auto simp: facts_def)

end

section \<open>The cache keeps the contract\<close>

text \<open>The well-formedness of a cache: every place that the hashes can give exists in the table and in both sets of flags.\<close>

definition cuckoo_ok :: "'e cuckoo \<Rightarrow> bool" where
  "cuckoo_ok c \<longleftrightarrow> 0 < ck_size c \<and> length (ck_table c) = ck_size c \<and> length (epoch_flags c) = ck_size c \<and>
     ck_size c \<le> 8 * length (collection_flags c)"

definition cuckoo_elems :: "'e cuckoo \<Rightarrow> 'e set" where
  "cuckoo_elems c = set (ck_table c)"

lemma compute_hashes_range: "0 < sz \<Longrightarrow> loc \<in> set (compute_hashes h sz e) \<Longrightarrow> loc < sz"
proof -
  assume "0 < sz"
  then have "unat x * sz div 2 ^ 32 < sz" for x :: u32
    using unsigned_less [of x, where 'a = nat] by (intro div_less_iff_less_mult [THEN iffD2]) simp_all
  then show "loc \<in> set (compute_hashes h sz e) \<Longrightarrow> loc < sz" by (auto simp: compute_hashes_def)
qed

lemma compute_hashes_subset: "0 < sz \<Longrightarrow> set (compute_hashes h sz e) \<subseteq> {..<sz}"
  by (auto dest: compute_hashes_range)

lemma length_compute_hashes [simp]: "length (compute_hashes h sz e) = 8"
  by (simp add: compute_hashes_def)

lemma flags_length [simp]: "length (bit_set s m) = length m" "length (bit_unset s m) = length m"
  by (simp_all add: bit_set_def bit_unset_def)

lemma bit_mask_iff: "bit (push_bit k 1 :: byte) n \<longleftrightarrow> n = k \<and> n < 8"
  by (auto simp: bit_simps)

lemma bit_is_set_iff: "bit_is_set s m \<longleftrightarrow> bit (m ! (s div 8)) (s mod 8)"
  by (simp add: bit_is_set_def and.commute [of _ "m ! (s div 8)"] and_exp_eq_0_iff_not_bit)

lemma flag_ops:
  assumes "s div 8 < length m"
  shows "bit_is_set t (bit_set s m) \<longleftrightarrow> t = s \<or> bit_is_set t m" "bit_is_set t (bit_unset s m) \<longleftrightarrow> t \<noteq> s \<and> bit_is_set t m"
proof -
  have ts: "t = s \<longleftrightarrow> t div 8 = s div 8 \<and> t mod 8 = s mod 8" by (metis div_mult_mod_eq)
  show "bit_is_set t (bit_set s m) \<longleftrightarrow> t = s \<or> bit_is_set t m"
    using assms unfolding bit_is_set_iff ts
    by (auto simp: bit_set_def nth_list_update bit_or_iff bit_mask_iff simp del: push_bit_of_1)
  show "bit_is_set t (bit_unset s m) \<longleftrightarrow> t \<noteq> s \<and> bit_is_set t m"
    using assms unfolding bit_is_set_iff ts
    by (auto simp: bit_unset_def nth_list_update bit_and_iff bit_not_iff bit_mask_iff simp del: push_bit_of_1)
qed

lemma cuckoo_ok_simps [simp]:
  "cuckoo_ok (allow_erase n c) = cuckoo_ok c" "cuckoo_elems (allow_erase n c) = cuckoo_elems c"
  "cuckoo_ok (please_keep n c) = cuckoo_ok c" "cuckoo_elems (please_keep n c) = cuckoo_elems c"
  "cuckoo_ok (c\<lparr>epoch_heuristic_counter := k\<rparr>) = cuckoo_ok c" "cuckoo_elems (c\<lparr>epoch_heuristic_counter := k\<rparr>) = cuckoo_elems c"
  "cuckoo_ok (c\<lparr>epoch_flags := (epoch_flags c)[i := b]\<rparr>) = cuckoo_ok c" "cuckoo_elems (c\<lparr>epoch_flags := fs\<rparr>) = cuckoo_elems c"
  "cuckoo_ok (store_at i e b c) = cuckoo_ok c" "ck_size (store_at i e b c) = ck_size c"
  "epoch_flags (please_keep n c) = epoch_flags c" "ck_table (please_keep n c) = ck_table c"
  by (simp_all add: cuckoo_ok_def cuckoo_elems_def allow_erase_def please_keep_def store_at_def)

lemma store_at_elems: "cuckoo_elems (store_at i e b c) \<subseteq> insert e (cuckoo_elems c)"
  by (auto simp: cuckoo_elems_def store_at_def dest: set_update_subset_insert [THEN subsetD])

lemma age_loop_ok [simp]: "cuckoo_ok (age_loop is c) = cuckoo_ok c" "cuckoo_elems (age_loop is c) = cuckoo_elems c"
  by (induction "is" c rule: age_loop.induct) auto

lemma epoch_check_ok [simp]: "cuckoo_ok (epoch_check c) = cuckoo_ok c" "cuckoo_elems (epoch_check c) = cuckoo_elems c"
  by (auto simp: epoch_check_def Let_def)

lemma insert_loop_elems:
  assumes "cuckoo_ok c" "set locs \<subseteq> {..<ck_size c}" "length locs = 8"
  shows "cuckoo_ok (insert_loop h d e locs l b c) \<and> cuckoo_elems (insert_loop h d e locs l b c) \<subseteq> insert e (cuckoo_elems c)"
  using assms
proof (induction h d e locs l b c rule: insert_loop.induct)
  case (2 h d e locs l b c)
  show ?case
  proof (cases "List.find (\<lambda>loc. bit_is_set loc (collection_flags c)) locs")
    case (Some loc)
    with "2.prems"(1) store_at_elems [of loc e b c] show ?thesis by simp
  next
    case None
    let ?loc = "locs ! ((1 + length (takeWhile (\<lambda>x. x \<noteq> l) locs)) mod 8)"
    have "?loc \<in> set locs" using "2.prems"(3) by (intro nth_mem) simp
    then have "?loc < ck_size c" using "2.prems"(2) by blast
    then have e': "ck_table c ! ?loc \<in> cuckoo_elems c" using "2.prems"(1) by (simp add: cuckoo_ok_def cuckoo_elems_def)
    have "0 < ck_size c" using "2.prems"(1) by (simp add: cuckoo_ok_def)
    then have "set (compute_hashes h (ck_size c) (ck_table c ! ?loc)) \<subseteq> {..<ck_size c}" by (rule compute_hashes_subset)
    then have "cuckoo_ok (insert_loop h (Suc d) e locs l b c) \<and>
        cuckoo_elems (insert_loop h (Suc d) e locs l b c) \<subseteq> insert (ck_table c ! ?loc) (cuckoo_elems (store_at ?loc e b c))"
      using "2.IH" [OF None refl refl] "2.prems"(1) None by (simp add: Let_def)
    with e' store_at_elems [of ?loc e b c] show ?thesis by blast
  qed
qed auto

interpretation cuckoo: fact_cache "cuckoo_contains h" "cuckoo_insert h" cuckoo_elems cuckoo_ok for h
proof
  fix c e erase r and c' :: "'a cuckoo"
  assume c: "cuckoo_ok c" "cuckoo_contains h e erase c = (r, c')"
  show "cuckoo_ok c' \<and> cuckoo_elems c' = cuckoo_elems c \<and> (r \<longrightarrow> e \<in> cuckoo_elems c)"
  proof (cases "List.find (\<lambda>loc. ck_table c ! loc = e) (compute_hashes h (ck_size c) e)")
    case (Some loc)
    then have "loc \<in> set (compute_hashes h (ck_size c) e)" "ck_table c ! loc = e"
      by (auto simp: find_Some_iff)
    moreover have "loc < length (ck_table c)" using c(1) compute_hashes_range [OF _ calculation(1)] by (simp add: cuckoo_ok_def)
    ultimately have "e \<in> cuckoo_elems c" unfolding cuckoo_elems_def by (metis nth_mem)
    with Some c show ?thesis by (auto simp: cuckoo_contains_def split: if_splits)
  qed (use c in \<open>auto simp: cuckoo_contains_def\<close>)
next
  fix e and c :: "'a cuckoo"
  assume c: "cuckoo_ok c"
  let ?c = "epoch_check c"
  have ok: "cuckoo_ok ?c" "0 < ck_size ?c" using c epoch_check_ok(1) [of c] unfolding cuckoo_ok_def [of ?c] by auto
  note l = insert_loop_elems [OF ok(1) compute_hashes_subset [OF ok(2)] length_compute_hashes]
  show "cuckoo_ok (cuckoo_insert h e c) \<and> cuckoo_elems (cuckoo_insert h e c) \<subseteq> insert e (cuckoo_elems c)"
  proof (cases "List.find (\<lambda>loc. ck_table ?c ! loc = e) (compute_hashes h (ck_size ?c) e)")
    case None
    with l show ?thesis by (simp add: cuckoo_insert_def Let_def)
  next
    case (Some loc)
    moreover have "cuckoo_ok ((please_keep loc ?c)\<lparr>epoch_flags := (epoch_flags ?c)[loc := True]\<rparr>)"
      using ok(1) by (simp add: cuckoo_ok_def please_keep_def)
    ultimately show ?thesis by (auto simp: cuckoo_insert_def Let_def)
  qed
qed

lemma cuckoo_setup_ok:
  assumes "new_size < 2 ^ 32 - 8"
  shows "cuckoo_ok (cuckoo_setup log2f e new_size cuckoo_new)" "cuckoo_elems (cuckoo_setup log2f e new_size cuckoo_new) = {e}"
  using assms by (auto simp: cuckoo_ok_def cuckoo_elems_def cuckoo_setup_def cuckoo_new_def resize_to_def bit_packed_flags_new_def Let_def)

section \<open>The signature cache\<close>

definition SignatureCacheHasher :: "bytes ck_hash" where
  "SignatureCacheHasher hash_select key = ReadLE32 (drop (4 * hash_select) key)"

definition salted_hasher :: "bytes \<Rightarrow> hash_ctx" where
  "salted_hasher nonce = CSHA256_Write (CSHA256_Write CSHA256 nonce) nonce"

definition ComputeEntry :: "bytes \<Rightarrow> bytes \<Rightarrow> bytes \<Rightarrow> bytes \<Rightarrow> bytes" where
  "ComputeEntry nonce hsh vchSig pubkey =
     CSHA256_Finalize (CSHA256_Write (CSHA256_Write (CSHA256_Write (salted_hasher nonce) hsh) pubkey) vchSig)"

text \<open>\<open>VerifySignature\<close> of the caching checker; \<open>verify\<close> is the check of the base class (key, message hash, signature).\<close>

definition CachingVerifySignature ::
  "bytes \<Rightarrow> (bytes \<Rightarrow> bytes \<Rightarrow> bytes \<Rightarrow> bool) \<Rightarrow> bool \<Rightarrow> bytes \<Rightarrow> bytes \<Rightarrow> bytes \<Rightarrow> bytes cuckoo \<Rightarrow> bool \<times> bytes cuckoo" where
  "CachingVerifySignature nonce verify store vchSig pubkey sighash c =
     (let entry = ComputeEntry nonce sighash vchSig pubkey
      in case cuckoo_contains SignatureCacheHasher entry (\<not> store) c of
           (True, c1) \<Rightarrow> (True, c1)
         | (False, c1) \<Rightarrow>
             if \<not> verify pubkey sighash vchSig then (False, c1)
             else (True, if store then cuckoo_insert SignatureCacheHasher entry c1 else c1))"

text \<open>A series of requests (whether to store, signature, key and message hash) and the answers to them.\<close>

type_synonym sig_request = "bool \<times> bytes \<times> bytes \<times> bytes"

fun run_requests ::
  "bytes \<Rightarrow> (bytes \<Rightarrow> bytes \<Rightarrow> bytes \<Rightarrow> bool) \<Rightarrow> sig_request list \<Rightarrow> bytes cuckoo \<Rightarrow> bool list \<times> bytes cuckoo" where
  "run_requests nonce verify [] c = ([], c)"
| "run_requests nonce verify ((store, vchSig, pubkey, sighash) # rs) c =
     (case CachingVerifySignature nonce verify store vchSig pubkey sighash c of
        (r, c1) \<Rightarrow> (case run_requests nonce verify rs c1 of (ans, c2) \<Rightarrow> (r # ans, c2)))"

definition entry_message :: "bytes \<Rightarrow> bytes \<times> bytes \<times> bytes \<Rightarrow> bytes" where
  "entry_message nonce r = (case r of (vchSig, pubkey, sighash) \<Rightarrow> nonce @ nonce @ sighash @ pubkey @ vchSig)"

definition request_ok :: "bytes \<times> bytes \<times> bytes \<Rightarrow> bool" where
  "request_ok r \<longleftrightarrow> (case r of (vchSig, pubkey, sighash) \<Rightarrow> CPubKey_Set pubkey = Some pubkey \<and> length sighash = 32)"

lemma ComputeEntry_digest: "ComputeEntry nonce sighash vchSig pubkey = SHA256 (entry_message nonce (vchSig, pubkey, sighash))"
  using sha256_hasher.fin_writes [of "[nonce, nonce, sighash, pubkey, vchSig]"]
  by (simp add: ComputeEntry_def salted_hasher_def entry_message_def hash_specs)

text \<open>The length of a key follows from its first byte, so the fields of an entry cannot be shifted against each other.\<close>

lemma entry_message_inj: "inj_on (entry_message nonce) (Collect request_ok)"
proof (rule inj_onI)
  fix x y
  assume xy: "x \<in> Collect request_ok" "y \<in> Collect request_ok" "entry_message nonce x = entry_message nonce y"
  obtain s k h s' k' h' where e: "x = (s, k, h)" "y = (s', k', h')" by (metis prod_cases3)
  have a: "CPubKey_Set k = Some k" "length h = 32" "CPubKey_Set k' = Some k'" "length h' = 32" "h @ k @ s = h' @ k' @ s'"
    using xy by (simp_all add: e entry_message_def request_ok_def)
  then have h: "h = h'" and ks: "k @ s = k' @ s'" by auto
  have "k \<noteq> []" "k' \<noteq> []" "length k = CPubKey_GetLen (hd k)" "length k' = CPubKey_GetLen (hd k')"
    using a(1,3) by (auto simp: CPubKey_Set_def Let_def split: if_splits)
  moreover have "hd k = hd k'" using ks calculation(1,2) by (metis hd_append2)
  ultimately have "length k = length k'" by simp
  with h ks show "x = y" by (simp add: e)
qed

lemma run_requests_correct:
  assumes "\<forall>r \<in> set rs. snd r \<in> R" "inj_on SHA256 (entry_message nonce ` R)" "R \<subseteq> Collect request_ok"
    and "\<forall>(s, k, h) \<in> R. \<not> verify k h s \<longrightarrow> SHA256 (entry_message nonce (s, k, h)) \<noteq> uint256_null"
    and "cuckoo.facts uint256_null (SHA256 \<circ> entry_message nonce) (\<lambda>(s, k, h). verify k h s) R c"
  shows "fst (run_requests nonce verify rs c) = map (\<lambda>(_, s, k, h). verify k h s) rs"
  using assms(1,5)
proof (induction rs arbitrary: c)
  case (Cons r rs)
  let ?key = "SHA256 \<circ> entry_message nonce" and ?P = "\<lambda>(s, k, h). verify k h s"
  obtain store s k h where r: "r = (store, s, k, h)" by (metis prod_cases4)
  have x: "(s, k, h) \<in> R" using Cons.prems(1) r by simp
  have ij: "inj_on ?key R"
    using comp_inj_on [OF inj_on_subset [OF entry_message_inj assms(3)] assms(2)] .
  obtain hit c1 where f: "cuckoo_contains SignatureCacheHasher (?key (s, k, h)) (\<not> store) c = (hit, c1)" by fastforce
  have c1: "cuckoo.facts uint256_null ?key ?P R c1" "hit \<longrightarrow> verify k h s"
    using cuckoo.facts_contains [OF Cons.prems(2) f ij x] assms(4) x by auto
  obtain b c2 where v: "CachingVerifySignature nonce verify store s k h c = (b, c2)" by fastforce
  have bc: "b = verify k h s \<and> cuckoo.facts uint256_null ?key ?P R c2"
    using v f c1 cuckoo.facts_insert [OF c1(1) x, of SignatureCacheHasher]
    by (auto simp: CachingVerifySignature_def ComputeEntry_digest Let_def split: bool.splits if_splits)
  have "fst (run_requests nonce verify rs c2) = map (\<lambda>(_, s, k, h). verify k h s) rs"
    by (rule Cons.IH [OF _ conjunct2 [OF bc]]) (use Cons.prems(1) in simp)
  with bc v r show ?case by (auto split: prod.splits)
qed simp

section \<open>Properties\<close>

text \<open>
C21: The signature cache is transparent. Starting from a cache as \<open>setup\<close> leaves it, of any size, every series of requests with valid keys is
answered exactly as the verification itself answers it, whatever was stored, displaced or marked as erasable in between, provided the salted
hash has no collision on the requests and gives no failing one the null hash, with which the empty places of the table are filled.
\<close>

theorem sigcache_transparent:
  assumes "\<forall>(_, _, pubkey, sighash) \<in> set rs. CPubKey_Set pubkey = Some pubkey \<and> length sighash = 32"
    and "inj_on SHA256 (entry_message nonce ` snd ` set rs)" "uint256_null \<notin> SHA256 ` entry_message nonce ` {(s, k, h) \<in> snd ` set rs. \<not> verify k h s}"
    and "n < 2 ^ 32 - 8"
  shows "fst (run_requests nonce verify rs (cuckoo_setup log2f uint256_null n cuckoo_new)) =
    map (\<lambda>(_, vchSig, pubkey, sighash). verify pubkey sighash vchSig) rs"
proof (rule run_requests_correct [where R = "snd ` set rs"])
  show "cuckoo.facts uint256_null (SHA256 \<circ> entry_message nonce) (\<lambda>(s, k, h). verify k h s) (snd ` set rs)
      (cuckoo_setup log2f uint256_null n cuckoo_new)"
    using cuckoo_setup_ok [OF assms(4), of log2f uint256_null] by (simp add: cuckoo.facts_def)
  show "snd ` set rs \<subseteq> Collect request_ok" using assms(1) by (force simp: request_ok_def)
  show "\<forall>(s, k, h) \<in> snd ` set rs. \<not> verify k h s \<longrightarrow> SHA256 (entry_message nonce (s, k, h)) \<noteq> uint256_null"
    using assms(3) by (force simp: image_iff)
qed (use assms(2) in auto)

definition sample_request :: "bool \<Rightarrow> byte \<Rightarrow> sig_request" where
  "sample_request store b = (store, [b], replicate 33 2, replicate 32 0)"

theorem sigcache_transparent_witness:
  "fst (run_requests (replicate 32 0) (\<lambda>_ _ s. s = [1]) [sample_request True 1, sample_request False 1]
     (cuckoo_setup (\<lambda>_. 1) uint256_null 2 cuckoo_new)) = [True, True]"
proof -
  let ?rs = "[sample_request True 1, sample_request False 1]"
  have s: "snd ` set ?rs = {([1], replicate 33 2, replicate 32 0)}" by (auto simp: sample_request_def)
  have "inj_on SHA256 (entry_message (replicate 32 0) ` snd ` set ?rs)"
    "uint256_null \<notin> SHA256 ` entry_message (replicate 32 0) ` {(s, k, h) \<in> snd ` set ?rs. \<not> (\<lambda>_ _ s. s = [1]) k h s}"
    unfolding s by auto
  from sigcache_transparent [OF _ this, of 2 "\<lambda>_. 1"] show ?thesis
    by (simp add: sample_request_def CPubKey_Set_def CPubKey_GetLen_def)
qed

end
