(* ===== verification/Connect.thy ===== *)
theory Connect
  imports Ledger Indexes BlockCheck CuckooCache
begin

unbundle bit_operations_syntax

text \<open>
  Connecting a block to the chain state and disconnecting it again (\<open>ConnectBlock\<close>, \<open>DisconnectBlock\<close> and \<open>CheckInputs\<close> of
  \<open>validation.cpp\<close>): the checks of all transactions against the coins view, the update of the view with the undo data, and the entries of
  the address, spent and timestamp indexes. What the functions ask of the masternode, quorum and budget code is the record \<open>connect_env\<close>.
\<close>

section \<open>Index entries\<close>

record index_flags =
  fAddressIndex :: bool
  fSpentIndex :: bool
  fTimestampIndex :: bool

record index_batch =
  addressIndex :: "(CAddressIndexKey \<times> CAmount) list"
  addressUnspentIndex :: "(CAddressUnspentKey \<times> CAddressUnspentValue) list"
  spentIndex :: "(CSpentIndexKey \<times> CSpentIndexValue) list"

definition empty_batch :: index_batch where
  "empty_batch = \<lparr>addressIndex = [], addressUnspentIndex = [], spentIndex = []\<rparr>"

text \<open>The kind and the hash of the address that an output script pays to, as the four chains of conditions determine it.\<close>

definition address_of :: "bytes \<Rightarrow> (nat \<times> bytes) option" where
  "address_of spk =
     (if IsPayToScriptHash spk then Some (2, take 20 (drop 2 spk))
      else if IsPayToPublicKeyHash spk then Some (1, take 20 (drop 3 spk))
      else if IsPayToPublicKey spk then Some (1, HASH160 (butlast (drop 1 spk)))
      else None)"

definition push_entry ::
  "CAddressIndexKey \<times> CAmount \<Rightarrow> CAddressUnspentKey \<times> CAddressUnspentValue \<Rightarrow> index_batch \<Rightarrow> index_batch" where
  "push_entry a u b = b\<lparr>addressIndex := addressIndex b @ [a], addressUnspentIndex := addressUnspentIndex b @ [u]\<rparr>"

definition push_spent :: "CSpentIndexKey \<times> CSpentIndexValue \<Rightarrow> index_batch \<Rightarrow> index_batch" where
  "push_spent e b = b\<lparr>spentIndex := spentIndex b @ [e]\<rparr>"

text \<open>
  The entries for input \<open>j\<close> of transaction \<open>i\<close>, which spends \<open>prev\<close>, and for output \<open>k\<close> of it, when the block is connected at \<open>height\<close>.
\<close>

definition connect_input_entry ::
  "index_flags \<Rightarrow> int \<Rightarrow> nat \<Rightarrow> bytes \<Rightarrow> nat \<Rightarrow> CTxIn \<Rightarrow> CTxOut \<Rightarrow> index_batch \<Rightarrow> index_batch" where
  "connect_input_entry fl height i txhash j txin prev b =
     (let (addressType, hashBytes) = (case address_of (scriptPubKey prev) of Some a \<Rightarrow> a | None \<Rightarrow> (0, uint160_null));
          p = prevout txin;
          b1 = (if fAddressIndex fl \<and> addressType > 0
                then push_entry (CAddressIndexKey.make addressType hashBytes height i txhash j True, nValue prev * -1)
                       (CAddressUnspentKey.make addressType hashBytes (COutPoint.op_hash p) (unat (op_n p)), CAddressUnspentValue_null) b
                else b)
      in if fSpentIndex fl
         then push_spent (CSpentIndexKey.make (COutPoint.op_hash p) (op_n p),
                          CSpentIndexValue.make txhash j height (nValue prev) addressType hashBytes) b1
         else b1)"

definition connect_output_entry :: "int \<Rightarrow> nat \<Rightarrow> bytes \<Rightarrow> nat \<Rightarrow> CTxOut \<Rightarrow> index_batch \<Rightarrow> index_batch" where
  "connect_output_entry height i txhash k out b =
     (case address_of (scriptPubKey out) of
        None \<Rightarrow> b
      | Some (addressType, hashBytes) \<Rightarrow>
          push_entry (CAddressIndexKey.make addressType hashBytes height i txhash k False, nValue out)
            (CAddressUnspentKey.make addressType hashBytes txhash k, CAddressUnspentValue.make (nValue out) (scriptPubKey out) height) b)"

fun connect_output_entries :: "int \<Rightarrow> nat \<Rightarrow> bytes \<Rightarrow> nat \<Rightarrow> CTxOut list \<Rightarrow> index_batch \<Rightarrow> index_batch" where
  "connect_output_entries height i txhash k [] b = b"
| "connect_output_entries height i txhash k (out # outs) b =
     connect_output_entries height i txhash (k + 1) outs (connect_output_entry height i txhash k out b)"

fun connect_input_entries ::
  "(bytes \<Rightarrow> nat) \<Rightarrow> 'b view_ops \<Rightarrow> index_flags \<Rightarrow> int \<Rightarrow> nat \<Rightarrow> bytes \<Rightarrow> nat \<Rightarrow> CTxIn list \<Rightarrow> 'b cached \<Rightarrow> index_batch \<Rightarrow>
   index_batch \<times> 'b cached" where
  "connect_input_entries usage ops fl height i txhash j [] s b = (b, s)"
| "connect_input_entries usage ops fl height i txhash j (txin # ins) s b =
     (case AccessCoin usage ops (prevout txin) s of
        (coin, s1) \<Rightarrow>
          connect_input_entries usage ops fl height i txhash (j + 1) ins s1
            (connect_input_entry fl height i txhash j txin (coin_out coin) b))"

text \<open>The entries that undo them; the loop over the outputs runs from the last output to the first.\<close>

definition disconnect_output_entry :: "int \<Rightarrow> nat \<Rightarrow> bytes \<Rightarrow> nat \<times> CTxOut \<Rightarrow> index_batch \<Rightarrow> index_batch" where
  "disconnect_output_entry height i txhash ko b =
     (let (k, out) = ko
      in case address_of (scriptPubKey out) of
           None \<Rightarrow> b
         | Some (addressType, hashBytes) \<Rightarrow>
             push_entry (CAddressIndexKey.make addressType hashBytes height i txhash k False, nValue out)
               (CAddressUnspentKey.make addressType hashBytes txhash k, CAddressUnspentValue_null) b)"

definition disconnect_output_entries :: "int \<Rightarrow> nat \<Rightarrow> bytes \<Rightarrow> CTxOut list \<Rightarrow> index_batch \<Rightarrow> index_batch" where
  "disconnect_output_entries height i txhash outs b = foldl (\<lambda>b ko. disconnect_output_entry height i txhash ko b) b (rev (enumerate 0 outs))"

text \<open>
  For an input that spends a pay-to-public-key output the code pushes other keys than for the first two kinds: those of an output \<open>j\<close> of the
  disconnected transaction.
\<close>

definition disconnect_input_entry ::
  "int \<Rightarrow> nat \<Rightarrow> bytes \<Rightarrow> nat \<Rightarrow> CTxIn \<Rightarrow> CTxOut \<Rightarrow> int \<Rightarrow> index_batch \<Rightarrow> index_batch" where
  "disconnect_input_entry height i txhash j txin prev undoHeight b =
     (let spk = scriptPubKey prev; p = prevout txin
      in case address_of spk of
           None \<Rightarrow> b
         | Some (addressType, hashBytes) \<Rightarrow>
             if IsPayToScriptHash spk \<or> IsPayToPublicKeyHash spk
             then push_entry (CAddressIndexKey.make addressType hashBytes height i txhash j True, nValue prev * -1)
                    (CAddressUnspentKey.make addressType hashBytes (COutPoint.op_hash p) (unat (op_n p)),
                     CAddressUnspentValue.make (nValue prev) spk undoHeight) b
             else push_entry (CAddressIndexKey.make addressType hashBytes height i txhash j False, nValue prev)
                    (CAddressUnspentKey.make addressType hashBytes txhash j, CAddressUnspentValue_null) b)"

section \<open>Disconnecting\<close>

datatype disconnect_error = DisconnectFailed | DisconnectThrows coins_error | DisconnectNullDereference

text \<open>The loop over the inputs, from the last to the first; \<open>j\<close> is the index of the head of the list of inputs and undo coins.\<close>

fun restore_inputs ::
  "(bytes \<Rightarrow> nat) \<Rightarrow> 'b view_ops \<Rightarrow> index_flags \<Rightarrow> int \<Rightarrow> nat \<Rightarrow> bytes \<Rightarrow> (nat \<times> CTxIn \<times> Coin) list \<Rightarrow>
   bool \<Rightarrow> index_batch \<Rightarrow> 'b cached \<Rightarrow> disconnect_error + bool \<times> index_batch \<times> 'b cached" where
  "restore_inputs usage ops fl height i txhash [] fClean b s = Inr (fClean, b, s)"
| "restore_inputs usage ops fl height i txhash ((j, txin, undo) # rest) fClean b s =
     (case ApplyTxInUndo usage ops undo (prevout txin) s of
        Inl e \<Rightarrow> Inl (DisconnectThrows e)
      | Inr (DISCONNECT_FAILED, _) \<Rightarrow> Inl DisconnectFailed
      | Inr (res, s1) \<Rightarrow>
          let b1 = (if fSpentIndex fl
                    then push_spent (CSpentIndexKey.make (COutPoint.op_hash (prevout txin)) (op_n (prevout txin)), CSpentIndexValue_null) b
                    else b);
              (b2, s2) = (if fAddressIndex fl
                          then (case AccessCoin usage ops (prevout txin) s1 of
                                  (coin, s2) \<Rightarrow> (disconnect_input_entry height i txhash j txin (coin_out coin) (int (coin_nHeight undo)) b1, s2))
                          else (b1, s1))
          in restore_inputs usage ops fl height i txhash rest (fClean \<and> res \<noteq> DISCONNECT_UNCLEAN) b2 s2)"

definition disconnect_tx ::
  "(bytes \<Rightarrow> nat) \<Rightarrow> 'b view_ops \<Rightarrow> index_flags \<Rightarrow> int \<Rightarrow> CBlockUndo \<Rightarrow> nat \<Rightarrow> CTransaction \<Rightarrow>
   bool \<Rightarrow> index_batch \<Rightarrow> 'b cached \<Rightarrow> disconnect_error + bool \<times> index_batch \<times> 'b cached" where
  "disconnect_tx usage ops fl height vtxundo i tx fClean b s =
     (let txhash = GetHash tx;
          b1 = (if fAddressIndex fl then disconnect_output_entries height i txhash (vout tx) b else b);
          (fClean1, s1) = remove_outputs usage ops txhash (IsCoinBase tx) (IsCoinStake tx) height 0 (vout tx) fClean s
      in if i > 0
         then let txundo = vtxundo ! (i - 1)
              in if length txundo \<noteq> length (vin tx) then Inl DisconnectFailed
                 else restore_inputs usage ops fl height i txhash (rev (enumerate 0 (zip (vin tx) txundo))) fClean1 b1 s1
         else Inr (fClean1, b1, s1))"

fun disconnect_txs ::
  "(bytes \<Rightarrow> nat) \<Rightarrow> 'b view_ops \<Rightarrow> index_flags \<Rightarrow> int \<Rightarrow> CBlockUndo \<Rightarrow> (nat \<times> CTransaction) list \<Rightarrow>
   bool \<Rightarrow> index_batch \<Rightarrow> 'b cached \<Rightarrow> disconnect_error + bool \<times> index_batch \<times> 'b cached" where
  "disconnect_txs usage ops fl height vtxundo [] fClean b s = Inr (fClean, b, s)"
| "disconnect_txs usage ops fl height vtxundo ((i, tx) # rest) fClean b s =
     bindE (disconnect_tx usage ops fl height vtxundo i tx fClean b s)
       (\<lambda>(fClean1, b1, s1). disconnect_txs usage ops fl height vtxundo rest fClean1 b1 s1)"

record index_db =
  idx_address :: "CAmount table"
  idx_unspent :: "CAddressUnspentValue table"
  idx_spent :: "CSpentIndexValue table"
  idx_time :: "unit table"

text \<open>
  \<open>DisconnectBlock\<close> on the coins view, the indexes and the best block of the masternode database (\<open>None\<close> if it has none), which
  \<open>evo/evodb.cpp\<close> compares and writes. \<open>undo_file\<close> is what the undo file holds at the position of the block, \<open>None\<close> if there is no
  such position or the file cannot be opened.
\<close>

type_synonym 'b chain_state = "'b cached \<times> index_db \<times> bytes option"

definition DisconnectBlock ::
  "(bytes \<Rightarrow> nat) \<Rightarrow> 'b view_ops \<Rightarrow> pubkey_ops \<Rightarrow> index_flags \<Rightarrow> consensus_params \<Rightarrow> bytes option \<Rightarrow> bool \<Rightarrow> CBlock \<Rightarrow> CBlockIndex \<Rightarrow>
   'b chain_state \<Rightarrow> disconnect_error + DisconnectResult \<times> 'b chain_state" where
  "DisconnectBlock usage ops pk fl cp undo_file special_undone block pindex st =
     (let (s, db, evo_best) = st; height = nHeight pindex
      in if height \<ge> DIP0003Height cp \<and> evo_best \<noteq> Some (bi_hash (info pindex)) then Inl DisconnectFailed
         else case undo_file of
           None \<Rightarrow> Inl DisconnectFailed
         | Some file \<Rightarrow>
         (case pprev pindex of
           None \<Rightarrow> Inl DisconnectNullDereference
         | Some prev \<Rightarrow>
           (case UndoReadFromDisk pk (bi_hash (info prev)) file of
              None \<Rightarrow> Inl DisconnectFailed
            | Some vtxundo \<Rightarrow>
                if length vtxundo + 1 \<noteq> length (vtx block) then Inl DisconnectFailed
                else if \<not> special_undone then Inl DisconnectFailed
                else bindE (disconnect_txs usage ops fl height vtxundo (rev (enumerate 0 (vtx block))) True empty_batch s) (\<lambda>(fClean, b, s1).
                  let db1 = (if fSpentIndex fl then db\<lparr>idx_spent := UpdateSpentIndex (spentIndex b) (idx_spent db)\<rparr> else db);
                      db2 = (if fAddressIndex fl
                             then db1\<lparr>idx_address := EraseAddressIndex (addressIndex b) (idx_address db1),
                                      idx_unspent := UpdateAddressUnspentIndex (addressUnspentIndex b) (idx_unspent db1)\<rparr>
                             else db1)
                  in Inr (if fClean then DISCONNECT_OK else DISCONNECT_UNCLEAN,
                          ((SetBestBlock (bi_hash (info prev)) (fst s1), snd s1), db2, Some (bi_hash (info prev))))))))"

section \<open>Script checks\<close>

record CScriptCheck =
  m_tx_out :: CTxOut
  ptxTo :: CTransaction
  sc_nIn :: nat
  sc_nFlags :: u32

text \<open>The call operator; \<open>lowS\<close> and \<open>verify\<close> are the entry points of libsecp256k1, with the signature cache in front of the second.\<close>

definition run_script_check :: "(bytes \<Rightarrow> bool) \<Rightarrow> (bytes \<Rightarrow> bytes \<Rightarrow> bytes \<Rightarrow> bool) \<Rightarrow> CScriptCheck \<Rightarrow> bool" where
  "run_script_check lowS verify c \<longleftrightarrow>
     VerifyScript (scriptSig (vin (ptxTo c) ! sc_nIn c)) (scriptPubKey (m_tx_out c)) (sc_nFlags c)
       (TransactionSignatureChecker lowS verify (ptxTo c) (sc_nIn c)) = Inr ()"

definition MANDATORY_SCRIPT_VERIFY_FLAGS :: u32 where
  "MANDATORY_SCRIPT_VERIFY_FLAGS = SCRIPT_VERIFY_P2SH"

definition STANDARD_SCRIPT_VERIFY_FLAGS :: u32 where
  "STANDARD_SCRIPT_VERIFY_FLAGS =
     MANDATORY_SCRIPT_VERIFY_FLAGS OR SCRIPT_VERIFY_DERSIG OR SCRIPT_VERIFY_STRICTENC OR SCRIPT_VERIFY_MINIMALDATA OR SCRIPT_VERIFY_NULLDUMMY
     OR SCRIPT_VERIFY_DISCOURAGE_UPGRADABLE_NOPS OR SCRIPT_VERIFY_CLEANSTACK OR SCRIPT_VERIFY_NULLFAIL
     OR SCRIPT_VERIFY_CHECKLOCKTIMEVERIFY OR SCRIPT_VERIFY_CHECKSEQUENCEVERIFY OR SCRIPT_VERIFY_LOW_S OR SCRIPT_ENABLE_DIP0020_OPCODES
     OR SCRIPT_VERIFY_CONST_SCRIPTCODE"

definition STANDARD_NOT_MANDATORY_VERIFY_FLAGS :: u32 where
  "STANDARD_NOT_MANDATORY_VERIFY_FLAGS = STANDARD_SCRIPT_VERIFY_FLAGS AND NOT MANDATORY_SCRIPT_VERIFY_FLAGS"

definition script_failure :: "(bytes \<Rightarrow> bool) \<Rightarrow> (bytes \<Rightarrow> bytes \<Rightarrow> bytes \<Rightarrow> bool) \<Rightarrow> CScriptCheck \<Rightarrow> block_error" where
  "script_failure lowS verify c =
     (let flags = sc_nFlags c
      in if (flags AND STANDARD_NOT_MANDATORY_VERIFY_FLAGS \<noteq> 0 \<or> flags AND SCRIPT_ENABLE_DIP0020_OPCODES = 0)
            \<and> run_script_check lowS verify (c\<lparr>sc_nFlags := (flags AND NOT STANDARD_NOT_MANDATORY_VERIFY_FLAGS) OR SCRIPT_ENABLE_DIP0020_OPCODES\<rparr>)
         then BlockReject 0 ''non-mandatory-script-verify-flag'' False
         else BlockReject 100 ''mandatory-script-verify-flag-failed'' False)"

text \<open>
  The loop of \<open>CheckInputs\<close> from input \<open>i\<close> on. With a vector \<open>pvChecks\<close> (\<open>queued\<close>) the checks are returned, otherwise they are run.
\<close>

fun script_checks_loop ::
  "(bytes \<Rightarrow> nat) \<Rightarrow> 'b view_ops \<Rightarrow> (bytes \<Rightarrow> bool) \<Rightarrow> (bytes \<Rightarrow> bytes \<Rightarrow> bytes \<Rightarrow> bool) \<Rightarrow> CTransaction \<Rightarrow> u32 \<Rightarrow> bool \<Rightarrow>
   nat \<Rightarrow> CTxIn list \<Rightarrow> CScriptCheck list \<Rightarrow> 'b cached \<Rightarrow> (block_error + CScriptCheck list) \<times> 'b cached" where
  "script_checks_loop usage ops lowS verify tx flags queued i [] pvChecks s = (Inr pvChecks, s)"
| "script_checks_loop usage ops lowS verify tx flags queued i (txin # ins) pvChecks s =
     (case AccessCoin usage ops (prevout txin) s of
        (coin, s1) \<Rightarrow>
          let check = \<lparr>m_tx_out = coin_out coin, ptxTo = tx, sc_nIn = i, sc_nFlags = flags\<rparr>
          in if IsSpent coin then (Inl BlockAssertFailed, s1)
             else if queued then script_checks_loop usage ops lowS verify tx flags queued (i + 1) ins (pvChecks @ [check]) s1
             else if \<not> run_script_check lowS verify check then (Inl (script_failure lowS verify check), s1)
             else script_checks_loop usage ops lowS verify tx flags queued (i + 1) ins pvChecks s1)"

definition script_cache_entry :: "bytes \<Rightarrow> CTransaction \<Rightarrow> u32 \<Rightarrow> bytes" where
  "script_cache_entry nonce tx flags =
     CSHA256_Finalize (CSHA256_Write (CSHA256_Write (salted_hasher nonce) (GetHash tx)) (ser_u32 flags))"

definition CheckInputs ::
  "(bytes \<Rightarrow> nat) \<Rightarrow> 'b view_ops \<Rightarrow> (bytes \<Rightarrow> bool) \<Rightarrow> (bytes \<Rightarrow> bytes \<Rightarrow> bytes \<Rightarrow> bool) \<Rightarrow> bytes \<Rightarrow> CTransaction \<Rightarrow> bool \<Rightarrow> u32 \<Rightarrow> bool \<Rightarrow>
   bool \<Rightarrow> 'b cached \<times> bytes cuckoo \<Rightarrow> (block_error + CScriptCheck list) \<times> 'b cached \<times> bytes cuckoo" where
  "CheckInputs usage ops lowS verify nonce tx fScriptChecks flags cacheFullScriptStore queued st =
     (let (s, cache) = st; entry = script_cache_entry nonce tx flags
      in if IsCoinBase tx \<or> \<not> fScriptChecks then (Inr [], s, cache)
         else case cuckoo_contains SignatureCacheHasher entry (\<not> cacheFullScriptStore) cache of
           (True, cache1) \<Rightarrow> (Inr [], s, cache1)
         | (False, cache1) \<Rightarrow>
             (case script_checks_loop usage ops lowS verify tx flags queued 0 (vin tx) [] s of
                (Inl e, s1) \<Rightarrow> (Inl e, s1, cache1)
              | (Inr pvChecks, s1) \<Rightarrow>
                  (Inr pvChecks, s1,
                   if cacheFullScriptStore \<and> \<not> queued then cuckoo_insert SignatureCacheHasher entry cache1 else cache1)))"

section \<open>Connecting\<close>

text \<open>
  What \<open>ConnectBlock\<close> takes from the rest of the node: the curve operations, the nonce of the script cache, the options, the assumed-valid and
  the best header, consensus parameters used only here, and the answers of the chain-lock, special-transaction, instant-send and payment code
  for the block at hand; the last two depend on the block reward.
\<close>

record connect_env =
  ce_lowS :: "bytes \<Rightarrow> bool"
  ce_verify :: "bytes \<Rightarrow> bytes \<Rightarrow> bytes \<Rightarrow> bool"
  ce_pubkeys :: pubkey_ops
  ce_nonce :: bytes
  ce_index :: index_flags
  g_parallel_script_checks :: bool
  assumed_valid :: "CBlockIndex option"
  pindexBestHeader :: CBlockIndex
  nMinimumChainWork :: base_uint
  nLastPowBlock :: int
  BIP34Hash :: bytes
  nSuperblockStartBlock :: int
  nSuperblockStartHash :: bytes
  HasConflictingChainLock :: bool
  ProcessSpecialTxsInBlock :: "block_error + unit"
  conflicting_lock :: bool
  IsBlockValueValid :: "CAmount \<Rightarrow> bool"
  IsBlockPayeeValid :: "CAmount \<Rightarrow> bool"
  undo_exists :: bool
  undo_written :: bool

record 'b connect_state =
  cs_view :: "'b cached"
  cs_cache :: "bytes cuckoo"
  cs_nFees :: CAmount
  cs_nSigOps :: nat
  cs_vtxundo :: CBlockUndo
  cs_batch :: index_batch
  cs_queue :: "CScriptCheck list"

definition tx_failure :: "tx_error \<Rightarrow> block_error" where
  "tx_failure e = (case e of Reject level reason \<Rightarrow> BlockReject level reason False | _ \<Rightarrow> BlockAssertFailed)"

fun coin_heights :: "(bytes \<Rightarrow> nat) \<Rightarrow> 'b view_ops \<Rightarrow> CTxIn list \<Rightarrow> 'b cached \<Rightarrow> int list \<times> 'b cached" where
  "coin_heights usage ops [] s = ([], s)"
| "coin_heights usage ops (txin # ins) s =
     (case AccessCoin usage ops (prevout txin) s of
        (coin, s1) \<Rightarrow> (case coin_heights usage ops ins s1 of (heights, s2) \<Rightarrow> (int (coin_nHeight coin) # heights, s2)))"

text \<open>The first part of the loop body, for a transaction that is not a coinbase: amounts, relative lock times and index entries.\<close>

definition connect_tx_inputs ::
  "(bytes \<Rightarrow> nat) \<Rightarrow> 'b view_ops \<Rightarrow> connect_env \<Rightarrow> CBlockIndex \<Rightarrow> u32 \<Rightarrow> nat \<Rightarrow> CTransaction \<Rightarrow> 'b connect_state \<Rightarrow>
   block_error + 'b connect_state" where
  "connect_tx_inputs usage ops env pindex nLockTimeFlags i tx st =
     (let fl = ce_index env
      in case CheckTxInputs usage ops tx (nHeight pindex) 0 (cs_view st) of
           (Inl e, _) \<Rightarrow> Inl (tx_failure e)
         | (Inr txfee, s1) \<Rightarrow>
             let nFees = cs_nFees st + txfee
             in if \<not> MoneyRange nFees then Inl (BlockReject 100 ''bad-txns-accumulated-fee-outofrange'' False)
                else case coin_heights usage ops (vin tx) s1 of
                  (prevheights, s2) \<Rightarrow>
                    (case SequenceLocks tx nLockTimeFlags prevheights pindex of
                       Inl e \<Rightarrow> Inl (tx_failure e)
                     | Inr final \<Rightarrow>
                         if \<not> final then Inl (BlockReject 100 ''bad-txns-nonfinal'' False)
                         else let (b, s3) = (if fAddressIndex fl \<or> fSpentIndex fl
                                             then connect_input_entries usage ops fl (nHeight pindex) i (GetHash tx) 0 (vin tx) s2 (cs_batch st)
                                             else (cs_batch st, s2))
                              in Inr (st\<lparr>cs_view := s3, cs_nFees := nFees, cs_batch := b\<rparr>)))"

definition connect_tx_scripts ::
  "(bytes \<Rightarrow> nat) \<Rightarrow> 'b view_ops \<Rightarrow> connect_env \<Rightarrow> bool \<Rightarrow> u32 \<Rightarrow> bool \<Rightarrow> CTransaction \<Rightarrow> 'b connect_state \<Rightarrow> block_error + 'b connect_state" where
  "connect_tx_scripts usage ops env fScriptChecks flags fJustCheck tx st =
     (if fScriptChecks
      then case CheckInputs usage ops (ce_lowS env) (ce_verify env) (ce_nonce env) tx fScriptChecks flags fJustCheck
                  (g_parallel_script_checks env) (cs_view st, cs_cache st) of
             (Inl e, _) \<Rightarrow> Inl e
           | (Inr vChecks, s1, cache1) \<Rightarrow> Inr (st\<lparr>cs_view := s1, cs_cache := cache1, cs_queue := cs_queue st @ vChecks\<rparr>)
      else Inr st)"

definition connect_tx ::
  "(bytes \<Rightarrow> nat) \<Rightarrow> 'b view_ops \<Rightarrow> connect_env \<Rightarrow> consensus_params \<Rightarrow> CBlockIndex \<Rightarrow> u32 \<Rightarrow> u32 \<Rightarrow> bool \<Rightarrow> bool \<Rightarrow> nat \<Rightarrow> CTransaction \<Rightarrow>
   'b connect_state \<Rightarrow> block_error + 'b connect_state" where
  "connect_tx usage ops env cp pindex nLockTimeFlags flags fScriptChecks fJustCheck i tx st =
     bindE (if IsCoinBase tx then Inr st else connect_tx_inputs usage ops env pindex nLockTimeFlags i tx st) (\<lambda>st1.
     case GetTransactionSigOpCount usage ops tx flags (cs_view st1) of
       (Inl e, _) \<Rightarrow> Inl (tx_failure e)
     | (Inr n, s2) \<Rightarrow>
         let st2 = st1\<lparr>cs_view := s2, cs_nSigOps := cs_nSigOps st1 + n\<rparr>
         in if cs_nSigOps st2 > MaxBlockSigOps (nHeight pindex \<ge> DIP0001Height cp) then Inl (BlockReject 100 ''bad-blk-sigops'' False)
            else bindE (if IsCoinBase tx \<or> nHeight pindex < nForkHeight cp then Inr st2
                        else connect_tx_scripts usage ops env fScriptChecks flags fJustCheck tx st2) (\<lambda>st3.
              let b = (if fAddressIndex (ce_index env)
                       then connect_output_entries (nHeight pindex) i (GetHash tx) 0 (vout tx) (cs_batch st3) else cs_batch st3)
              in case UpdateCoins usage ops tx (nat (nHeight pindex)) (cs_view st3) of
                   Inl _ \<Rightarrow> Inl BlockAssertFailed
                 | Inr (txundo, s4) \<Rightarrow>
                     Inr (st3\<lparr>cs_view := s4, cs_batch := b,
                              cs_vtxundo := (if i > 0 then cs_vtxundo st3 @ [txundo] else cs_vtxundo st3)\<rparr>)))"

fun connect_txs ::
  "(bytes \<Rightarrow> nat) \<Rightarrow> 'b view_ops \<Rightarrow> connect_env \<Rightarrow> consensus_params \<Rightarrow> CBlockIndex \<Rightarrow> u32 \<Rightarrow> u32 \<Rightarrow> bool \<Rightarrow> bool \<Rightarrow> nat \<Rightarrow> CTransaction list \<Rightarrow>
   'b connect_state \<Rightarrow> block_error + 'b connect_state" where
  "connect_txs usage ops env cp pindex nLockTimeFlags flags fScriptChecks fJustCheck i [] st = Inr st"
| "connect_txs usage ops env cp pindex nLockTimeFlags flags fScriptChecks fJustCheck i (tx # txs) st =
     bindE (connect_tx usage ops env cp pindex nLockTimeFlags flags fScriptChecks fJustCheck i tx st)
       (connect_txs usage ops env cp pindex nLockTimeFlags flags fScriptChecks fJustCheck (i + 1) txs)"

text \<open>The check against overwriting transactions; the result is whether an output of the block exists already.\<close>

fun have_outputs :: "(bytes \<Rightarrow> nat) \<Rightarrow> 'b view_ops \<Rightarrow> bytes \<Rightarrow> nat \<Rightarrow> nat \<Rightarrow> 'b cached \<Rightarrow> bool \<times> 'b cached" where
  "have_outputs usage ops txid n 0 s = (False, s)"
| "have_outputs usage ops txid n (Suc k) s =
     (case HaveCoin usage ops (COutPoint.make txid (of_nat n)) s of
        (True, s1) \<Rightarrow> (True, s1)
      | (False, s1) \<Rightarrow> have_outputs usage ops txid (n + 1) k s1)"

fun overwrites :: "(bytes \<Rightarrow> nat) \<Rightarrow> 'b view_ops \<Rightarrow> CTransaction list \<Rightarrow> 'b cached \<Rightarrow> bool \<times> 'b cached" where
  "overwrites usage ops [] s = (False, s)"
| "overwrites usage ops (tx # txs) s =
     (case have_outputs usage ops (GetHash tx) 0 (length (vout tx)) s of
        (True, s1) \<Rightarrow> (True, s1)
      | (False, s1) \<Rightarrow> overwrites usage ops txs s1)"

datatype connect_error = ConnectInvalid block_error | ConnectAbort string

text \<open>The rules on proof of work and proof of stake at the height of the block.\<close>

definition proof_period :: "connect_env \<Rightarrow> consensus_params \<Rightarrow> CBlockIndex \<Rightarrow> CBlock \<Rightarrow> block_error + unit" where
  "proof_period env cp pindex block =
     (let height = nHeight pindex;
          is_pos_active = (case pprev pindex of None \<Rightarrow> False | Some p \<Rightarrow> IsProofOfStake p);
          is_pow_active = (height < nLastPowBlock env);
          is_posv2_active = (case pprev pindex of None \<Rightarrow> False | Some p \<Rightarrow> index_IsProofOfStakeV2 p)
      in if hdr_IsProofOfStake block \<and> \<not> is_pos_active \<and> \<not> IsPoSEnforcedHeight height \<and> \<not> IsPoSV2EnforcedHeight cp height
         then Inl (BlockReject 100 ''PoS-early'' False)
         else if hdr_IsProofOfWork block \<and> \<not> is_pow_active then Inl (BlockReject 100 ''PoW-ended'' False)
         else if is_pos_active \<and> hdr_IsProofOfWork block \<and> \<not> is_pow_active then Inl (BlockReject 100 ''PoS-active'' False)
         else if IsProofOfStakeV2 block \<and> \<not> is_posv2_active \<and> \<not> IsPoSV2EnforcedHeight cp height
         then Inl (BlockReject 100 ''PoSv2-early'' False)
         else if \<not> IsProofOfStakeV2 block \<and> height \<ge> nForkHeight cp then Inl (BlockReject 100 ''Hard-fork-active'' False)
         else Inr ())"

text \<open>Whether the scripts are run: not for ancestors of the assumed-valid block that lie two weeks of work below the best header.\<close>

definition script_checks_needed :: "connect_env \<Rightarrow> consensus_params \<Rightarrow> CBlockIndex \<Rightarrow> block_error + bool" where
  "script_checks_needed env cp pindex =
     (let best = pindexBestHeader env
      in case assumed_valid env of
           None \<Rightarrow> Inr True
         | Some a \<Rightarrow>
             (case GetAncestor (nHeight pindex) a of
                Inl _ \<Rightarrow> Inl BlockAssertFailed
              | Inr r \<Rightarrow>
                  if r \<noteq> Some pindex then Inr True
                  else case GetAncestor (nHeight pindex) best of
                         Inl _ \<Rightarrow> Inl BlockAssertFailed
                       | Inr q \<Rightarrow>
                           if q \<noteq> Some pindex \<or> CompareTo (bi_nChainWork (info best)) (nMinimumChainWork env) < 0 then Inr True
                           else case GetBlockProofEquivalentTime (nat (nPowTargetSpacing (cp_pow cp))) best pindex best of
                                  None \<Rightarrow> Inl BlockAssertFailed
                                | Some t \<Rightarrow> Inr (t \<le> 60 * 60 * 24 * 7 * 2)))"

definition bip30_enforced :: "connect_env \<Rightarrow> consensus_params \<Rightarrow> CBlockIndex \<Rightarrow> block_error + bool" where
  "bip30_enforced env cp prev =
     (case GetAncestor (BIP34Height cp) prev of
        Inl _ \<Rightarrow> Inl BlockAssertFailed
      | Inr None \<Rightarrow> Inr True
      | Inr (Some b) \<Rightarrow> Inr (bi_hash (info b) \<noteq> BIP34Hash env))"

text \<open>The checks after the sanity check of the block and before the loop, which read the chain and the view; the result is \<open>fScriptChecks\<close> with the previous block.\<close>

definition connect_preconditions ::
  "(bytes \<Rightarrow> nat) \<Rightarrow> 'b view_ops \<Rightarrow> connect_env \<Rightarrow> consensus_params \<Rightarrow> CBlock \<Rightarrow> bytes \<Rightarrow> CBlockIndex \<Rightarrow> 'b cached \<Rightarrow>
   block_error + bool \<times> CBlockIndex \<times> 'b cached" where
  "connect_preconditions usage ops env cp block hsh pindex s =
     bindE (proof_period env cp pindex block) (\<lambda>_.
     bindE (script_checks_needed env cp pindex) (\<lambda>fScriptChecks.
     case pprev pindex of
       None \<Rightarrow> Inl BlockAssertFailed
     | Some prev \<Rightarrow>
         bindE (bip30_enforced env cp prev) (\<lambda>fEnforceBIP30.
         case (if fEnforceBIP30 then overwrites usage ops (vtx block) s else (False, s)) of
           (True, _) \<Rightarrow> Inl (BlockReject 100 ''bad-txns-BIP30'' False)
         | (False, s1) \<Rightarrow>
             if nHeight pindex = nSuperblockStartBlock env \<and> nSuperblockStartHash env \<noteq> uint256_null \<and> hsh \<noteq> nSuperblockStartHash env
             then Inl (BlockReject 100 ''bad-sb-start'' False)
             else Inr (fScriptChecks, prev, s1))))"

definition initial_state :: "'b cached \<Rightarrow> bytes cuckoo \<Rightarrow> 'b connect_state" where
  "initial_state s cache =
     \<lparr>cs_view = s, cs_cache = cache, cs_nFees = 0, cs_nSigOps = 0, cs_vtxundo = [], cs_batch = empty_batch, cs_queue = []\<rparr>"

text \<open>
  The loop and the checks that follow it. \<open>control.Wait\<close> returns whether all queued checks succeed; without parallel checks the queue is
  empty.
\<close>

definition connect_transactions ::
  "(bytes \<Rightarrow> nat) \<Rightarrow> 'b view_ops \<Rightarrow> connect_env \<Rightarrow> consensus_params \<Rightarrow> CBlock \<Rightarrow> CBlockIndex \<Rightarrow> CBlockIndex \<Rightarrow> u32 \<Rightarrow> u32 \<Rightarrow> bool \<Rightarrow> bool \<Rightarrow>
   'b cached \<times> bytes cuckoo \<Rightarrow> block_error + 'b connect_state" where
  "connect_transactions usage ops env cp block pindex prev nLockTimeFlags flags fScriptChecks fJustCheck st =
     bindE (ProcessSpecialTxsInBlock env) (\<lambda>_.
     bindE (connect_txs usage ops env cp pindex nLockTimeFlags flags fScriptChecks fJustCheck 0 (vtx block) (initial_state (fst st) (snd st)))
       (\<lambda>st1.
       let blockReward = cs_nFees st1 + GetBlockSubsidy cp (nHeight prev)
       in if \<not> list_all (run_script_check (ce_lowS env) (ce_verify env)) (cs_queue st1)
          then Inl (BlockReject 100 ''block-validation-failed'' False)
          else if conflicting_lock env then Inl (BlockReject 10 ''conflict-tx-lock'' False)
          else if \<not> IsBlockValueValid env blockReward then Inl (BlockReject 0 ''bad-cb-amount'' False)
          else if \<not> IsBlockPayeeValid env blockReward then Inl (BlockReject 0 ''bad-cb-payee'' False)
          else Inr st1))"

text \<open>The end of a successful connection: the indexes, the best block of the view and of the masternode database.\<close>

definition connect_indexes :: "index_flags \<Rightarrow> CBlockIndex \<Rightarrow> index_batch \<Rightarrow> index_db \<Rightarrow> index_db" where
  "connect_indexes fl pindex b db =
     (let db1 = (if fAddressIndex fl
                 then db\<lparr>idx_address := WriteAddressIndex (addressIndex b) (idx_address db),
                         idx_unspent := UpdateAddressUnspentIndex (addressUnspentIndex b) (idx_unspent db)\<rparr>
                 else db);
          db2 = (if fSpentIndex fl then db1\<lparr>idx_spent := UpdateSpentIndex (spentIndex b) (idx_spent db1)\<rparr> else db1)
      in if fTimestampIndex fl
         then db2\<lparr>idx_time := WriteTimestampIndex (CTimestampIndexKey.make (bi_nTime (info pindex)) (bi_hash (info pindex))) (idx_time db2)\<rparr>
         else db2)"

definition connect_commit :: "connect_env \<Rightarrow> CBlockIndex \<Rightarrow> 'b connect_state \<Rightarrow> index_db \<Rightarrow> 'b chain_state" where
  "connect_commit env pindex st db =
     (let hsh = bi_hash (info pindex)
      in ((SetBestBlock hsh (fst (cs_view st)), snd (cs_view st)), connect_indexes (ce_index env) pindex (cs_batch st) db, Some hsh))"

text \<open>
  \<open>ConnectBlock\<close> on the chain state, the script cache and the version-bits cache. Beside them it returns the record that the undo file
  receives (\<open>None\<close> if nothing is written, as when the block has a position in an undo file already: \<open>undo_exists\<close>). The outer
  \<open>None\<close> stands for a version-bits computation that does not return. The validity level that the block index entry is raised to is not
  part of the model.
\<close>

definition ConnectBlock ::
  "(bytes \<Rightarrow> nat) \<Rightarrow> 'b view_ops \<Rightarrow> 'c sha_ops \<Rightarrow> curve_ops \<Rightarrow> connect_env \<Rightarrow> consensus_params \<Rightarrow> bool \<Rightarrow> bool \<times> CBlock \<Rightarrow> CBlockIndex \<Rightarrow>
   'b chain_state \<times> bytes cuckoo \<times> VersionBitsCache \<Rightarrow>
   (connect_error + 'b chain_state \<times> bytes cuckoo \<times> VersionBitsCache \<times> bytes option) option" where
  "ConnectBlock usage ops sha cv env cp fJustCheck fblock pindex st =
     (let ((s, db, evo_best), cache, vb) = st; block = snd fblock; hsh = hdr_GetHash sha block; height = nHeight pindex;
          hashPrevBlock = (case pprev pindex of None \<Rightarrow> uint256_null | Some p \<Rightarrow> bi_hash (info p));
          invalid = (\<lambda>e. Some (Inl (ConnectInvalid e)))
      in if bi_hash (info pindex) \<noteq> hsh then invalid BlockAssertFailed
         else case CheckBlock sha cv cp (\<not> fJustCheck) (\<not> fJustCheck) fblock of
           Inl (BlockReject _ _ True) \<Rightarrow> Some (Inl (ConnectAbort ''Corrupt block found''))
         | Inl e \<Rightarrow> invalid e
         | Inr _ \<Rightarrow>
           if pprev pindex \<noteq> None \<and> HasConflictingChainLock env then invalid (BlockReject 10 ''bad-chainlock'' False)
           else case GetBestBlock ops s of (best, s0) \<Rightarrow>
             if hashPrevBlock \<noteq> best then invalid BlockAssertFailed
             else if pprev pindex \<noteq> None \<and> height \<ge> DIP0003Height cp \<and> evo_best \<noteq> Some hashPrevBlock
             then Some (Inl (ConnectAbort ''Found EvoDB inconsistency''))
             else if hsh = hashGenesisBlock cp
             then Some (Inr (((if fJustCheck then s0 else (SetBestBlock hsh (fst s0), snd s0)), db, evo_best), cache, vb, None))
             else case connect_preconditions usage ops env cp block hsh pindex s0 of
               Inl e \<Rightarrow> invalid e
             | Inr (fScriptChecks, prev, s1) \<Rightarrow>
                 Option.bind (is_active (pprev pindex) (cp_vb cp) DEPLOYMENT_CSV vb) (\<lambda>r1. case r1 of Inl e \<Rightarrow> invalid e | Inr (csv, vb1) \<Rightarrow>
                 map_option (\<lambda>r2. case r2 of Inl e \<Rightarrow> Inl (ConnectInvalid e) | Inr (flags, vb2) \<Rightarrow>
                   (case connect_transactions usage ops env cp block pindex prev (if csv then LOCKTIME_VERIFY_SEQUENCE else 0) flags
                           fScriptChecks fJustCheck (s1, cache) of
                      Inl e \<Rightarrow> Inl (ConnectInvalid e)
                    | Inr st1 \<Rightarrow>
                        if fJustCheck then Inr ((cs_view st1, db, evo_best), cs_cache st1, vb2, None)
                        else if undo_exists env then Inr (connect_commit env pindex st1 db, cs_cache st1, vb2, None)
                        else case undo_record (ce_pubkeys env) (cs_vtxundo st1) hashPrevBlock of
                               Inl _ \<Rightarrow> Inl (ConnectInvalid BlockAssertFailed)
                             | Inr record \<Rightarrow>
                                 if \<not> undo_written env then Inl (ConnectAbort ''Failed to write undo data'')
                                 else Inr (connect_commit env pindex st1 db, cs_cache st1, vb2, Some record)))
                   (GetBlockScriptFlags cp pindex vb1)))"

end
